(* ===== verification/Prelude.thy ===== *)
theory Prelude
  imports Main "HOL-Library.Word" "HOL-Library.AList" "HOL-Library.Multiset"
    "HOL-Library.List_Lexorder"
begin

text \<open>
  Shared vocabulary of the development.

  \<^item> the machine integers of the Rust sources (\<open>u8\<close> to \<open>u128\<close>) as words, with the
    saturating operations of the standard library and their meaning on \<^typ>\<open>nat\<close>;
  \<^item> the ASCII case operations on strings and bytes (\<open>to_ascii_lowercase\<close>,
    \<open>eq_ignore_ascii_case\<close>) and the few \<open>str\<close>/iterator functions the sources call;
  \<^item> \<open>DashMap\<close>/\<open>HashMap\<close> as an association list with distinct keys behind the interface
    \<open>kv_store\<close>; the lemma on size-bounded tables is proved once in that locale and used by
    the rate limiter and the hit tracker;
  \<^item> the collections \<open>sat_simps\<close>, \<open>dm_simps\<close> and \<open>ascii_simps\<close>.
\<close>

unbundle bit_operations_syntax

named_theorems sat_simps \<open>saturating word arithmetic read through unat\<close>
named_theorems dm_simps \<open>laws of the map operations\<close>
named_theorems ascii_simps \<open>ASCII case folding\<close>

type_synonym u8 = "8 word"
type_synonym u16 = "16 word"
type_synonym u32 = "32 word"
type_synonym u64 = "64 word"
type_synonym u128 = "128 word"
type_synonym bytes = "u8 list"

section \<open>Machine integers\<close>

definition saturating_sub :: "'a::len word \<Rightarrow> 'a word \<Rightarrow> 'a word" where
  "saturating_sub a b = (if b \<le> a then a - b else 0)"

definition saturating_add :: "'a::len word \<Rightarrow> 'a word \<Rightarrow> 'a word" where
  "saturating_add a b = (if unat a + unat b < 2 ^ LENGTH('a) then a + b else - 1)"

definition saturating_mul :: "'a::len word \<Rightarrow> 'a word \<Rightarrow> 'a word" where
  "saturating_mul a b = (if unat a * unat b < 2 ^ LENGTH('a) then a * b else - 1)"

lemma unat_saturating_sub [sat_simps]:
  "unat (saturating_sub a b) = unat a - unat b"
  by (auto simp: saturating_sub_def unat_sub word_le_nat_alt)

lemma unat_saturating_add [sat_simps]:
  fixes a b :: "'a::len word"
  shows "unat (saturating_add a b) = min (unat a + unat b) (2 ^ LENGTH('a) - 1)"
  by (simp add: saturating_add_def unat_word_ariths unsigned_minus_1_eq_mask mask_eq_exp_minus_1)

lemma saturating_add_gt:
  fixes a b :: "'a::len word"
  assumes "a < - 1" and "0 < b"
  shows "a < saturating_add a b"
proof -
  have "unat a < 2 ^ LENGTH('a) - 1" using assms(1) by (simp add: word_less_nat_alt unsigned_minus_1_eq_mask mask_eq_exp_minus_1)
  moreover have "0 < unat b" using assms(2) by (simp add: word_less_nat_alt)
  ultimately show ?thesis by (simp add: word_less_nat_alt unat_saturating_add)
qed

lemma saturating_sub_le [simp]: "saturating_sub a b \<le> a"
  by (simp add: word_le_nat_alt sat_simps)

lemma saturating_sub_mono:
  "a \<le> a' \<Longrightarrow> saturating_sub a b \<le> saturating_sub a' b"
  by (simp add: word_le_nat_alt sat_simps diff_le_mono)

lemma saturating_sub_antimono:
  "b \<le> b' \<Longrightarrow> saturating_sub a b' \<le> saturating_sub a b"
  by (simp add: word_le_nat_alt sat_simps diff_le_mono2)

lemma unat_u8_less: "unat (b :: u8) < 256"
  using unsigned_less [of b, where 'a = nat] by simp

lemma unat_ucast_u8 [simp]: "unat (ucast (b :: u8) :: u32) = unat b"
  using unat_u8_less [of b]
  by (simp add: unsigned_ucast_eq take_bit_nat_eq_self)

lemma and_low_bits [sat_simps]:
  fixes x :: "'a::len word"
  shows "x AND 0xF = take_bit 4 x" and "x AND 0xFF = take_bit 8 x"
    and "x AND 0xFFFF = take_bit 16 x" and "x AND 0xFFFFFFFF = take_bit 32 x"
  by (simp_all add: take_bit_eq_mask mask_eq_exp_minus_1)

lemma unat_take_bit: "unat (take_bit n w) = unat w mod 2 ^ n"
  by (simp add: unsigned_take_bit_eq) (simp add: take_bit_eq_mod)

lemma unat_drop_bit: "unat (drop_bit n w) = unat w div 2 ^ n"
  by (simp add: unsigned_drop_bit_eq take_bit_nat_eq_self) (simp add: drop_bit_eq_div)

lemma unat_of_nat_less: "n < 2 ^ LENGTH('a) \<Longrightarrow> unat (of_nat n :: 'a::len word) = n"
  by (simp add: unsigned_of_nat take_bit_nat_eq_self)

section \<open>Iterators\<close>

fun find_map :: "('a \<Rightarrow> 'b option) \<Rightarrow> 'a list \<Rightarrow> 'b option" where
  "find_map f [] = None"
| "find_map f (x # xs) = (case f x of Some y \<Rightarrow> Some y | None \<Rightarrow> find_map f xs)"

lemma find_map_SomeD: "find_map f xs = Some y \<Longrightarrow> \<exists>x \<in> set xs. f x = Some y"
  by (induction xs) (auto split: option.splits)

lemma find_map_None_iff: "find_map f xs = None \<longleftrightarrow> (\<forall>x \<in> set xs. f x = None)"
  by (induction xs) (auto split: option.splits)

fun filter_map :: "('a \<Rightarrow> 'b option) \<Rightarrow> 'a list \<Rightarrow> 'b list" where
  "filter_map f [] = []"
| "filter_map f (x # xs) = (case f x of Some y \<Rightarrow> y # filter_map f xs | None \<Rightarrow> filter_map f xs)"

lemma set_filter_map: "set (filter_map f xs) = {y. \<exists>x \<in> set xs. f x = Some y}"
  by (induction xs) (auto split: option.splits)

lemma find_SomeD: "List.find P xs = Some x \<Longrightarrow> x \<in> set xs \<and> P x"
  by (auto simp: find_Some_iff)

text \<open>\<open>collect::<Option<Vec<_>>>()\<close>: all elements present, or \<open>None\<close>.\<close>

fun collect_opt :: "'a option list \<Rightarrow> 'a list option" where
  "collect_opt [] = Some []"
| "collect_opt (None # xs) = None"
| "collect_opt (Some x # xs) = map_option (Cons x) (collect_opt xs)"

lemma collect_opt_Some_iff: "collect_opt xs = Some ys \<longleftrightarrow> xs = map Some ys"
  by (induction xs arbitrary: ys rule: collect_opt.induct) auto

lemma collect_opt_None_iff: "collect_opt xs = None \<longleftrightarrow> None \<in> set xs"
  by (induction xs rule: collect_opt.induct) auto

section \<open>Strings and bytes\<close>

definition char_lower :: "char \<Rightarrow> char" where
  "char_lower c = (let n = (of_char c :: nat) in if 65 \<le> n \<and> n \<le> 90 then char_of (n + 32) else c)"

definition to_ascii_lowercase :: "string \<Rightarrow> string" where
  "to_ascii_lowercase = map char_lower"

definition eq_ignore_ascii_case :: "string \<Rightarrow> string \<Rightarrow> bool" where
  "eq_ignore_ascii_case a b = (to_ascii_lowercase a = to_ascii_lowercase b)"

definition byte_lower :: "u8 \<Rightarrow> u8" where
  "byte_lower b = (if 65 \<le> b \<and> b \<le> 90 then b + 32 else b)"

lemma eq_ignore_ascii_case_equivp: "equivp eq_ignore_ascii_case"
  by (auto simp: equivp_def eq_ignore_ascii_case_def fun_eq_iff)

lemma byte_lower_idem [simp]: "byte_lower (byte_lower b) = byte_lower b"
proof (cases "65 \<le> b \<and> b \<le> 90")
  case True
  then have "97 \<le> unat b + 32" and "unat b + 32 < 256"
    by (auto simp: word_le_nat_alt)
  then have "unat (b + 32) = unat b + 32"
    by (simp add: unat_word_ariths)
  with \<open>97 \<le> unat b + 32\<close> show ?thesis
    by (simp add: byte_lower_def word_le_nat_alt)
qed (simp add: byte_lower_def)

definition ends_with :: "'a list \<Rightarrow> 'a list \<Rightarrow> bool" where
  "ends_with s suf \<longleftrightarrow> length suf \<le> length s \<and> drop (length s - length suf) s = suf"

definition trim_end_matches :: "'a \<Rightarrow> 'a list \<Rightarrow> 'a list" where
  "trim_end_matches c s = rev (dropWhile ((=) c) (rev s))"

text \<open>\<open>str::split\<close> on one character: always at least one piece.\<close>

fun split_on :: "'a \<Rightarrow> 'a list \<Rightarrow> 'a list list" where
  "split_on c [] = [[]]"
| "split_on c (x # xs) =
     (if x = c then [] # split_on c xs
      else (case split_on c xs of p # ps \<Rightarrow> (x # p) # ps | [] \<Rightarrow> [[x]]))"

lemma split_on_nonempty [simp]: "split_on c xs \<noteq> []"
  by (induction c xs rule: split_on.induct) (auto split: list.splits)

lemma split_on_no_sep: "p \<in> set (split_on c xs) \<Longrightarrow> c \<notin> set p"
  by (induction c xs arbitrary: p rule: split_on.induct)
    (auto split: list.splits if_splits)

text \<open>\<open>str::parse\<close> for an unsigned type with the given number of values: an optional plus sign
  and at least one decimal digit; overflow is an error.\<close>

definition digit_val :: "char \<Rightarrow> nat option" where
  "digit_val c = (let n = of_char c in if 48 \<le> n \<and> n \<le> 57 then Some (n - 48) else None)"

definition parse_unsigned :: "nat \<Rightarrow> string \<Rightarrow> nat option" where
  "parse_unsigned bound s =
     (let ds = (case s of c # cs \<Rightarrow> if c = CHR ''+'' then cs else s | [] \<Rightarrow> []) in
      if ds = [] then None
      else (case collect_opt (map digit_val ds) of
              None \<Rightarrow> None
            | Some vs \<Rightarrow> (let v = fold (\<lambda>d acc. acc * 10 + d) vs 0 in if v < bound then Some v else None)))"

lemma parse_unsigned_less: "parse_unsigned bound s = Some v \<Longrightarrow> v < bound"
  by (auto simp: parse_unsigned_def Let_def split: if_splits option.splits)

section \<open>Keyed stores\<close>

text \<open>
  The contract of the hash maps the program keeps (\<open>DashMap\<close>, \<open>HashMap\<close>): lookup after
  insertion, removal and \<open>retain\<close>, and how many entries there are.
\<close>

locale kv_store =
  fixes get :: "'m \<Rightarrow> 'k \<Rightarrow> 'v option"
    and insert :: "'k \<Rightarrow> 'v \<Rightarrow> 'm \<Rightarrow> 'm"
    and remove :: "'k \<Rightarrow> 'm \<Rightarrow> 'm"
    and retain :: "('k \<Rightarrow> 'v \<Rightarrow> bool) \<Rightarrow> 'm \<Rightarrow> 'm"
    and len :: "'m \<Rightarrow> nat"
    and ok :: "'m \<Rightarrow> bool"
  assumes get_insert: "get (insert k v m) k' = (if k' = k then Some v else get m k')"
    and get_remove: "ok m \<Longrightarrow> get (remove k m) k' = (if k' = k then None else get m k')"
    and get_retain: "ok m \<Longrightarrow> get (retain P m) k' =
          (case get m k' of Some v \<Rightarrow> if P k' v then Some v else None | None \<Rightarrow> None)"
    and len_insert: "ok m \<Longrightarrow> len (insert k v m) = (if get m k = None then Suc (len m) else len m)"
    and len_remove: "ok m \<Longrightarrow> len (remove k m) \<le> len m"
    and len_retain: "ok m \<Longrightarrow> len (retain P m) \<le> len m"
    and ok_insert: "ok m \<Longrightarrow> ok (insert k v m)"
    and ok_remove: "ok m \<Longrightarrow> ok (remove k m)"
    and ok_retain: "ok m \<Longrightarrow> ok (retain P m)"
begin

lemma get_insert_same: "get (insert k v m) k = Some v"
  by (simp add: get_insert)

lemma insert_all:
  "(\<And>k' w. get m k' = Some w \<Longrightarrow> Q k' w) \<Longrightarrow> Q k v \<Longrightarrow> get (insert k v m) k' = Some w \<Longrightarrow> Q k' w"
  by (auto simp: get_insert split: if_splits)

lemma retain_all:
  "ok m \<Longrightarrow> (\<And>k' w. get m k' = Some w \<Longrightarrow> Q k' w) \<Longrightarrow> get (retain P m) k' = Some w \<Longrightarrow> Q k' w \<and> P k' w"
  by (auto simp: get_retain split: option.splits if_splits)

text \<open>A table that refuses new keys at its limit never grows past it.\<close>

lemma guarded_insert_bounded:
  assumes "ok m" and "len m \<le> max_entries"
    and "get m k = None \<Longrightarrow> len m < max_entries"
  shows "len (insert k v m) \<le> max_entries"
  using assms by (auto simp: len_insert)

end

text \<open>The model's maps: association lists without duplicate keys.\<close>

definition dm_get :: "('k \<times> 'v) list \<Rightarrow> 'k \<Rightarrow> 'v option" where
  "dm_get m k = map_of m k"

definition dm_insert :: "'k \<Rightarrow> 'v \<Rightarrow> ('k \<times> 'v) list \<Rightarrow> ('k \<times> 'v) list" where
  "dm_insert k v m = AList.update k v m"

definition dm_remove :: "'k \<Rightarrow> ('k \<times> 'v) list \<Rightarrow> ('k \<times> 'v) list" where
  "dm_remove k m = AList.delete k m"

definition dm_retain :: "('k \<Rightarrow> 'v \<Rightarrow> bool) \<Rightarrow> ('k \<times> 'v) list \<Rightarrow> ('k \<times> 'v) list" where
  "dm_retain P m = filter (\<lambda>(k, v). P k v) m"

definition dm_ok :: "('k \<times> 'v) list \<Rightarrow> bool" where
  "dm_ok m \<longleftrightarrow> distinct (map fst m)"

lemma dm_ok_Nil [simp]: "dm_ok []"
  by (simp add: dm_ok_def)

lemma dm_get_Nil [simp]: "dm_get [] k = None"
  by (simp add: dm_get_def)

lemma length_update:
  "length (AList.update k v m) = (if map_of m k = None then Suc (length m) else length m)"
  by (induction m) auto

lemma map_of_filter_distinct:
  "distinct (map fst m) \<Longrightarrow>
   map_of (filter (\<lambda>(k, v). P k v) m) k =
     (case map_of m k of Some v \<Rightarrow> if P k v then Some v else None | None \<Rightarrow> None)"
proof (induction m)
  case (Cons kv m)
  obtain a b where kv: "kv = (a, b)" by (cases kv)
  from Cons.prems have "map_of m a = None"
    by (auto simp: kv map_of_eq_None_iff)
  with Cons kv show ?case by auto
qed simp

lemma distinct_fst_filter: "distinct (map fst m) \<Longrightarrow> distinct (map fst (filter P m))"
  by (induction m) auto

interpretation dm: kv_store dm_get dm_insert dm_remove dm_retain length dm_ok
proof unfold_locales
  fix m :: "('k \<times> 'v) list" and k k' v and P
  show "dm_get (dm_insert k v m) k' = (if k' = k then Some v else dm_get m k')"
    by (simp add: dm_get_def dm_insert_def update_conv')
  assume ok: "dm_ok m"
  show "dm_get (dm_remove k m) k' = (if k' = k then None else dm_get m k')"
    by (simp add: dm_get_def dm_remove_def delete_conv')
  show "dm_get (dm_retain P m) k' =
      (case dm_get m k' of Some v \<Rightarrow> if P k' v then Some v else None | None \<Rightarrow> None)"
    using ok by (simp add: dm_get_def dm_retain_def dm_ok_def map_of_filter_distinct)
  show "length (dm_insert k v m) = (if dm_get m k = None then Suc (length m) else length m)"
    by (simp add: dm_insert_def dm_get_def length_update)
  show "length (dm_remove k m) \<le> length m"
    by (simp add: dm_remove_def length_delete_le)
  show "length (dm_retain P m) \<le> length m"
    by (simp add: dm_retain_def)
  show "dm_ok (dm_insert k v m)"
    using ok by (simp add: dm_ok_def dm_insert_def distinct_update)
  show "dm_ok (dm_remove k m)"
    using ok by (simp add: dm_ok_def dm_remove_def distinct_delete)
  show "dm_ok (dm_retain P m)"
    using ok by (simp add: dm_ok_def dm_retain_def distinct_fst_filter)
qed

lemmas dm_laws [dm_simps] =
  dm.get_insert dm.get_remove dm.get_retain dm.ok_insert dm.ok_remove dm.ok_retain

section \<open>Transition systems\<close>

text \<open>An invariant that holds initially and that every step keeps holds in every reachable state.\<close>

locale transition_system =
  fixes init :: "'s \<Rightarrow> bool"
    and step :: "'s \<Rightarrow> 's \<Rightarrow> bool"
    and inv :: "'s \<Rightarrow> bool"
  assumes init_inv: "init s \<Longrightarrow> inv s"
    and step_inv: "inv s \<Longrightarrow> step s s' \<Longrightarrow> inv s'"
begin

lemma steps_inv: "step\<^sup>*\<^sup>* s s' \<Longrightarrow> inv s \<Longrightarrow> inv s'"
  by (induction rule: rtranclp_induct) (auto intro: step_inv)

lemma reachable_inv: "init s \<Longrightarrow> step\<^sup>*\<^sup>* s s' \<Longrightarrow> inv s'"
  by (rule steps_inv [OF _ init_inv])

end

end
