(* ===== verification/Dns_Types.thy ===== *)
theory Dns_Types
  imports Prelude
begin

text \<open>
  The data the resolver handles and the third-party functions it calls.

  The message, record and name types come from the \<open>hickory_proto\<close> crate. Its data is read
  and written by the sources through accessors only, so a message, a record, an RRSIG, a
  DNSKEY and so on are records whose fields are these accessors. Its code is not part of the
  repository: every function of it that the sources call (name comparison and printing, the
  wire codec, key tags), the cryptographic primitives of \<open>ring\<close>, \<open>rsa\<close>, \<open>sha1\<close>,
  \<open>sha2\<close> and \<open>ml_dsa\<close>, and Unicode lower-casing, are fields of the parameter record
  \<open>lib\<close>, and the type of names is the type variable \<open>'n\<close>. What a proof relies on is
  a named predicate over that record (\<open>name_laws\<close>, \<open>fresh_message\<close>), shown to hold for
  the label-list instance \<open>lab_lib\<close>, which the witnesses evaluate.

  A record keeps its declared type and its RDATA separately, as the sources test both.
\<close>

section \<open>Addresses\<close>

datatype ip_addr = V4 u32 | V6 u128

definition octet :: "u32 \<Rightarrow> nat \<Rightarrow> u32" where
  "octet a i = drop_bit (24 - 8 * i) a AND 0xFF"

definition segment :: "u128 \<Rightarrow> nat \<Rightarrow> u128" where
  "segment a i = drop_bit (112 - 16 * i) a AND 0xFFFF"

text \<open>\<open>Ipv4Addr::new\<close> and \<open>Ipv6Addr::new\<close> of the standard library.\<close>

definition ipv4_new :: "u32 \<Rightarrow> u32 \<Rightarrow> u32 \<Rightarrow> u32 \<Rightarrow> u32" where
  "ipv4_new a b c d = push_bit 24 a OR push_bit 16 b OR push_bit 8 c OR d"

definition ipv6_new :: "u128 list \<Rightarrow> u128" where
  "ipv6_new segs = fold (\<lambda>s a. push_bit 16 a OR s) segs 0"

definition is_loopback :: "ip_addr \<Rightarrow> bool" where
  "is_loopback ip = (case ip of V4 a \<Rightarrow> octet a 0 = 127 | V6 a \<Rightarrow> a = 1)"

definition to_ipv4_mapped :: "u128 \<Rightarrow> u32 option" where
  "to_ipv4_mapped a = (if drop_bit 32 a = 0xFFFF then Some (ucast a) else None)"

section \<open>Enumerations\<close>

datatype rtype = RT_A | RT_AAAA | RT_ANY | RT_CNAME | RT_DNSKEY | RT_DS | RT_NS | RT_NSEC
  | RT_NSEC3 | RT_OPT | RT_RRSIG | RT_SOA | RT_Other u16 | RT_Unknown u16

datatype dns_class = IN | Class_Other u16

datatype rcode = NoError | NXDomain | ServFail | FormErr | YXDomain | Rcode_Other u16

datatype mtype = MT_Query | MT_Response

datatype opcode = OC_Query | OC_Other u8

datatype algorithm = RSASHA1 | RSASHA1NSEC3SHA1 | RSASHA256 | RSASHA512
  | ECDSAP256SHA256 | ECDSAP384SHA384 | ED25519 | Alg_Unknown u8 | Alg_Other u8

datatype nsec3_hash_alg = N3_SHA1 | N3_Other u8

section \<open>RDATA, records and messages\<close>

record dnskey =
  dk_flags :: u16
  dk_algorithm :: algorithm
  dk_public_bytes :: bytes

record 'n rrsig =
  sig_type_covered :: rtype
  sig_algorithm :: algorithm
  sig_num_labels :: u8
  sig_original_ttl :: u32
  sig_expiration :: u32
  sig_inception :: u32
  sig_key_tag :: u16
  sig_signer_name :: 'n
  sig_sig :: bytes

record ds =
  ds_key_tag :: u16
  ds_algorithm :: algorithm
  ds_digest_type :: u8
  ds_digest :: bytes

record 'n nsec =
  nsec_next :: 'n
  nsec_types :: "rtype list"

record nsec3 =
  n3_hash_algorithm :: nsec3_hash_alg
  n3_flags :: u8
  n3_iterations :: u16
  n3_salt :: bytes
  n3_next_hashed :: bytes
  n3_types :: "rtype list"

record 'n soa =
  soa_mname :: 'n
  soa_rname :: 'n
  soa_serial :: u32
  soa_refresh :: u32
  soa_retry :: u32
  soa_expire :: u32
  soa_minimum :: u32

datatype 'n rdata =
    RD_A u32 | RD_AAAA u128 | RD_CNAME 'n | RD_NS 'n | RD_PTR 'n
  | RD_MX u16 'n | RD_SRV u16 u16 u16 'n | RD_SOA "'n soa"
  | RD_DNSKEY dnskey | RD_RRSIG "'n rrsig" | RD_DS ds | RD_NSEC "'n nsec" | RD_NSEC3 nsec3
  | RD_Other bytes

record 'n rr =
  rr_name :: 'n
  rr_type :: rtype
  rr_class :: dns_class
  rr_ttl :: u32
  rr_data :: "'n rdata"

record 'n query =
  q_name :: 'n
  q_type :: rtype
  q_class :: dns_class

record edns =
  e_max_payload :: u16
  e_dnssec_ok :: bool
  e_version :: u8
  e_subnet :: "(ip_addr \<times> u8) option"

record 'n message =
  m_id :: u16
  m_type :: mtype
  m_opcode :: opcode
  m_aa :: bool
  m_tc :: bool
  m_rd :: bool
  m_ra :: bool
  m_ad :: bool
  m_cd :: bool
  m_rcode :: rcode
  m_queries :: "'n query list"
  m_answers :: "'n rr list"
  m_ns :: "'n rr list"
  m_add :: "'n rr list"
  m_edns :: "edns option"

section \<open>Third-party functions\<close>

datatype rsa_params = RSA_2048_8192_SHA1 | RSA_2048_8192_SHA256 | RSA_2048_8192_SHA512

datatype rsa_hash = RH_Sha1 | RH_Sha256

datatype raw_key_alg = ECDSA_P256_SHA256_FIXED | ECDSA_P384_SHA384_FIXED | Ring_ED25519

record 'n lib =
  n_to_ascii :: "'n \<Rightarrow> string"
  n_to_string :: "'n \<Rightarrow> string"
  n_lower :: "'n \<Rightarrow> 'n"
  n_iter :: "'n \<Rightarrow> bytes list"
  n_base_name :: "'n \<Rightarrow> 'n"
  n_is_root :: "'n \<Rightarrow> bool"
  n_root :: 'n
  n_zone_of :: "'n \<Rightarrow> 'n \<Rightarrow> bool"
  n_num_labels :: "'n \<Rightarrow> u8"
  n_from_str :: "string \<Rightarrow> 'n option"
  n_from_labels :: "bytes list \<Rightarrow> 'n option"
  n_lt :: "'n \<Rightarrow> 'n \<Rightarrow> bool"
  n_eq :: "'n \<Rightarrow> 'n \<Rightarrow> bool"
  str_lowercase :: "string \<Rightarrow> string"
  rt_u16 :: "rtype \<Rightarrow> u16"
  rt_display :: "rtype \<Rightarrow> string"
  class_u16 :: "dns_class \<Rightarrow> u16"
  alg_u8 :: "algorithm \<Rightarrow> u8"
  rdata_type :: "'n rdata \<Rightarrow> rtype"
  rr_eq :: "'n rr \<Rightarrow> 'n rr \<Rightarrow> bool"
  enc_max :: nat
  rdata_emit :: "'n rdata \<Rightarrow> bytes option"
  name_read :: "bytes \<Rightarrow> 'n option"
  name_emit_canon :: "'n \<Rightarrow> bytes option"
  dnskey_emit :: "dnskey \<Rightarrow> bytes option"
  dnskey_calculate_tag :: "dnskey \<Rightarrow> u16 option"
  dnskey_verify :: "dnskey \<Rightarrow> bytes \<Rightarrow> bytes \<Rightarrow> bool"
  msg_new :: "'n message"
  edns_new :: edns
  msg_read :: "bytes \<Rightarrow> 'n message option"
  msg_to_bytes :: "'n message \<Rightarrow> bytes option"
  sha1 :: "bytes \<Rightarrow> bytes"
  sha256 :: "bytes \<Rightarrow> bytes"
  sha384 :: "bytes \<Rightarrow> bytes"
  ring_rsa_verify :: "rsa_params \<Rightarrow> bytes \<Rightarrow> bytes \<Rightarrow> bytes \<Rightarrow> bytes \<Rightarrow> bool"
  rsa_crate_key_ok :: "bytes \<Rightarrow> bytes \<Rightarrow> bool"
  rsa_crate_sig_ok :: "bytes \<Rightarrow> bool"
  rsa_crate_verify :: "rsa_hash \<Rightarrow> bytes \<Rightarrow> bytes \<Rightarrow> bytes \<Rightarrow> bytes \<Rightarrow> bool"
  ring_raw_verify :: "raw_key_alg \<Rightarrow> bytes \<Rightarrow> bytes \<Rightarrow> bytes \<Rightarrow> bool"
  mldsa44_sig_decodes :: "bytes \<Rightarrow> bool"
  mldsa44_verify :: "bytes \<Rightarrow> bytes \<Rightarrow> bytes \<Rightarrow> bool"

text \<open>\<open>Record::from_rdata\<close>: a record of class IN whose type is that of its RDATA.\<close>

definition rr_from_rdata :: "'n lib \<Rightarrow> 'n \<Rightarrow> u32 \<Rightarrow> 'n rdata \<Rightarrow> 'n rr" where
  "rr_from_rdata L n ttl d =
     \<lparr>rr_name = n, rr_type = rdata_type L d, rr_class = IN, rr_ttl = ttl, rr_data = d\<rparr>"

text \<open>\<open>name.iter().filter(|l| !l.is_empty())\<close>: the labels without a root label.\<close>

definition label_list :: "'n lib \<Rightarrow> 'n \<Rightarrow> bytes list" where
  "label_list L n = filter (\<lambda>l. l \<noteq> []) (n_iter L n)"

text \<open>
  What the sources rely on about names: the root has no labels, \<open>base_name\<close> drops the first
  label of any other name and leaves the root alone, \<open>is_root\<close>/\<open>root\<close> agree, and \<open>==\<close> is
  reflexive.
\<close>

definition name_laws :: "'n lib \<Rightarrow> bool" where
  "name_laws L \<longleftrightarrow>
     (\<forall>n. n_is_root L n \<longleftrightarrow> label_list L n = []) \<and>
     (\<forall>n. \<not> n_is_root L n \<longrightarrow> label_list L (n_base_name L n) = tl (label_list L n)) \<and>
     (\<forall>n. n_is_root L n \<longrightarrow> n_eq L (n_base_name L n) n) \<and>
     n_is_root L (n_root L) \<and> (\<forall>n. n_eq L n n)"

text \<open>\<open>Message::new\<close> returns an empty message.\<close>

definition fresh_message :: "'n lib \<Rightarrow> bool" where
  "fresh_message L \<longleftrightarrow> m_queries (msg_new L) = [] \<and> m_answers (msg_new L) = [] \<and>
     m_ns (msg_new L) = [] \<and> m_add (msg_new L) = [] \<and> m_edns (msg_new L) = None"

section \<open>Case-insensitive names and the walk to the root\<close>

text \<open>\<open>name_eq\<close>, the same function in \<open>validator.rs\<close>, \<open>negative.rs\<close>, \<open>chain.rs\<close> and
  \<open>manual_tbs.rs\<close>.\<close>

definition name_eq :: "'n lib \<Rightarrow> 'n \<Rightarrow> 'n \<Rightarrow> bool" where
  "name_eq L a b = eq_ignore_ascii_case (n_to_ascii L a) (n_to_ascii L b)"

lemma name_eq_refl [simp]: "name_eq L a a"
  by (simp add: name_eq_def eq_ignore_ascii_case_def)

lemma name_eq_sym: "name_eq L a b \<Longrightarrow> name_eq L b a"
  by (simp add: name_eq_def eq_ignore_ascii_case_def)

lemma name_eq_trans: "name_eq L a b \<Longrightarrow> name_eq L b c \<Longrightarrow> name_eq L a c"
  by (simp add: name_eq_def eq_ignore_ascii_case_def)

text \<open>\<open>name.to_string().to_lowercase()\<close>, the key of the delegation and DNSSEC caches.\<close>

definition name_key :: "'n lib \<Rightarrow> 'n \<Rightarrow> string" where
  "name_key L n = str_lowercase L (n_to_string L n)"

text \<open>
  The names the loops \<open>loop { ...; if cur.is_root() { break } cur = cur.base_name() }\<close>
  visit, from the name itself up to the root. The fuel is the number of labels, which
  \<open>name_walk_unfold\<close> shows to be enough.
\<close>

fun walk_up :: "'n lib \<Rightarrow> nat \<Rightarrow> 'n \<Rightarrow> 'n list" where
  "walk_up L 0 n = [n]"
| "walk_up L (Suc k) n = (if n_is_root L n then [n] else n # walk_up L k (n_base_name L n))"

definition name_walk :: "'n lib \<Rightarrow> 'n \<Rightarrow> 'n list" where
  "name_walk L n = walk_up L (length (label_list L n)) n"

lemma name_walk_unfold:
  assumes "name_laws L"
  shows "name_walk L n = (if n_is_root L n then [n] else n # name_walk L (n_base_name L n))"
proof (cases "n_is_root L n")
  case True
  with assms show ?thesis by (simp add: name_walk_def name_laws_def)
next
  case False
  with assms obtain l ls where "label_list L n = l # ls"
    by (metis name_laws_def neq_Nil_conv)
  moreover from False assms have "label_list L (n_base_name L n) = tl (label_list L n)"
    by (simp add: name_laws_def)
  ultimately show ?thesis using False by (simp add: name_walk_def)
qed

lemma walk_up_nonempty [simp]: "walk_up L k n \<noteq> []"
  by (cases k) auto

lemma name_walk_nonempty [simp]: "name_walk L n \<noteq> []"
  by (simp add: name_walk_def)

lemma hd_name_walk [simp]: "hd (name_walk L n) = n"
  by (cases "length (label_list L n)") (auto simp: name_walk_def)

lemma length_name_walk_le: "length (name_walk L n) \<le> Suc (length (label_list L n))"
proof -
  have "length (walk_up L k m) \<le> Suc k" for k m
    by (induction k arbitrary: m) auto
  then show ?thesis by (simp add: name_walk_def)
qed

lemma last_name_walk:
  assumes "name_laws L"
  shows "n_is_root L (last (name_walk L n))"
proof (induction "length (label_list L n)" arbitrary: n)
  case 0
  with assms have "n_is_root L n" by (simp add: name_laws_def)
  then show ?case by (subst name_walk_unfold [OF assms]) simp
next
  case (Suc k)
  with assms have nr: "\<not> n_is_root L n" by (auto simp: name_laws_def)
  with assms Suc.hyps(2) have "k = length (label_list L (n_base_name L n))"
    by (simp add: name_laws_def)
  from Suc.hyps(1) [OF this] nr show ?case
    by (subst name_walk_unfold [OF assms]) simp
qed

section \<open>A label-list instance\<close>

text \<open>
  Names as lists of labels, printed with a dot after each label, a wire codec that fails, and
  primitives that accept nothing: the smallest instance of the parameters. The witnesses
  adapt it field by field.
\<close>

definition char_of_byte :: "u8 \<Rightarrow> char" where
  "char_of_byte b = char_of (unat b)"

definition lab_show :: "bytes list \<Rightarrow> string" where
  "lab_show n = (if n = [] then ''.'' else concat (map (\<lambda>l. map char_of_byte l @ ''.'') n))"

definition lab_parse :: "string \<Rightarrow> bytes list" where
  "lab_parse s = map (map (\<lambda>c. of_nat (of_char c))) (filter (\<lambda>p. p \<noteq> []) (split_on (CHR ''.'') s))"

definition lab_zone_of :: "bytes list \<Rightarrow> bytes list \<Rightarrow> bool" where
  "lab_zone_of z n = ends_with (map (map byte_lower) n) (map (map byte_lower) z)"

fun lab_rtype :: "bytes list rdata \<Rightarrow> rtype" where
  "lab_rtype (RD_A _) = RT_A"
| "lab_rtype (RD_AAAA _) = RT_AAAA"
| "lab_rtype (RD_CNAME _) = RT_CNAME"
| "lab_rtype (RD_NS _) = RT_NS"
| "lab_rtype (RD_SOA _) = RT_SOA"
| "lab_rtype (RD_DNSKEY _) = RT_DNSKEY"
| "lab_rtype (RD_RRSIG _) = RT_RRSIG"
| "lab_rtype (RD_DS _) = RT_DS"
| "lab_rtype (RD_NSEC _) = RT_NSEC"
| "lab_rtype (RD_NSEC3 _) = RT_NSEC3"
| "lab_rtype _ = RT_Other 0"

definition empty_msg :: "'n message" where
  "empty_msg = \<lparr>m_id = 0, m_type = MT_Query, m_opcode = OC_Query, m_aa = False, m_tc = False,
     m_rd = False, m_ra = False, m_ad = False, m_cd = False, m_rcode = NoError,
     m_queries = [], m_answers = [], m_ns = [], m_add = [], m_edns = None\<rparr>"

definition lab_lib :: "bytes list lib" where
  "lab_lib = \<lparr>
     n_to_ascii = lab_show, n_to_string = lab_show, n_lower = map (map byte_lower),
     n_iter = (\<lambda>n. n), n_base_name = (\<lambda>n. tl (filter (\<lambda>l. l \<noteq> []) n)),
     n_is_root = (\<lambda>n. filter (\<lambda>l. l \<noteq> []) n = []), n_root = [],
     n_zone_of = lab_zone_of, n_num_labels = (\<lambda>n. of_nat (length n)),
     n_from_str = (\<lambda>s. Some (lab_parse s)), n_from_labels = (\<lambda>ls. Some ls),
     n_lt = (\<lambda>a b. rev a < rev b),
     n_eq = (\<lambda>a b. map (map byte_lower) (filter (\<lambda>l. l \<noteq> []) a) = map (map byte_lower) (filter (\<lambda>l. l \<noteq> []) b)),
     str_lowercase = to_ascii_lowercase,
     rt_u16 = (\<lambda>_. 1), rt_display = (\<lambda>t. if t = RT_A then ''A'' else ''TYPE''),
     class_u16 = (\<lambda>_. 1), alg_u8 = (\<lambda>a. case a of RSASHA256 \<Rightarrow> 8 | ED25519 \<Rightarrow> 15 | _ \<Rightarrow> 0),
     rdata_type = lab_rtype, rr_eq = (=), enc_max = 65535, rdata_emit = (\<lambda>_. Some []), name_read = (\<lambda>_. None),
     name_emit_canon = (\<lambda>_. Some []), dnskey_emit = (\<lambda>_. Some []),
     dnskey_calculate_tag = (\<lambda>_. None), dnskey_verify = (\<lambda>_ _ _. False),
     msg_new = empty_msg,
     edns_new = \<lparr>e_max_payload = 512, e_dnssec_ok = False, e_version = 0, e_subnet = None\<rparr>,
     msg_read = (\<lambda>_. None), msg_to_bytes = (\<lambda>_. None),
     sha1 = (\<lambda>b. b), sha256 = (\<lambda>b. b), sha384 = (\<lambda>b. b),
     ring_rsa_verify = (\<lambda>_ _ _ _ _. False), rsa_crate_key_ok = (\<lambda>_ _. False),
     rsa_crate_sig_ok = (\<lambda>_. False), rsa_crate_verify = (\<lambda>_ _ _ _ _. False),
     ring_raw_verify = (\<lambda>_ _ _ _. False), mldsa44_sig_decodes = (\<lambda>_. False),
     mldsa44_verify = (\<lambda>_ _ _. False)\<rparr>"

lemma lab_label_list: "label_list lab_lib n = filter (\<lambda>l. l \<noteq> []) n"
  by (simp add: label_list_def lab_lib_def)

lemma lab_name_laws: "name_laws lab_lib"
proof -
  have "filter (\<lambda>l. l \<noteq> []) (tl (filter (\<lambda>l. l \<noteq> []) n)) = tl (filter (\<lambda>l. l \<noteq> []) n)"
    for n :: "bytes list"
  proof (rule filter_True, rule ballI)
    fix l assume "l \<in> set (tl (filter (\<lambda>l. l \<noteq> []) n))"
    then have "l \<in> set (filter (\<lambda>l. l \<noteq> []) n)" by (cases "filter (\<lambda>l. l \<noteq> []) n") auto
    then show "l \<noteq> []" by simp
  qed
  then show ?thesis
    by (simp add: name_laws_def lab_label_list) (simp add: lab_lib_def)
qed

lemma lab_fresh_message: "fresh_message lab_lib"
  by (simp add: fresh_message_def lab_lib_def empty_msg_def)

end
