(* ===== verification/Crypto.thy ===== *)
theory Crypto
  imports Dns_Types
begin

text \<open>
  \<open>src/dnssec/crypto.rs\<close> and \<open>src/dnssec/alg7.rs\<close>: the per-validation signature budget, the
  RRSIG validity window in 32-bit serial arithmetic, key tags, DS digests, hexadecimal and RSA
  key decoding, and the dispatch of signature verification over algorithms. The hexadecimal
  encoder of \<open>src/geo/peer.rs\<close> is here too, for the round trip. The loops that try every
  matching key on every signature (in \<open>negative.rs\<close> and twice in \<open>chain.rs\<close>) are
  \<open>try_keys\<close> and \<open>try_sigs\<close>.

  Lemmas: the window test is the plain integer test for times less than 68 years apart; the
  key-tag loop never overflows on a wire-sized key; hex and RSA decoding invert encoding; a
  search spends at most the budget and succeeds only on a verified signature.
\<close>

section \<open>Validation budget\<close>

record validation_budget =
  sig_checks :: nat
  max_sig_checks :: nat

definition PER_VALIDATION_MAX_SIG_CHECKS :: nat where
  "PER_VALIDATION_MAX_SIG_CHECKS = 24"

definition budget_default :: validation_budget where
  "budget_default = \<lparr>sig_checks = 0, max_sig_checks = PER_VALIDATION_MAX_SIG_CHECKS\<rparr>"

definition can_check_sig :: "validation_budget \<Rightarrow> bool \<times> validation_budget" where
  "can_check_sig b =
     (if sig_checks b \<ge> max_sig_checks b then (False, b)
      else (True, b\<lparr>sig_checks := sig_checks b + 1\<rparr>))"

text \<open>How a budget may change: the limit stays, the count grows, and never past the limit.\<close>

definition budget_step :: "validation_budget \<Rightarrow> validation_budget \<Rightarrow> bool" where
  "budget_step b b' \<longleftrightarrow> max_sig_checks b' = max_sig_checks b \<and> sig_checks b \<le> sig_checks b' \<and>
     sig_checks b' \<le> max (sig_checks b) (max_sig_checks b)"

lemma budget_step_refl [simp, intro]: "budget_step b b"
  by (simp add: budget_step_def)

lemma budget_step_trans [trans]: "budget_step a b \<Longrightarrow> budget_step b c \<Longrightarrow> budget_step a c"
  by (auto simp: budget_step_def)

lemma can_check_sig_step: "budget_step b (snd (can_check_sig b))"
  by (auto simp: can_check_sig_def budget_step_def)

section \<open>Validity window and key tags\<close>

definition now32 :: "u64 \<Rightarrow> u32" where
  "now32 now = ucast (now AND 0xFFFFFFFF)"

definition rrsig_time_valid :: "'n rrsig \<Rightarrow> u64 \<Rightarrow> bool" where
  "rrsig_time_valid s now =
     (let e = sig_expiration s; i = sig_inception s; n = now32 now in
      sint (n - i) \<ge> 0 \<and> sint (e - n) \<ge> 0 \<and> sint (e - i) > 0)"

fun key_tag_acc :: "nat \<Rightarrow> u32 \<Rightarrow> bytes \<Rightarrow> u32" where
  "key_tag_acc i ac [] = ac"
| "key_tag_acc i ac (b # bs) =
     key_tag_acc (Suc i) (ac + (if i mod 2 = 0 then push_bit 8 (ucast b) else ucast b)) bs"

definition compute_key_tag :: "'n lib \<Rightarrow> dnskey \<Rightarrow> u16 option" where
  "compute_key_tag L k =
     (case dnskey_calculate_tag L k of
        Some tag \<Rightarrow> Some tag
      | None \<Rightarrow> (case dnskey_emit L k of
          None \<Rightarrow> None
        | Some buf \<Rightarrow>
            (let ac = key_tag_acc 0 0 buf; ac' = ac + (drop_bit 16 ac AND 0xFFFF)
             in Some (ucast (ac' AND 0xFFFF)))))"

definition key_tag_or_max :: "'n lib \<Rightarrow> dnskey \<Rightarrow> u16" where
  "key_tag_or_max L k = (case compute_key_tag L k of Some t \<Rightarrow> t | None \<Rightarrow> - 1)"

definition key_tag_matches :: "'n lib \<Rightarrow> dnskey \<Rightarrow> u16 \<Rightarrow> bool" where
  "key_tag_matches L k tag = (key_tag_or_max L k = tag)"

section \<open>DS digests, hexadecimal\<close>

definition compute_ds_digest :: "'n lib \<Rightarrow> 'n \<Rightarrow> dnskey \<Rightarrow> u8 \<Rightarrow> bytes option" where
  "compute_ds_digest L owner k digest_type =
     (case (name_emit_canon L owner, dnskey_emit L k) of
        (Some a, Some b) \<Rightarrow>
          (let buf = a @ b in
           if digest_type = 1 then Some (sha1 L buf)
           else if digest_type = 2 then Some (sha256 L buf)
           else if digest_type = 4 then Some (sha384 L buf)
           else None)
      | _ \<Rightarrow> None)"

definition hex_digit :: "char \<Rightarrow> nat option" where
  "hex_digit c = (let n = of_char c in
     if 48 \<le> n \<and> n \<le> 57 then Some (n - 48)
     else if 97 \<le> n \<and> n \<le> 102 then Some (n - 87)
     else if 65 \<le> n \<and> n \<le> 70 then Some (n - 55)
     else None)"

text \<open>\<open>u8::from_str_radix\<close> on two characters: a leading plus sign is accepted.\<close>

definition u8_from_hex2 :: "char \<Rightarrow> char \<Rightarrow> u8 option" where
  "u8_from_hex2 a b =
     (if a = CHR ''+'' then map_option of_nat (hex_digit b)
      else (case (hex_digit a, hex_digit b) of
              (Some x, Some y) \<Rightarrow> Some (of_nat (16 * x + y)) | _ \<Rightarrow> None))"

fun hex_pairs :: "string \<Rightarrow> u8 option list" where
  "hex_pairs (a # b # s) = u8_from_hex2 a b # hex_pairs s"
| "hex_pairs _ = []"

definition hex_decode :: "string \<Rightarrow> bytes option" where
  "hex_decode s = (if length s mod 2 \<noteq> 0 then None else collect_opt (hex_pairs s))"

definition hex_char :: "nat \<Rightarrow> char" where
  "hex_char n = ''0123456789abcdef'' ! n"

fun hex_encode :: "bytes \<Rightarrow> string" where
  "hex_encode [] = []"
| "hex_encode (b # bs) = hex_char (unat (drop_bit 4 b)) # hex_char (unat (b AND 15)) # hex_encode bs"

section \<open>RSA keys and signature verification\<close>

definition RING_RSA_MIN_MODULUS_BYTES :: nat where
  "RING_RSA_MIN_MODULUS_BYTES = 256"

definition rsa_split :: "nat \<Rightarrow> bytes \<Rightarrow> (bytes \<times> bytes) option" where
  "rsa_split min_len bs =
     (case bs of
        [] \<Rightarrow> None
      | b0 # t \<Rightarrow>
          (case (if b0 = 0
                 then (case t of b1 # b2 # r \<Rightarrow> Some (unat b1 * 256 + unat b2, r) | _ \<Rightarrow> None)
                 else Some (unat b0, t)) of
             None \<Rightarrow> None
           | Some (exp_len, rest) \<Rightarrow>
               if exp_len = 0 \<or> length rest < exp_len then None
               else (let ex = take exp_len rest; md = drop exp_len rest in
                     if md = [] \<or> length md < min_len \<or> length md > 1024 then None
                     else Some (ex, md))))"

definition parse_rsa_public_key :: "bytes \<Rightarrow> (bytes \<times> bytes) option" where
  "parse_rsa_public_key = rsa_split 64"

definition verify_rsa_via_rsa_crate ::
  "'n lib \<Rightarrow> rsa_hash \<Rightarrow> bytes \<Rightarrow> bytes \<Rightarrow> bytes \<Rightarrow> bytes \<Rightarrow> bool" where
  "verify_rsa_via_rsa_crate L h ex md msg sig =
     (if \<not> rsa_crate_key_ok L md ex then False
      else if \<not> rsa_crate_sig_ok L sig then False
      else rsa_crate_verify L h md ex msg sig)"

definition verify_mldsa44 :: "'n lib \<Rightarrow> bytes \<Rightarrow> bytes \<Rightarrow> bytes \<Rightarrow> bool" where
  "verify_mldsa44 L pk msg sig =
     (if length pk \<noteq> 1312 then False
      else if length sig \<noteq> 2420 then False
      else if \<not> mldsa44_sig_decodes L sig then False
      else mldsa44_verify L pk msg sig)"

definition verify_rsa_sha1 :: "'n lib \<Rightarrow> bytes \<Rightarrow> bytes \<Rightarrow> bytes \<Rightarrow> bool" where
  "verify_rsa_sha1 L pk msg sig =
     (case parse_rsa_public_key pk of
        None \<Rightarrow> False
      | Some (ex, md) \<Rightarrow>
          if length md \<ge> RING_RSA_MIN_MODULUS_BYTES \<and> ring_rsa_verify L RSA_2048_8192_SHA1 md ex msg sig
          then True
          else verify_rsa_via_rsa_crate L RH_Sha1 ex md msg sig)"

definition verify_rsa_sha2 :: "'n lib \<Rightarrow> algorithm \<Rightarrow> bytes \<Rightarrow> bytes \<Rightarrow> bytes \<Rightarrow> bool" where
  "verify_rsa_sha2 L alg pk msg sig =
     (case parse_rsa_public_key pk of
        None \<Rightarrow> False
      | Some (ex, md) \<Rightarrow>
          (let verify_alg = (if alg = RSASHA256 then RSA_2048_8192_SHA256 else RSA_2048_8192_SHA512) in
           if ring_rsa_verify L verify_alg md ex msg sig then True
           else if length md < RING_RSA_MIN_MODULUS_BYTES \<and> alg = RSASHA256
           then verify_rsa_via_rsa_crate L RH_Sha256 ex md msg sig
           else False))"

fun verify_signature :: "'n lib \<Rightarrow> algorithm \<Rightarrow> bytes \<Rightarrow> bytes \<Rightarrow> bytes \<Rightarrow> bool" where
  "verify_signature L RSASHA1 pk msg sig = verify_rsa_sha1 L pk msg sig"
| "verify_signature L RSASHA1NSEC3SHA1 pk msg sig = verify_rsa_sha1 L pk msg sig"
| "verify_signature L RSASHA256 pk msg sig = verify_rsa_sha2 L RSASHA256 pk msg sig"
| "verify_signature L RSASHA512 pk msg sig = verify_rsa_sha2 L RSASHA512 pk msg sig"
| "verify_signature L ECDSAP256SHA256 pk msg sig =
     ring_raw_verify L ECDSA_P256_SHA256_FIXED (4 # pk) msg sig"
| "verify_signature L ECDSAP384SHA384 pk msg sig =
     ring_raw_verify L ECDSA_P384_SHA384_FIXED (4 # pk) msg sig"
| "verify_signature L ED25519 pk msg sig = ring_raw_verify L Ring_ED25519 pk msg sig"
| "verify_signature L (Alg_Unknown a) pk msg sig = (if a = 18 then verify_mldsa44 L pk msg sig else False)"
| "verify_signature L (Alg_Other _) pk msg sig = False"

text \<open>\<open>src/dnssec/alg7.rs\<close>: the stand-alone verifier, with its own modulus floor of 128 bytes.\<close>

definition parse_rsa_public_key_alg7 :: "bytes \<Rightarrow> (bytes \<times> bytes) option" where
  "parse_rsa_public_key_alg7 = rsa_split 128"

definition verify_alg7_rrsig :: "'n lib \<Rightarrow> dnskey \<Rightarrow> bytes \<Rightarrow> bytes \<Rightarrow> bool" where
  "verify_alg7_rrsig L k tbs sig =
     (let a = alg_u8 L (dk_algorithm k) in
      if a \<noteq> 7 \<and> a \<noteq> 5 then False
      else (case parse_rsa_public_key_alg7 (dk_public_bytes k) of
              None \<Rightarrow> False
            | Some (ex, md) \<Rightarrow> ring_rsa_verify L RSA_2048_8192_SHA1 md ex tbs sig))"

section \<open>Trying keys on signatures within a budget\<close>

datatype search = Found | Exhausted | Not_Found

fun try_keys ::
  "'n lib \<Rightarrow> (dnskey \<Rightarrow> bool) \<Rightarrow> u16 \<Rightarrow> dnskey list \<Rightarrow> validation_budget \<Rightarrow> search \<times> validation_budget" where
  "try_keys L verify tag [] b = (Not_Found, b)"
| "try_keys L verify tag (k # ks) b =
     (if key_tag_matches L k tag
      then (case can_check_sig b of
              (False, b') \<Rightarrow> (Exhausted, b')
            | (True, b') \<Rightarrow> if verify k then (Found, b') else try_keys L verify tag ks b')
      else try_keys L verify tag ks b)"

fun try_sigs ::
  "'n lib \<Rightarrow> ('n rrsig \<Rightarrow> dnskey \<Rightarrow> 'n rr \<Rightarrow> bool) \<Rightarrow> rtype \<Rightarrow> dnskey list \<Rightarrow> 'n rr list \<Rightarrow>
   validation_budget \<Rightarrow> search \<times> validation_budget" where
  "try_sigs L verify rtype keys [] b = (Not_Found, b)"
| "try_sigs L verify rtype keys (r # rs) b =
     (case rr_data r of
        RD_RRSIG sig \<Rightarrow>
          if sig_type_covered sig = rtype
          then (case try_keys L (\<lambda>k. verify sig k r) (sig_key_tag sig) keys b of
                  (Not_Found, b') \<Rightarrow> try_sigs L verify rtype keys rs b'
                | res \<Rightarrow> res)
          else try_sigs L verify rtype keys rs b
      | _ \<Rightarrow> try_sigs L verify rtype keys rs b)"

lemma can_check_sig_stepD: "can_check_sig b = (ok, b') \<Longrightarrow> budget_step b b'"
  using can_check_sig_step [of b] by simp

lemma try_keys_step: "try_keys L v tag ks b = (res, b') \<Longrightarrow> budget_step b b'"
  by (induction ks arbitrary: b)
    (auto split: if_splits prod.splits bool.splits dest: can_check_sig_stepD intro: budget_step_trans)

text \<open>
  The count is the number of verifications: a search that charged \<open>n\<close> checks looked at the verdicts of
  the first \<open>n\<close> keys with the right tag and at no others.
\<close>

lemma try_keys_local:
  assumes "\<forall>k \<in> set (take (sig_checks (snd (try_keys L v tag ks b)) - sig_checks b) (filter (\<lambda>k. key_tag_matches L k tag) ks)). v' k = v k"
  shows "try_keys L v' tag ks b = try_keys L v tag ks b"
  using assms
proof (induction ks arbitrary: b)
  case (Cons k ks)
  show ?case
  proof (cases "key_tag_matches L k tag \<and> sig_checks b < max_sig_checks b")
    case True
    let ?b = "b\<lparr>sig_checks := sig_checks b + 1\<rparr>"
    have c: "can_check_sig b = (True, ?b)" using True by (simp add: can_check_sig_def)
    have "sig_checks ?b \<le> sig_checks (snd (try_keys L v tag ks ?b))"
      using try_keys_step [of L v tag ks ?b] by (metis budget_step_def prod.collapse)
    then have d: "sig_checks (snd (try_keys L v tag ks ?b)) - sig_checks b =
        Suc (sig_checks (snd (try_keys L v tag ks ?b)) - sig_checks ?b)" by simp
    show ?thesis
    proof (cases "v k")
      case v: True
      with Cons.prems True c have "v' k" by simp
      with v True c show ?thesis by simp
    next
      case v: False
      have prems: "\<forall>k \<in> set (take (Suc (sig_checks (snd (try_keys L v tag ks ?b)) - sig_checks ?b)) (filter (\<lambda>k. key_tag_matches L k tag) (k # ks))). v' k = v k"
        using Cons.prems v True c by (simp only: try_keys.simps d if_True prod.case bool.case if_False)
      then have "\<not> v' k" and "try_keys L v' tag ks ?b = try_keys L v tag ks ?b"
        using Cons.IH [of ?b] v True by simp_all
      with v True c show ?thesis by simp
    qed
  next
    case False
    with Cons show ?thesis by (auto simp: can_check_sig_def)
  qed
qed simp

lemma try_sigs_step: "try_sigs L v t ks rs b = (res, b') \<Longrightarrow> budget_step b b'"
proof (induction rs arbitrary: b)
  case (Cons r rs)
  then show ?case
    by (auto split: rdata.splits if_splits prod.splits search.splits
        dest: try_keys_step intro: budget_step_trans)
qed simp

lemma try_keys_Found:
  "try_keys L v tag ks b = (Found, b') \<Longrightarrow> \<exists>k \<in> set ks. key_tag_matches L k tag \<and> v k"
  by (induction ks arbitrary: b) (auto split: if_splits prod.splits bool.splits)

lemma try_sigs_Found:
  "try_sigs L v t ks rs b = (Found, b') \<Longrightarrow>
   \<exists>r \<in> set rs. \<exists>sig. rr_data r = RD_RRSIG sig \<and> sig_type_covered sig = t \<and>
     (\<exists>k \<in> set ks. key_tag_matches L k (sig_key_tag sig) \<and> v sig k r)"
proof (induction rs arbitrary: b)
  case (Cons r rs)
  show ?case
  proof (cases "\<exists>sig. rr_data r = RD_RRSIG sig \<and> sig_type_covered sig = t")
    case True
    then obtain sig where s: "rr_data r = RD_RRSIG sig" "sig_type_covered sig = t" by blast
    show ?thesis
    proof (cases "try_keys L (\<lambda>k. v sig k r) (sig_key_tag sig) ks b")
      case (Pair res b1)
      with s Cons show ?thesis
        by (cases res) (auto dest: try_keys_Found)
    qed
  next
    case False
    with Cons have "try_sigs L v t ks rs b = (Found, b')"
      by (auto split: rdata.splits if_splits)
    with Cons.IH show ?thesis by fastforce
  qed
qed simp

section \<open>The validity window is the integer window\<close>

lemma sint_of_int_small:
  assumes "\<bar>x\<bar> < 2 ^ 31"
  shows "sint (word_of_int x :: u32) = x"
proof -
  have "sint (word_of_int x :: u32) = signed_take_bit 31 x"
    by (simp add: sint_sbintrunc')
  also have "\<dots> = x"
    using assms by (simp add: signed_take_bit_int_eq_self)
  finally show ?thesis .
qed

lemma now32_of_int: "now32 (word_of_int n) = word_of_int n"
  unfolding now32_def and_low_bits by (rule bit_word_eqI) (simp add: bit_simps)

text \<open>
  C20. Serial arithmetic is sound: for an inception, an expiration and a current time that are
  pairwise less than \<open>2^31\<close> seconds apart, the wrapping 32-bit test accepts the signature
  exactly when the current time lies in the window and the window is not empty.
\<close>

theorem rrsig_time_valid_window:
  assumes "sig_inception s = word_of_int i" and "sig_expiration s = word_of_int e"
    and "\<bar>n - i\<bar> < 2 ^ 31" and "\<bar>e - n\<bar> < 2 ^ 31" and "\<bar>e - i\<bar> < 2 ^ 31"
  shows "rrsig_time_valid s (word_of_int n) \<longleftrightarrow> i \<le> n \<and> n \<le> e \<and> i < e"
proof -
  have "word_of_int n - word_of_int i = (word_of_int (n - i) :: u32)"
    and "word_of_int e - word_of_int n = (word_of_int (e - n) :: u32)"
    and "word_of_int e - word_of_int i = (word_of_int (e - i) :: u32)"
    by simp_all
  then show ?thesis
    using assms by (simp only: rrsig_time_valid_def Let_def now32_of_int sint_of_int_small) auto
qed

definition rrsig_example :: "bytes list rrsig" where
  "rrsig_example = \<lparr>sig_type_covered = RT_A, sig_algorithm = ED25519, sig_num_labels = 1,
     sig_original_ttl = 300, sig_expiration = 1300, sig_inception = 4294967000, sig_key_tag = 7,
     sig_signer_name = [], sig_sig = []\<rparr>"

theorem rrsig_time_valid_window_witness:
  "rrsig_time_valid rrsig_example (word_of_int 4294968000) \<and> sig_inception rrsig_example = word_of_int 4294967000 \<and>
   sig_expiration rrsig_example = word_of_int (4294967296 + 1300)"
proof -
  have i: "sig_inception rrsig_example = word_of_int 4294967000"
    and e: "sig_expiration rrsig_example = word_of_int (4294967296 + 1300)"
    by (simp_all add: rrsig_example_def)
  have "rrsig_time_valid rrsig_example (word_of_int 4294968000)"
    using rrsig_time_valid_window [OF i e, of 4294968000] by simp
  with i e show ?thesis by simp
qed

section \<open>The key tag of RFC 4034\<close>

fun tag_sum :: "nat \<Rightarrow> bytes \<Rightarrow> nat" where
  "tag_sum i [] = 0"
| "tag_sum i (b # bs) = (if i mod 2 = 0 then 256 * unat b else unat b) + tag_sum (Suc i) bs"

definition key_tag_spec :: "bytes \<Rightarrow> nat" where
  "key_tag_spec buf = (let s = tag_sum 0 buf in (s + s div 65536 mod 65536) mod 65536)"

lemma tag_sum_bound: "tag_sum i bs \<le> 65280 * length bs"
proof (induction bs arbitrary: i)
  case (Cons b bs)
  have "unat b \<le> 255" using unat_u8_less [of b] by simp
  then have "(if i mod 2 = 0 then 256 * unat b else unat b) \<le> 65280" by simp
  with Cons.IH [of "Suc i"] show ?case by simp
qed simp

lemma unat_byte_term:
  "unat (if P then push_bit 8 (ucast b) else ucast b :: u32) = (if P then 256 * unat b else unat (b :: u8))"
proof -
  have "unat b * 256 < 2 ^ 32" using unat_u8_less [of b] by simp
  then have "unat (push_bit 8 (ucast b) :: u32) = 256 * unat b"
    by (simp add: push_bit_eq_mult unat_word_ariths unat_ucast_u8 mult.commute)
  then show ?thesis by (simp add: unat_ucast_u8)
qed

lemma key_tag_acc_exact:
  "unat ac + tag_sum i bs < 2 ^ 32 \<Longrightarrow> unat (key_tag_acc i ac bs) = unat ac + tag_sum i bs"
proof (induction bs arbitrary: i ac)
  case (Cons b bs)
  let ?t = "if i mod 2 = 0 then push_bit 8 (ucast b) else ucast b :: u32"
  have t: "unat ?t = (if i mod 2 = 0 then 256 * unat b else unat b)"
    by (rule unat_byte_term)
  with Cons.prems have "unat (ac + ?t) = unat ac + unat ?t"
    by (simp add: unat_word_ariths)
  with Cons.IH [of "ac + ?t" "Suc i"] Cons.prems t show ?case
    by (simp del: if_split)
qed simp


text \<open>
  On any key whose wire form has at most 65535 bytes, the accumulator loop of
  \<open>compute_key_tag\<close> computes the key tag of RFC 4034 Appendix B: no addition on the
  32-bit accumulator wraps.
\<close>

lemma compute_key_tag_rfc4034:
  assumes "dnskey_calculate_tag L k = None" and "dnskey_emit L k = Some buf"
    and "length buf \<le> 65535"
  shows "\<exists>t. compute_key_tag L k = Some t \<and> unat t = key_tag_spec buf"
proof -
  let ?s = "tag_sum 0 buf" and ?ac = "key_tag_acc 0 0 buf"
  have "?s \<le> 65280 * 65535" using tag_sum_bound [of 0 buf] assms(3) by linarith
  then have ac: "unat ?ac = ?s" by (simp add: key_tag_acc_exact)
  let ?c = "drop_bit 16 ?ac AND 0xFFFF"
  have c: "unat ?c = ?s div 65536 mod 65536"
    by (simp only: and_low_bits unat_take_bit unat_drop_bit ac) simp
  have "unat (?ac + ?c) = ?s + ?s div 65536 mod 65536"
  proof -
    have "?s div 65536 mod 65536 < 65536" by simp
    with \<open>?s \<le> 65280 * 65535\<close> have lt: "?s + ?s div 65536 mod 65536 < 2 ^ LENGTH(32)"
      by simp
    show ?thesis by (simp only: unat_word_ariths ac c mod_less [OF lt])
  qed
  then have "unat ((?ac + ?c) AND 0xFFFF) = key_tag_spec buf"
    by (simp only: and_low_bits unat_take_bit key_tag_spec_def Let_def) simp
  moreover have "key_tag_spec buf < 65536" by (simp add: key_tag_spec_def Let_def)
  ultimately have "unat (ucast ((?ac + ?c) AND 0xFFFF) :: u16) = key_tag_spec buf"
    by (simp add: unsigned_ucast_eq take_bit_nat_eq_self)
  with assms show ?thesis by (simp add: compute_key_tag_def Let_def)
qed

section \<open>Hexadecimal round trip\<close>

lemma hex_digit_hex_char: "n < 16 \<Longrightarrow> hex_digit (hex_char n) = Some n \<and> hex_char n \<noteq> CHR ''+''"
proof -
  assume "n < 16"
  then have "n \<in> set [0..<16]" by simp
  moreover have "\<forall>n \<in> set [0..<16]. hex_digit (hex_char n) = Some n \<and> hex_char n \<noteq> CHR ''+''"
    by code_simp
  ultimately show ?thesis by blast
qed

lemma nibbles:
  "unat (drop_bit 4 (b :: u8)) < 16"
  "unat (b AND 15) < 16"
  "16 * unat (drop_bit 4 b) + unat (b AND 15) = unat b"
proof -
  have hi: "unat (drop_bit 4 b) = unat b div 16" by (simp add: unat_drop_bit)
  have lo: "unat (b AND 15) = unat b mod 16" by (simp add: and_low_bits unat_take_bit)
  show "unat (drop_bit 4 b) < 16" using unat_u8_less [of b] hi by simp
  show "unat (b AND 15) < 16" using lo by simp
  show "16 * unat (drop_bit 4 b) + unat (b AND 15) = unat b"
    by (simp add: hi lo)
qed

text \<open>
  Decoding the hexadecimal text that \<open>hex_encode\<close> produces gives the bytes back, so a
  peer's HMAC signature survives the trip through the request header.
\<close>

lemma hex_decode_encode: "hex_decode (hex_encode bs) = Some bs"
proof -
  have "length (hex_encode bs) = 2 * length bs" by (induction bs) auto
  moreover have "hex_pairs (hex_encode bs) = map Some bs"
  proof (induction bs)
    case (Cons b bs)
    have "u8_from_hex2 (hex_char (unat (drop_bit 4 b))) (hex_char (unat (b AND 15))) = Some b"
      using nibbles(3) [of b]
      by (simp only: u8_from_hex2_def hex_digit_hex_char nibbles(1,2) if_False option.case prod.case
          of_nat_unat ucast_id)
    with Cons show ?case by simp
  qed simp
  ultimately show ?thesis
    by (simp add: hex_decode_def collect_opt_Some_iff)
qed

section \<open>RSA public keys\<close>

text \<open>The encoding of RFC 3110: the exponent's length in one or three bytes, the exponent, the
  modulus.\<close>

definition rsa_encode :: "bytes \<Rightarrow> bytes \<Rightarrow> bytes" where
  "rsa_encode ex md =
     (if length ex < 256 then of_nat (length ex) # ex @ md
      else 0 # of_nat (length ex div 256) # of_nat (length ex mod 256) # ex @ md)"

text \<open>
  RSA key parsing inverts the RFC 3110 encoding for every exponent of 1 to 65535 bytes and
  every modulus of 64 to 1024 bytes, in both the short and the long form of the length.
\<close>

lemma parse_rsa_roundtrip:
  assumes "ex \<noteq> []" and "length ex < 65536" and "64 \<le> length md" and "length md \<le> 1024"
  shows "parse_rsa_public_key (rsa_encode ex md) = Some (ex, md)"
proof -
  have md: "md \<noteq> []" using assms(3) by auto
  show ?thesis
  proof (cases "length ex < 256")
    case True
    then have "unat (of_nat (length ex) :: u8) = length ex" by (simp add: unat_of_nat_less)
    moreover from this have "(of_nat (length ex) :: u8) \<noteq> 0"
      using assms(1) by (metis length_0_conv unat_0)
    ultimately show ?thesis using True assms md
      by (simp add: parse_rsa_public_key_def rsa_split_def rsa_encode_def Let_def)
  next
    case False
    from assms(2) have "length ex div 256 < 256" by (simp add: div_less_iff_less_mult)
    with False show ?thesis using assms md
      by (simp add: parse_rsa_public_key_def rsa_split_def rsa_encode_def Let_def unat_of_nat_less)
  qed
qed

end
