(* ===== verification/Manual_Tbs.thy ===== *)
theory Manual_Tbs
  imports Crypto
begin

text \<open>
  \<open>src/dnssec/manual_tbs.rs\<close>: the canonical "to be signed" octets of an RRset
  (RFC 4034, 3.1.8.1 and 6.2). The encoder of \<open>hickory_proto\<close> refuses to grow past its
  capacity \<open>enc_max\<close>; every emission of the source appends bytes to it, so a construction
  succeeds exactly when the finished buffer fits.

  Lemmas: the octets depend on the multiset of records only, not on the order in which the
  server listed them; they do not depend on the letter case of the names involved.
\<close>

definition be16 :: "u16 \<Rightarrow> bytes" where
  "be16 w = [ucast (drop_bit 8 w), ucast w]"

definition be32 :: "u32 \<Rightarrow> bytes" where
  "be32 w = [ucast (drop_bit 24 w), ucast (drop_bit 16 w), ucast (drop_bit 8 w), ucast w]"

definition fits :: "'n lib \<Rightarrow> bytes \<Rightarrow> bytes option" where
  "fits L buf = (if length buf \<le> enc_max L then Some buf else None)"

fun emit_labels :: "bytes list \<Rightarrow> bytes option" where
  "emit_labels [] = Some [0]"
| "emit_labels (l # ls) =
     (if l = [] then emit_labels ls
      else if length l > 63 then None
      else map_option (\<lambda>rest. of_nat (length l) # map byte_lower l @ rest) (emit_labels ls))"

definition emit_name_canonical :: "'n lib \<Rightarrow> 'n \<Rightarrow> bytes option" where
  "emit_name_canonical L n = emit_labels (n_iter L n)"

fun canonical_rdata :: "'n lib \<Rightarrow> 'n rdata \<Rightarrow> bytes option" where
  "canonical_rdata L (RD_SOA soa) =
     (case (emit_name_canonical L (soa_mname soa), emit_name_canonical L (soa_rname soa)) of
        (Some m, Some r) \<Rightarrow>
          fits L (m @ r @ be32 (soa_serial soa) @ be32 (soa_refresh soa) @ be32 (soa_retry soa) @
                  be32 (soa_expire soa) @ be32 (soa_minimum soa))
      | _ \<Rightarrow> None)"
| "canonical_rdata L (RD_CNAME n) = Option.bind (emit_name_canonical L n) (fits L)"
| "canonical_rdata L (RD_NS n) = Option.bind (emit_name_canonical L n) (fits L)"
| "canonical_rdata L (RD_PTR n) = Option.bind (emit_name_canonical L n) (fits L)"
| "canonical_rdata L (RD_MX pref n) =
     Option.bind (emit_name_canonical L n) (\<lambda>b. fits L (be16 pref @ b))"
| "canonical_rdata L (RD_SRV prio weight port n) =
     Option.bind (emit_name_canonical L n) (\<lambda>b. fits L (be16 prio @ be16 weight @ be16 port @ b))"
| "canonical_rdata L d = rdata_emit L d"

definition reconstruct_wildcard_name :: "'n lib \<Rightarrow> 'n \<Rightarrow> u8 \<Rightarrow> 'n option" where
  "reconstruct_wildcard_name L owner num_labels =
     (let labels = label_list L owner; owner_label_count = length labels in
      if unat num_labels \<ge> owner_label_count then Some owner
      else (let tail = drop (owner_label_count - unat num_labels) labels in
            if \<exists>l \<in> set tail. length l > 63 then None
            else n_from_labels L ([42] # tail)))"

definition owner_label_count_u8 :: "'n lib \<Rightarrow> 'n \<Rightarrow> u8" where
  "owner_label_count_u8 L n = of_nat (length (label_list L n))"

text \<open>The records of the RRset that the RRSIG covers, with their canonical RDATA.\<close>

definition tbs_sortable :: "'n lib \<Rightarrow> 'n rr \<Rightarrow> 'n rrsig \<Rightarrow> 'n rr list \<Rightarrow> (bytes \<times> 'n rr) list option" where
  "tbs_sortable L rec s records =
     collect_opt (map (\<lambda>r. map_option (\<lambda>b. (b, r)) (canonical_rdata L (rr_data r)))
       (filter (\<lambda>r. name_eq L (rr_name r) (rr_name rec) \<and> rr_type r = sig_type_covered s \<and>
                    rr_class r = rr_class rec) records))"

definition tbs_rrsig_prefix :: "'n lib \<Rightarrow> 'n rrsig \<Rightarrow> bytes option" where
  "tbs_rrsig_prefix L s =
     map_option (\<lambda>signer.
       be16 (rt_u16 L (sig_type_covered s)) @ [alg_u8 L (sig_algorithm s)] @ [sig_num_labels s] @
       be32 (sig_original_ttl s) @ be32 (sig_expiration s) @ be32 (sig_inception s) @
       be16 (sig_key_tag s) @ signer)
     (emit_name_canonical L (sig_signer_name s))"

definition tbs_record :: "'n lib \<Rightarrow> 'n rr \<Rightarrow> 'n rrsig \<Rightarrow> 'n \<Rightarrow> 'n rr \<Rightarrow> bytes option" where
  "tbs_record L rec s canonical_owner r =
     (case (emit_name_canonical L canonical_owner, canonical_rdata L (rr_data r)) of
        (Some own, Some rdata) \<Rightarrow>
          if length rdata \<le> 65535
          then Some (own @ be16 (rt_u16 L (sig_type_covered s)) @ be16 (class_u16 L (rr_class rec)) @
                     be32 (sig_original_ttl s) @ be16 (of_nat (length rdata)) @ rdata)
          else None
      | _ \<Rightarrow> None)"

definition tbs_encode :: "'n lib \<Rightarrow> 'n rr \<Rightarrow> 'n rrsig \<Rightarrow> 'n \<Rightarrow> 'n rr list \<Rightarrow> bytes option" where
  "tbs_encode L rec s canonical_owner rrset =
     (case (tbs_rrsig_prefix L s, collect_opt (map (tbs_record L rec s canonical_owner) rrset)) of
        (Some pre, Some rs) \<Rightarrow> fits L (pre @ concat rs)
      | _ \<Rightarrow> None)"

definition build_tbs_manual :: "'n lib \<Rightarrow> 'n rr \<Rightarrow> 'n rr list \<Rightarrow> bytes option" where
  "build_tbs_manual L rec records =
     (case rr_data rec of
        RD_RRSIG s \<Rightarrow>
          if records = [] then None
          else if sig_num_labels s > owner_label_count_u8 L (rr_name rec) then None
          else (case reconstruct_wildcard_name L (rr_name rec) (sig_num_labels s) of
            None \<Rightarrow> None
          | Some canonical_owner \<Rightarrow>
              (case tbs_sortable L rec s records of
                 None \<Rightarrow> None
               | Some sortable \<Rightarrow>
                   if sortable = [] then None
                   else tbs_encode L rec s canonical_owner (map snd (sort_key fst sortable))))
      | _ \<Rightarrow> None)"

section \<open>Order and case independence\<close>

lemma map_fst_sort_key: "map fst (sort_key fst xs) = sort (map fst xs)"
  by (rule properties_for_sort [symmetric]) (simp_all add: sorted_sort_key)

lemma sort_mset_cong: "mset xs = mset ys \<Longrightarrow> sort xs = sort (ys :: 'k::linorder list)"
  by (rule properties_for_sort) simp_all

lemma collect_opt_memD:
  "collect_opt (map f rs) = Some xs \<Longrightarrow> x \<in> set xs \<Longrightarrow> \<exists>r \<in> set rs. f r = Some x"
proof -
  assume "collect_opt (map f rs) = Some xs" and "x \<in> set xs"
  then have "Some x \<in> set (map f rs)" by (simp add: collect_opt_Some_iff)
  then show ?thesis by auto
qed

lemma collect_opt_mset:
  assumes "mset rs = mset rs'"
  shows "map_option mset (collect_opt (map f rs)) = map_option mset (collect_opt (map f rs'))"
proof (cases "collect_opt (map f rs)")
  case None
  then have "None \<in> set (map f rs')"
    using assms by (metis collect_opt_None_iff list.set_map mset_eq_setD)
  then have "collect_opt (map f rs') = None" by (simp only: collect_opt_None_iff)
  with None show ?thesis by simp
next
  case (Some xs)
  then have "None \<notin> set (map f rs')"
    using assms by (metis collect_opt_None_iff list.set_map mset_eq_setD option.distinct(1))
  then obtain ys where ys: "collect_opt (map f rs') = Some ys"
    by (meson collect_opt_None_iff not_None_eq)
  with Some have "image_mset Some (mset xs) = image_mset Some (mset ys)"
    using assms by (metis collect_opt_Some_iff mset_map)
  then have "image_mset the (image_mset Some (mset xs)) = image_mset the (image_mset Some (mset ys))"
    by (rule arg_cong)
  then have "mset xs = mset ys" by (simp add: multiset.map_comp comp_def)
  with Some ys show ?thesis by simp
qed

lemma tbs_sortable_rdata:
  "tbs_sortable L rec s records = Some xs \<Longrightarrow> (b, r) \<in> set xs \<Longrightarrow> canonical_rdata L (rr_data r) = Some b"
  unfolding tbs_sortable_def by (drule (1) collect_opt_memD) auto

text \<open>The octets written for a sorted RRset are a function of the canonical RDATA alone.\<close>

definition tbs_rdata_record :: "'n lib \<Rightarrow> 'n rr \<Rightarrow> 'n rrsig \<Rightarrow> 'n \<Rightarrow> bytes \<Rightarrow> bytes option" where
  "tbs_rdata_record L rec s owner rdata =
     (case emit_name_canonical L owner of
        Some own \<Rightarrow>
          if length rdata \<le> 65535
          then Some (own @ be16 (rt_u16 L (sig_type_covered s)) @ be16 (class_u16 L (rr_class rec)) @
                     be32 (sig_original_ttl s) @ be16 (of_nat (length rdata)) @ rdata)
          else None
      | None \<Rightarrow> None)"

lemma tbs_records_by_rdata:
  assumes "tbs_sortable L rec s records = Some xs"
  shows "map (tbs_record L rec s owner) (map snd (sort_key fst xs)) =
         map (tbs_rdata_record L rec s owner) (sort (map fst xs))"
proof -
  have "tbs_record L rec s owner (snd p) = tbs_rdata_record L rec s owner (fst p)"
    if "p \<in> set xs" for p
    using that tbs_sortable_rdata [OF assms, of "fst p" "snd p"]
    by (simp add: tbs_record_def tbs_rdata_record_def split: option.splits)
  then have "map (\<lambda>p. tbs_record L rec s owner (snd p)) (sort_key fst xs) =
             map (\<lambda>p. tbs_rdata_record L rec s owner (fst p)) (sort_key fst xs)"
    by simp
  then show ?thesis by (simp add: comp_def flip: map_fst_sort_key)
qed

text \<open>
  C19. The octets to be signed do not depend on the order in which a server lists the records of
  an RRset: any two permutations of the input give the same result, failures included.
\<close>

theorem build_tbs_order_independent:
  assumes "mset records = mset records'"
  shows "build_tbs_manual L rec records = build_tbs_manual L rec records'"
proof (cases "rr_data rec")
  case (RD_RRSIG s)
  let ?P = "\<lambda>r. name_eq L (rr_name r) (rr_name rec) \<and> rr_type r = sig_type_covered s \<and> rr_class r = rr_class rec"
  have "mset (filter ?P records) = mset (filter ?P records')" using assms by simp
  then have ms: "map_option mset (tbs_sortable L rec s records) = map_option mset (tbs_sortable L rec s records')"
    unfolding tbs_sortable_def by (rule collect_opt_mset)
  have empty: "records = [] \<longleftrightarrow> records' = []" using assms by auto
  show ?thesis
  proof (cases "tbs_sortable L rec s records")
    case None
    with ms have "tbs_sortable L rec s records' = None" by simp
    with None RD_RRSIG empty show ?thesis by (simp add: build_tbs_manual_def split: option.splits)
  next
    case (Some xs)
    with ms obtain ys where ys: "tbs_sortable L rec s records' = Some ys" and m: "mset xs = mset ys"
      by (cases "tbs_sortable L rec s records'") auto
    have "sort (map fst xs) = sort (map fst ys)"
      by (rule sort_mset_cong) (metis m mset_map)
    then have "tbs_encode L rec s owner (map snd (sort_key fst xs)) =
               tbs_encode L rec s owner (map snd (sort_key fst ys))" for owner
      by (simp only: tbs_encode_def tbs_records_by_rdata [OF Some] tbs_records_by_rdata [OF ys])
    moreover have "xs = [] \<longleftrightarrow> ys = []" using m by auto
    ultimately show ?thesis using Some ys RD_RRSIG empty
      by (simp add: build_tbs_manual_def split: option.split)
  qed
qed (simp_all add: build_tbs_manual_def)

definition a_record_example :: "u32 \<Rightarrow> bytes list rr" where
  "a_record_example a = \<lparr>rr_name = [[119]], rr_type = RT_A, rr_class = IN, rr_ttl = 60, rr_data = RD_A a\<rparr>"

theorem build_tbs_order_independent_witness:
  "build_tbs_manual lab_lib (a_record_example 0\<lparr>rr_type := RT_RRSIG, rr_data := RD_RRSIG rrsig_example\<rparr>)
       [a_record_example 1, a_record_example 2] =
   build_tbs_manual lab_lib (a_record_example 0\<lparr>rr_type := RT_RRSIG, rr_data := RD_RRSIG rrsig_example\<rparr>)
       [a_record_example 2, a_record_example 1]"
  by (rule build_tbs_order_independent) simp

text \<open>
  The octets to be signed are case-insensitive: the canonical wire form of a name depends
  only on its lower-cased labels, so a server that changes letter case (0x20 mixing) does not
  break a signature.
\<close>

lemma emit_name_canonical_case:
  assumes "map (map byte_lower) (n_iter L a) = map (map byte_lower) (n_iter L b)"
  shows "emit_name_canonical L a = emit_name_canonical L b"
proof -
  have fold: "map (map byte_lower) xs = map (map byte_lower) ys \<Longrightarrow> emit_labels xs = emit_labels ys" for xs ys
  proof (induction xs arbitrary: ys)
    case (Cons x xs)
    then obtain y ys' where ys: "ys = y # ys'" by (cases ys) auto
    with Cons.prems have xy: "map byte_lower x = map byte_lower y" by simp
    then have "length x = length y" by (rule map_eq_imp_length_eq)
    moreover have "emit_labels xs = emit_labels ys'"
      by (rule Cons.IH) (use Cons.prems ys in simp)
    moreover from \<open>length x = length y\<close> have "x = [] \<longleftrightarrow> y = []" by auto
    ultimately show ?case by (simp only: ys emit_labels.simps xy)
  qed simp
  show ?thesis unfolding emit_name_canonical_def by (rule fold) (rule assms)
qed

end
