(* ===== verification/Negative.thy ===== *)
theory Negative
  imports Manual_Tbs
begin

text \<open>
  \<open>src/dnssec/negative.rs\<close>, with \<open>verify_rrsig\<close> of \<open>src/dnssec/validator.rs\<close>:
  authenticated denial of existence with NSEC and NSEC3. \<open>validate_negative\<close> itself needs the
  trust chain and is in theory \<open>Validator\<close>.

  The loops of the closest-encloser searches carry the source's own bound of 16 steps as fuel;
  the \<open>while\<close> loop for the next closer name gets one step per label, which
  \<open>next_closer_unfold\<close> shows to be enough.

  Lemmas: base-32 decoding is the radix conversion of RFC 4648 although the accumulator wraps;
  a denial is accepted only on verified records that prove it; what an NSEC and an NSEC3 record
  cover; budgets.
\<close>

datatype dnssec_status = Secure | InsecureUnsigned | InsecureUnknown | Bogus

definition verify_rrsig :: "'n lib \<Rightarrow> u64 \<Rightarrow> 'n rrsig \<Rightarrow> dnskey \<Rightarrow> 'n rr \<Rightarrow> 'n rr list \<Rightarrow> bool" where
  "verify_rrsig L now s k rrsig_record records =
     (if \<not> rrsig_time_valid s now then False
      else if sig_algorithm s \<noteq> dk_algorithm k then False
      else (case build_tbs_manual L rrsig_record records of
              None \<Rightarrow> False
            | Some tbs \<Rightarrow>
                if verify_signature L (sig_algorithm s) (dk_public_bytes k) tbs (sig_sig s) then True
                else if dnskey_verify L k tbs (sig_sig s) then True
                else False))"

definition MAX_NEGATIVE_RECORDS :: nat where "MAX_NEGATIVE_RECORDS = 8"
definition MAX_NSEC3_ITERATIONS :: u16 where "MAX_NSEC3_ITERATIONS = 150"
definition MAX_CLOSEST_ENCLOSER_STEPS :: nat where "MAX_CLOSEST_ENCLOSER_STEPS = 16"

section \<open>Verifying one RRset of the authority section\<close>

fun covers_type :: "rtype \<Rightarrow> 'n rdata \<Rightarrow> bool" where
  "covers_type t (RD_RRSIG s) = (sig_type_covered s = t)"
| "covers_type t _ = False"

definition verify_negative_rrset ::
  "'n lib \<Rightarrow> u64 \<Rightarrow> 'n rr \<Rightarrow> 'n rr list \<Rightarrow> dnskey list \<Rightarrow> validation_budget \<Rightarrow> bool \<times> validation_budget" where
  "verify_negative_rrset L now rec authority keys b =
     (let owner = rr_name rec; rtype = rr_type rec;
          rrsig_records = filter (\<lambda>r. name_eq L (rr_name r) owner \<and> covers_type rtype (rr_data r)) authority
      in if rrsig_records = [] then (False, b)
      else (let full_rrset = filter (\<lambda>r. name_eq L (rr_name r) owner \<and> rr_type r = rtype) authority in
            if full_rrset = [] then (False, b)
            else (case try_sigs L (\<lambda>s k r. verify_rrsig L now s k r full_rrset) rtype keys rrsig_records b of
                    (Found, b') \<Rightarrow> (True, b')
                  | (_, b') \<Rightarrow> (False, b'))))"

fun verify_all_negative ::
  "'n lib \<Rightarrow> u64 \<Rightarrow> 'n rr list \<Rightarrow> 'n rr list \<Rightarrow> dnskey list \<Rightarrow> validation_budget \<Rightarrow> bool \<times> validation_budget" where
  "verify_all_negative L now [] authority keys b = (True, b)"
| "verify_all_negative L now (r # rs) authority keys b =
     (case verify_negative_rrset L now r authority keys b of
        (False, b') \<Rightarrow> (False, b')
      | (True, b') \<Rightarrow> verify_all_negative L now rs authority keys b')"

section \<open>NSEC\<close>

definition wildcard_name :: "'n lib \<Rightarrow> 'n \<Rightarrow> 'n" where
  "wildcard_name L closest =
     (case (if n_is_root L closest then n_from_str L ''*.''
            else n_from_str L (''*.'' @ trim_end_matches (CHR ''.'') (n_to_ascii L closest) @ ''.'')) of
        Some n \<Rightarrow> n | None \<Rightarrow> n_root L)"

definition nsec_covers :: "'n lib \<Rightarrow> 'n \<Rightarrow> 'n \<Rightarrow> 'n \<Rightarrow> bool" where
  "nsec_covers L owner next target =
     (let ol = n_lower L owner; nl = n_lower L next; tl = n_lower L target in
      if n_lt L ol nl then n_lt L ol tl \<and> n_lt L tl nl
      else n_lt L ol tl \<or> n_lt L tl nl)"

fun nsec_of :: "'n rdata \<Rightarrow> 'n nsec option" where
  "nsec_of (RD_NSEC n) = Some n"
| "nsec_of _ = None"

fun nsec_encloser_loop :: "'n lib \<Rightarrow> 'n rr list \<Rightarrow> nat \<Rightarrow> 'n \<Rightarrow> 'n option" where
  "nsec_encloser_loop L recs 0 cur = None"
| "nsec_encloser_loop L recs (Suc k) cur =
     (if \<exists>r \<in> set recs. name_eq L (rr_name r) cur then Some cur
      else if n_is_root L cur then None
      else nsec_encloser_loop L recs k (n_base_name L cur))"

definition find_nsec_closest_encloser :: "'n lib \<Rightarrow> 'n \<Rightarrow> 'n rr list \<Rightarrow> 'n option" where
  "find_nsec_closest_encloser L qname recs =
     nsec_encloser_loop L recs MAX_CLOSEST_ENCLOSER_STEPS
       (if n_is_root L qname then qname else n_base_name L qname)"

text \<open>The NODATA test both record kinds share: what a matching type bitmap says of the query.\<close>

definition nodata_verdict :: "rtype \<Rightarrow> rtype list \<Rightarrow> dnssec_status option" where
  "nodata_verdict qtype types =
     (if qtype = RT_DS \<and> RT_SOA \<in> set types then Some Bogus
      else if qtype \<notin> set types \<and> RT_CNAME \<notin> set types
      then (if qtype = RT_DS \<and> RT_NS \<in> set types then Some InsecureUnsigned else Some Secure)
      else None)"

definition check_nsec_nodata :: "'n lib \<Rightarrow> 'n \<Rightarrow> rtype \<Rightarrow> 'n rr list \<Rightarrow> dnssec_status option" where
  "check_nsec_nodata L qname qtype recs =
     find_map (\<lambda>rec. if name_eq L (rr_name rec) qname
       then (case nsec_of (rr_data rec) of
               Some n \<Rightarrow> nodata_verdict qtype (nsec_types n) | None \<Rightarrow> None)
       else None) recs"

definition nsec_any_covers :: "'n lib \<Rightarrow> 'n rr list \<Rightarrow> 'n \<Rightarrow> bool" where
  "nsec_any_covers L recs target =
     (\<exists>rec \<in> set recs. case nsec_of (rr_data rec) of
        Some n \<Rightarrow> nsec_covers L (rr_name rec) (nsec_next n) target | None \<Rightarrow> False)"

definition check_nsec_wildcard_nodata ::
  "'n lib \<Rightarrow> 'n \<Rightarrow> rtype \<Rightarrow> 'n \<Rightarrow> 'n rr list \<Rightarrow> dnssec_status option" where
  "check_nsec_wildcard_nodata L qname qtype closest recs =
     (case List.find (\<lambda>r. name_eq L (rr_name r) (wildcard_name L closest)) recs of
        None \<Rightarrow> None
      | Some w \<Rightarrow>
          (case nsec_of (rr_data w) of
             None \<Rightarrow> None
           | Some n \<Rightarrow>
               if qtype \<in> set (nsec_types n) \<or> RT_CNAME \<in> set (nsec_types n) then None
               else if nsec_any_covers L recs qname then Some Secure else None))"

definition check_nsec_nxdomain :: "'n lib \<Rightarrow> 'n \<Rightarrow> 'n \<Rightarrow> 'n rr list \<Rightarrow> dnssec_status option" where
  "check_nsec_nxdomain L qname closest recs =
     (if \<not> nsec_any_covers L recs qname then None
      else if \<not> nsec_any_covers L recs (wildcard_name L closest) then None
      else Some Secure)"

text \<open>The part of \<open>validate_nsec\<close> after the signatures have verified.\<close>

definition nsec_decide :: "'n lib \<Rightarrow> 'n \<Rightarrow> rtype \<Rightarrow> 'n rr list \<Rightarrow> dnssec_status" where
  "nsec_decide L qname qtype recs =
     (case check_nsec_nodata L qname qtype recs of
        Some st \<Rightarrow> st
      | None \<Rightarrow>
          (case find_nsec_closest_encloser L qname recs of
             None \<Rightarrow> Bogus
           | Some closest \<Rightarrow>
               (case check_nsec_wildcard_nodata L qname qtype closest recs of
                  Some st \<Rightarrow> st
                | None \<Rightarrow>
                    (case check_nsec_nxdomain L qname closest recs of
                       Some st \<Rightarrow> st
                     | None \<Rightarrow> Bogus))))"

definition validate_nsec ::
  "'n lib \<Rightarrow> u64 \<Rightarrow> dnskey list \<Rightarrow> 'n \<Rightarrow> rtype \<Rightarrow> 'n rr list \<Rightarrow> validation_budget \<Rightarrow>
   dnssec_status \<times> validation_budget" where
  "validate_nsec L now keys qname qtype authority b =
     (let recs = take MAX_NEGATIVE_RECORDS (filter (\<lambda>r. rr_type r = RT_NSEC) authority) in
      if recs = [] then (Bogus, b)
      else (case verify_all_negative L now recs authority keys b of
        (False, b') \<Rightarrow> (Bogus, b')
      | (True, b') \<Rightarrow> (nsec_decide L qname qtype recs, b')))"

section \<open>NSEC3\<close>

definition char_upper :: "char \<Rightarrow> char" where
  "char_upper c = (let n = (of_char c :: nat) in if 97 \<le> n \<and> n \<le> 122 then char_of (n - 32) else c)"

fun position :: "'a \<Rightarrow> 'a list \<Rightarrow> nat option" where
  "position x [] = None"
| "position x (y # ys) = (if x = y then Some 0 else map_option Suc (position x ys))"

definition b32_alphabet :: string where
  "b32_alphabet = ''0123456789ABCDEFGHIJKLMNOPQRSTUV''"

fun b32_loop :: "u64 \<Rightarrow> nat \<Rightarrow> string \<Rightarrow> bytes option" where
  "b32_loop bits bit_count [] = Some []"
| "b32_loop bits bit_count (c # cs) =
     (case position c b32_alphabet of
        None \<Rightarrow> None
      | Some v \<Rightarrow>
          (let bits' = push_bit 5 bits OR of_nat v; n = bit_count + 5 in
           if n \<ge> 8
           then map_option (Cons (ucast (drop_bit (n - 8) bits'))) (b32_loop bits' (n - 8) cs)
           else b32_loop bits' n cs))"

definition base32hex_decode :: "string \<Rightarrow> bytes option" where
  "base32hex_decode s = b32_loop 0 0 (map char_upper s)"

definition nsec3_owner_hash :: "'n lib \<Rightarrow> 'n rr \<Rightarrow> bytes option" where
  "nsec3_owner_hash L rec =
     (let first_label = hd (split_on (CHR ''.'') (trim_end_matches (CHR ''.'') (n_to_string L (rr_name rec)))) in
      case base32hex_decode first_label of
        None \<Rightarrow> None
      | Some h \<Rightarrow> if length h \<noteq> 20 then None else Some h)"

fun nsec3_of :: "'n rdata \<Rightarrow> nsec3 option" where
  "nsec3_of (RD_NSEC3 n) = Some n"
| "nsec3_of _ = None"

definition nsec3_covers :: "'n lib \<Rightarrow> 'n rr \<Rightarrow> bytes \<Rightarrow> bool" where
  "nsec3_covers L rec target_hash =
     (case nsec3_owner_hash L rec of
        None \<Rightarrow> False
      | Some owner_hash \<Rightarrow>
          (case nsec3_of (rr_data rec) of
             None \<Rightarrow> False
           | Some n \<Rightarrow>
               (let next_hash = n3_next_hashed n in
                if owner_hash \<le> next_hash
                then owner_hash \<le> target_hash \<and> target_hash < next_hash
                else owner_hash \<le> target_hash \<or> target_hash < next_hash)))"

fun iter_hash :: "('b \<Rightarrow> 'b) \<Rightarrow> nat \<Rightarrow> 'b \<Rightarrow> 'b" where
  "iter_hash f 0 x = x"
| "iter_hash f (Suc k) x = iter_hash f k (f x)"

definition nsec3_hash :: "'n lib \<Rightarrow> 'n \<Rightarrow> bytes \<Rightarrow> u16 \<Rightarrow> bytes" where
  "nsec3_hash L name salt iterations =
     (let wire = concat (map (\<lambda>l. of_nat (length l) # map byte_lower l) (n_iter L name)) @ [0] @ salt
      in iter_hash (\<lambda>h. sha1 L (h @ salt)) (unat iterations) (sha1 L wire))"

fun nsec3_encloser_loop :: "'n lib \<Rightarrow> 'n rr list \<Rightarrow> bytes \<Rightarrow> u16 \<Rightarrow> nat \<Rightarrow> 'n \<Rightarrow> 'n option" where
  "nsec3_encloser_loop L recs salt iters 0 cur = None"
| "nsec3_encloser_loop L recs salt iters (Suc k) cur =
     (if \<exists>r \<in> set recs. nsec3_owner_hash L r = Some (nsec3_hash L cur salt iters) then Some cur
      else if n_is_root L cur then None
      else nsec3_encloser_loop L recs salt iters k (n_base_name L cur))"

definition find_nsec3_closest_provable_encloser ::
  "'n lib \<Rightarrow> 'n \<Rightarrow> 'n rr list \<Rightarrow> bytes \<Rightarrow> u16 \<Rightarrow> 'n option" where
  "find_nsec3_closest_provable_encloser L qname recs salt iters =
     nsec3_encloser_loop L recs salt iters MAX_CLOSEST_ENCLOSER_STEPS qname"

definition check_nsec3_nodata ::
  "'n lib \<Rightarrow> 'n \<Rightarrow> rtype \<Rightarrow> 'n rr list \<Rightarrow> bytes \<Rightarrow> u16 \<Rightarrow> dnssec_status option" where
  "check_nsec3_nodata L qname qtype recs salt iters =
     find_map (\<lambda>rec. if nsec3_owner_hash L rec = Some (nsec3_hash L qname salt iters)
       then (case nsec3_of (rr_data rec) of
               Some n \<Rightarrow> nodata_verdict qtype (n3_types n) | None \<Rightarrow> None)
       else None) recs"

definition check_nsec3_wildcard_nodata ::
  "'n lib \<Rightarrow> 'n \<Rightarrow> rtype \<Rightarrow> 'n rr list \<Rightarrow> bytes \<Rightarrow> u16 \<Rightarrow> dnssec_status option" where
  "check_nsec3_wildcard_nodata L closest qtype recs salt iters =
     (case List.find (\<lambda>r. nsec3_owner_hash L r =
              Some (nsec3_hash L (wildcard_name L closest) salt iters)) recs of
        None \<Rightarrow> None
      | Some w \<Rightarrow>
          (case nsec3_of (rr_data w) of
             None \<Rightarrow> None
           | Some n \<Rightarrow>
               if qtype \<in> set (n3_types n) \<or> RT_CNAME \<in> set (n3_types n) then None
               else Some Secure))"

text \<open>The \<open>while\<close> loop: climb until the parent is the closest encloser; \<open>None\<close> when the parent
  is the name itself.\<close>

fun next_closer_loop :: "'n lib \<Rightarrow> 'n \<Rightarrow> nat \<Rightarrow> 'n \<Rightarrow> 'n option" where
  "next_closer_loop L closest 0 n = None"
| "next_closer_loop L closest (Suc k) n =
     (let parent = n_base_name L n in
      if n_eq L parent closest then Some n
      else if n_eq L parent n then None
      else next_closer_loop L closest k parent)"

definition next_closer :: "'n lib \<Rightarrow> 'n \<Rightarrow> 'n \<Rightarrow> 'n option" where
  "next_closer L closest n = next_closer_loop L closest (Suc (length (label_list L n))) n"

definition check_nsec3_nxdomain ::
  "'n lib \<Rightarrow> 'n \<Rightarrow> 'n \<Rightarrow> 'n rr list \<Rightarrow> bytes \<Rightarrow> u16 \<Rightarrow> dnssec_status option" where
  "check_nsec3_nxdomain L qname closest recs salt iters =
     (case next_closer L closest qname of
        None \<Rightarrow> Some Bogus
      | Some nc \<Rightarrow>
          (case List.find (\<lambda>r. nsec3_covers L r (nsec3_hash L nc salt iters)) recs of
             None \<Rightarrow> None
           | Some covering \<Rightarrow>
               if (case nsec3_of (rr_data covering) of Some n \<Rightarrow> n3_flags n AND 1 \<noteq> 0 | None \<Rightarrow> False)
               then Some InsecureUnsigned
               else if \<not> (\<exists>r \<in> set recs. nsec3_covers L r (nsec3_hash L (wildcard_name L closest) salt iters))
               then Some Bogus
               else Some Secure))"

definition nsec3_params_match :: "nsec3 \<Rightarrow> 'n rr \<Rightarrow> bool" where
  "nsec3_params_match first rec =
     (case nsec3_of (rr_data rec) of
        Some n \<Rightarrow> n3_hash_algorithm n = n3_hash_algorithm first \<and> n3_iterations n = n3_iterations first \<and>
                  n3_salt n = n3_salt first
      | None \<Rightarrow> False)"

text \<open>The part of \<open>validate_nsec3\<close> after the signatures have verified.\<close>

definition nsec3_decide ::
  "'n lib \<Rightarrow> 'n \<Rightarrow> rtype \<Rightarrow> 'n rr list \<Rightarrow> bytes \<Rightarrow> u16 \<Rightarrow> dnssec_status" where
  "nsec3_decide L qname qtype recs salt iters =
     (case check_nsec3_nodata L qname qtype recs salt iters of
        Some st \<Rightarrow> st
      | None \<Rightarrow>
          (case (case find_nsec3_closest_provable_encloser L qname recs salt iters of
                   None \<Rightarrow> if qtype = RT_DS then Some (n_base_name L qname) else None
                 | Some c \<Rightarrow> Some c) of
             None \<Rightarrow> Bogus
           | Some closest \<Rightarrow>
               if name_eq L closest qname
               then (if qtype = RT_DS then Secure else Bogus)
               else (case check_nsec3_wildcard_nodata L closest qtype recs salt iters of
                       Some st \<Rightarrow> st
                     | None \<Rightarrow>
                         (case check_nsec3_nxdomain L qname closest recs salt iters of
                            Some st \<Rightarrow> st
                          | None \<Rightarrow> Bogus))))"

definition validate_nsec3 ::
  "'n lib \<Rightarrow> u64 \<Rightarrow> dnskey list \<Rightarrow> 'n \<Rightarrow> rtype \<Rightarrow> 'n rr list \<Rightarrow> validation_budget \<Rightarrow>
   dnssec_status \<times> validation_budget" where
  "validate_nsec3 L now keys qname qtype authority b =
     (let recs = take MAX_NEGATIVE_RECORDS (filter (\<lambda>r. rr_type r = RT_NSEC3) authority) in
      case recs of
        [] \<Rightarrow> (Bogus, b)
      | r0 # _ \<Rightarrow>
          (case nsec3_of (rr_data r0) of
             None \<Rightarrow> (Bogus, b)
           | Some first \<Rightarrow>
               if n3_hash_algorithm first \<noteq> N3_SHA1 then (InsecureUnknown, b)
               else if n3_iterations first > MAX_NSEC3_ITERATIONS then (InsecureUnknown, b)
               else if \<not> (\<forall>r \<in> set recs. nsec3_params_match first r) then (Bogus, b)
               else (case verify_all_negative L now recs authority keys b of
                       (False, b') \<Rightarrow> (Bogus, b')
                     | (True, b') \<Rightarrow>
                         (nsec3_decide L qname qtype recs (n3_salt first) (n3_iterations first), b'))))"

section \<open>Base-32 decoding is radix conversion\<close>

fun val32 :: "string \<Rightarrow> nat" where
  "val32 [] = 0"
| "val32 (c # cs) = (case position c b32_alphabet of Some v \<Rightarrow> v | None \<Rightarrow> 0) * 32 ^ length cs + val32 cs"

fun val256 :: "bytes \<Rightarrow> nat" where
  "val256 [] = 0"
| "val256 (b # bs) = unat b * 256 ^ length bs + val256 bs"

lemma position_less: "position x ys = Some v \<Longrightarrow> v < length ys"
  by (induction ys arbitrary: v) (auto split: if_splits)

lemma b32_position_less: "position c b32_alphabet = Some v \<Longrightarrow> v < 32"
  using position_less [of c b32_alphabet v] by (simp add: b32_alphabet_def)

lemma shift5_or: "v < 32 \<Longrightarrow> push_bit 5 (of_nat w :: u64) OR of_nat v = of_nat (32 * w + v)"
proof -
  assume "v < 32"
  then have v: "take_bit 5 v = v" by (simp add: take_bit_nat_eq_self)
  have "push_bit 5 w AND v = 0"
    by (subst v [symmetric], rule bit_eqI) (auto simp: bit_simps)
  then have "push_bit 5 w OR v = 32 * w + v"
    by (simp add: disjunctive_add_eq_or [symmetric] push_bit_eq_mult)
  then have "of_nat (push_bit 5 w OR v) = (of_nat (32 * w + v) :: u64)" by (rule arg_cong)
  then show ?thesis by (simp only: of_nat_or_eq of_nat_push_bit)
qed

lemma byte_of_shift: "m < 8 \<Longrightarrow> (ucast (drop_bit m (of_nat x :: u64)) :: u8) = of_nat (x div 2 ^ m)"
  by (rule bit_word_eqI) (auto simp: bit_simps bit_of_nat_iff drop_bit_eq_div [symmetric])

lemma b32_step_mod:
  "v < 32 \<Longrightarrow> (32 * w + v) mod 2 ^ (cnt + 5) = 32 * (w mod 2 ^ cnt) + (v :: nat)"
proof -
  assume "v < 32"
  have "(32 * w + v) mod (32 * 2 ^ cnt) = 32 * ((32 * w + v) div 32 mod 2 ^ cnt) + (32 * w + v) mod 32"
    by (simp only: mod_mult2_eq)
  with \<open>v < 32\<close> show ?thesis by (simp add: power_add mult.commute)
qed

lemma b32_emit_arith:
  fixes p l m v n r :: nat
  assumes "m + 5 * l = 8 * n + r"
  shows "p div 2 ^ m * 256 ^ n + (p mod 2 ^ m * 32 ^ l + v) div 2 ^ r = (p * 32 ^ l + v) div 2 ^ r"
proof -
  have "2 ^ m * 32 ^ l = (2 :: nat) ^ (m + 5 * l)" by (simp add: power_add power_mult)
  also have "\<dots> = 256 ^ n * 2 ^ r" by (simp add: assms power_add power_mult)
  finally have pow: "2 ^ m * 32 ^ l = (256 :: nat) ^ n * 2 ^ r" .
  have "p * 32 ^ l + v = (p div 2 ^ m * 2 ^ m + p mod 2 ^ m) * 32 ^ l + v"
    by (simp only: div_mult_mod_eq)
  also have "\<dots> = p div 2 ^ m * (2 ^ m * 32 ^ l) + (p mod 2 ^ m * 32 ^ l + v)"
    by (simp only: add_mult_distrib mult.assoc add.assoc)
  also have "\<dots> = (p mod 2 ^ m * 32 ^ l + v) + p div 2 ^ m * 256 ^ n * 2 ^ r"
    by (simp only: pow mult.assoc add.commute)
  finally have "(p * 32 ^ l + v) div 2 ^ r = p div 2 ^ m * 256 ^ n + (p mod 2 ^ m * 32 ^ l + v) div 2 ^ r"
    by (simp only: div_mult_self1) simp
  then show ?thesis by simp
qed

lemma b32_loop_value:
  "b32_loop (of_nat w) cnt cs = Some out \<Longrightarrow> cnt < 8 \<Longrightarrow>
   length out = (cnt + 5 * length cs) div 8 \<and>
   val256 out = (w mod 2 ^ cnt * 32 ^ length cs + val32 cs) div 2 ^ ((cnt + 5 * length cs) mod 8)"
proof (induction cs arbitrary: w cnt out)
  case Nil
  then show ?case by (simp add: div_less)
next
  case (Cons c cs)
  then obtain v where v: "position c b32_alphabet = Some v" by (auto split: option.splits)
  then have v32: "v < 32" by (rule b32_position_less)
  let ?w = "32 * w + v" and ?l = "length cs"
  have p: "?w mod 2 ^ (cnt + 5) = 32 * (w mod 2 ^ cnt) + v" using v32 by (rule b32_step_mod)
  have total: "w mod 2 ^ cnt * 32 ^ length (c # cs) + val32 (c # cs) =
      ?w mod 2 ^ (cnt + 5) * 32 ^ ?l + val32 cs"
    by (simp only: p v list.size power_Suc val32.simps option.case plus_1_eq_Suc [symmetric])
      (simp add: algebra_simps)
  show ?case
  proof (cases "cnt + 5 \<ge> 8")
    case False
    with Cons.prems v v32 have "b32_loop (of_nat ?w) (cnt + 5) cs = Some out"
      by (simp add: shift5_or Let_def)
    with False Cons.IH [of ?w "cnt + 5" out] show ?thesis
      by (simp only: total) (simp add: algebra_simps)
  next
    case True
    let ?m = "cnt + 5 - 8"
    from True Cons.prems v v32 obtain out' where
      out': "b32_loop (of_nat ?w) ?m cs = Some out'" and
      out: "out = ucast (drop_bit ?m (of_nat ?w :: u64)) # out'"
      by (auto simp: shift5_or Let_def)
    have m: "?m < 8" and n: "?m + 8 = cnt + 5" using True Cons.prems by auto
    from Cons.IH [OF out' m] have len: "length out' = (?m + 5 * ?l) div 8" and
      val: "val256 out' = (?w mod 2 ^ ?m * 32 ^ ?l + val32 cs) div 2 ^ ((?m + 5 * ?l) mod 8)"
      by auto
    let ?p = "?w mod 2 ^ (cnt + 5)" and ?r = "(?m + 5 * ?l) mod 8"
    have "(2 :: nat) ^ (cnt + 5) = 2 ^ ?m * 2 ^ 8" by (rule power_add [of "2 :: nat" ?m 8, unfolded n])
    then have split: "?p = 2 ^ ?m * (?w div 2 ^ ?m mod 256) + ?w mod 2 ^ ?m"
      using mod_mult2_eq [of ?w "2 ^ ?m" 256] by simp
    then have hi: "?w div 2 ^ ?m mod 256 = ?p div 2 ^ ?m" and lo: "?w mod 2 ^ ?m = ?p mod 2 ^ ?m"
      by simp_all
    have byte: "unat (ucast (drop_bit ?m (of_nat ?w :: u64)) :: u8) = ?p div 2 ^ ?m"
      unfolding byte_of_shift [OF m] hi [symmetric] by (simp only: unsigned_of_nat take_bit_eq_mod) simp
    have "val256 out = ?p div 2 ^ ?m * 256 ^ length out' + (?p mod 2 ^ ?m * 32 ^ ?l + val32 cs) div 2 ^ ?r"
      by (simp only: out val256.simps byte val lo)
    also have "\<dots> = (?p * 32 ^ ?l + val32 cs) div 2 ^ ?r"
      by (rule b32_emit_arith) (simp add: len)
    finally have "val256 out = (?p * 32 ^ ?l + val32 cs) div 2 ^ ?r" .
    moreover have sum: "cnt + 5 * length (c # cs) = ?m + 5 * ?l + 8" using n by simp
    moreover have "(x + 8) mod 8 = x mod 8" and "(x + 8) div 8 = Suc (x div 8)" for x :: nat
      by simp_all
    moreover have "length out = Suc (length out')" by (simp add: out)
    ultimately show ?thesis by (simp only: total sum len)
  qed
qed


text \<open>
  Base-32 decoding is the radix conversion of RFC 4648: the output has one byte per eight
  input bits and denotes the input number without its incomplete last byte. The 64-bit
  accumulator is never masked and wraps on long labels; the theorem shows that no output bit
  is lost to that.
\<close>

lemma base32hex_decode_value:
  assumes "base32hex_decode s = Some out"
  shows "length out = 5 * length s div 8 \<and>
         val256 out = val32 (map char_upper s) div 2 ^ (5 * length s mod 8)"
  using b32_loop_value [of 0 0 "map char_upper s" out] assms
  by (simp add: base32hex_decode_def)

section \<open>Signatures and budgets\<close>

text \<open>What a verified RRset is: one of its RRSIGs, in the same section, verifies under one of the
  keys with the matching tag.\<close>

definition rrset_verified :: "'n lib \<Rightarrow> u64 \<Rightarrow> 'n rr list \<Rightarrow> dnskey list \<Rightarrow> 'n \<Rightarrow> rtype \<Rightarrow> bool" where
  "rrset_verified L now section keys owner t \<longleftrightarrow>
     (\<exists>r \<in> set section. \<exists>s. rr_data r = RD_RRSIG s \<and> sig_type_covered s = t \<and> name_eq L (rr_name r) owner \<and>
        (\<exists>k \<in> set keys. key_tag_matches L k (sig_key_tag s) \<and>
           verify_rrsig L now s k r (filter (\<lambda>r'. name_eq L (rr_name r') owner \<and> rr_type r' = t) section)))"

lemma verify_rrsigD:
  "verify_rrsig L now s k r rs \<Longrightarrow>
   rrsig_time_valid s now \<and> sig_algorithm s = dk_algorithm k \<and>
   (\<exists>tbs. build_tbs_manual L r rs = Some tbs \<and>
      (verify_signature L (sig_algorithm s) (dk_public_bytes k) tbs (sig_sig s) \<or> dnskey_verify L k tbs (sig_sig s)))"
  by (auto simp: verify_rrsig_def split: if_splits option.splits)

lemma verify_negative_rrset_sound:
  assumes "verify_negative_rrset L now rec authority keys b = (True, b')"
  shows "rrset_verified L now authority keys (rr_name rec) (rr_type rec)"
proof -
  let ?full = "filter (\<lambda>r. name_eq L (rr_name r) (rr_name rec) \<and> rr_type r = rr_type rec) authority"
  let ?sigs = "filter (\<lambda>r. name_eq L (rr_name r) (rr_name rec) \<and> covers_type (rr_type rec) (rr_data r)) authority"
  from assms have "try_sigs L (\<lambda>s k r. verify_rrsig L now s k r ?full) (rr_type rec) keys ?sigs b = (Found, b')"
    by (auto simp: verify_negative_rrset_def Let_def split: if_splits prod.splits search.splits)
  from try_sigs_Found [OF this] show ?thesis
    unfolding rrset_verified_def by auto
qed

lemma verify_negative_rrset_step:
  "verify_negative_rrset L now rec authority keys b = (ok, b') \<Longrightarrow> budget_step b b'"
  by (auto simp: verify_negative_rrset_def Let_def split: if_splits prod.splits search.splits
      dest: try_sigs_step)

lemma verify_all_negative_sound:
  "verify_all_negative L now rs authority keys b = (True, b') \<Longrightarrow> r \<in> set rs \<Longrightarrow>
   rrset_verified L now authority keys (rr_name r) (rr_type r)"
  by (induction rs arbitrary: b) (auto split: prod.splits bool.splits dest: verify_negative_rrset_sound)

lemma verify_all_negative_step:
  "verify_all_negative L now rs authority keys b = (ok, b') \<Longrightarrow> budget_step b b'"
  by (induction rs arbitrary: b)
    (auto split: prod.splits bool.splits dest: verify_negative_rrset_step intro: budget_step_trans)

lemma validate_nsec_step: "validate_nsec L now keys q t auth b = (st, b') \<Longrightarrow> budget_step b b'"
  by (auto simp: validate_nsec_def Let_def split: if_splits prod.splits bool.splits
      dest: verify_all_negative_step)

lemma validate_nsec3_step: "validate_nsec3 L now keys q t auth b = (st, b') \<Longrightarrow> budget_step b b'"
  by (auto simp: validate_nsec3_def Let_def simp del: verify_all_negative.simps
      split: if_splits prod.splits bool.splits list.splits option.splits dest: verify_all_negative_step)

section \<open>What an accepted NSEC denial proves\<close>

text \<open>The three forms of a proof: a matching record without the type, an absent name whose
  wildcard lacks the type, an absent name with an absent wildcard.\<close>

definition nsec_nodata_proof :: "'n lib \<Rightarrow> 'n \<Rightarrow> rtype \<Rightarrow> 'n rr list \<Rightarrow> bool" where
  "nsec_nodata_proof L qname qtype recs \<longleftrightarrow>
     (\<exists>r \<in> set recs. \<exists>n. name_eq L (rr_name r) qname \<and> nsec_of (rr_data r) = Some n \<and>
        qtype \<notin> set (nsec_types n) \<and> RT_CNAME \<notin> set (nsec_types n) \<and>
        (qtype = RT_DS \<longrightarrow> RT_SOA \<notin> set (nsec_types n)))"

definition nsec_absence_proof :: "'n lib \<Rightarrow> 'n \<Rightarrow> rtype \<Rightarrow> 'n rr list \<Rightarrow> bool" where
  "nsec_absence_proof L qname qtype recs \<longleftrightarrow>
     nsec_any_covers L recs qname \<and>
     (\<exists>closest. nsec_any_covers L recs (wildcard_name L closest) \<or>
        (\<exists>r \<in> set recs. \<exists>n. name_eq L (rr_name r) (wildcard_name L closest) \<and>
           nsec_of (rr_data r) = Some n \<and> qtype \<notin> set (nsec_types n) \<and> RT_CNAME \<notin> set (nsec_types n)))"

lemma nodata_verdict_cases:
  "nodata_verdict t types = Some st \<Longrightarrow> st \<noteq> Bogus \<Longrightarrow>
   t \<notin> set types \<and> RT_CNAME \<notin> set types \<and> (t = RT_DS \<longrightarrow> RT_SOA \<notin> set types) \<and>
   (st = InsecureUnsigned \<longleftrightarrow> t = RT_DS \<and> RT_NS \<in> set types) \<and> st \<in> {Secure, InsecureUnsigned}"
  by (auto simp: nodata_verdict_def split: if_splits)

lemma check_nsec_nodata_sound:
  "check_nsec_nodata L q t recs = Some st \<Longrightarrow> st \<noteq> Bogus \<Longrightarrow>
   nsec_nodata_proof L q t recs \<and> st \<in> {Secure, InsecureUnsigned} \<and> (st = InsecureUnsigned \<longrightarrow> t = RT_DS)"
  unfolding check_nsec_nodata_def nsec_nodata_proof_def
  by (drule find_map_SomeD) (fastforce split: if_splits option.splits dest: nodata_verdict_cases)

lemma check_nsec_wildcard_nodata_sound:
  "check_nsec_wildcard_nodata L q t c recs = Some st \<Longrightarrow> nsec_absence_proof L q t recs \<and> st = Secure"
  unfolding check_nsec_wildcard_nodata_def nsec_absence_proof_def
  by (fastforce split: option.splits if_splits dest!: find_SomeD)

lemma check_nsec_nxdomain_sound:
  "check_nsec_nxdomain L q c recs = Some st \<Longrightarrow> nsec_absence_proof L q t recs \<and> st = Secure"
  unfolding check_nsec_nxdomain_def nsec_absence_proof_def
  by (auto split: if_splits)

lemma validate_nsec_accepted:
  assumes "validate_nsec L now keys q t authority b = (st, b')" and "st \<noteq> Bogus"
  defines "recs \<equiv> take MAX_NEGATIVE_RECORDS (filter (\<lambda>r. rr_type r = RT_NSEC) authority)"
  shows "recs \<noteq> [] \<and> (\<exists>b1. verify_all_negative L now recs authority keys b = (True, b1)) \<and>
     st = nsec_decide L q t recs"
proof -
  obtain ok b1 where v: "verify_all_negative L now recs authority keys b = (ok, b1)"
    by (cases "verify_all_negative L now recs authority keys b")
  have "validate_nsec L now keys q t authority b =
      (if recs = [] then (Bogus, b) else if ok then (nsec_decide L q t recs, b1) else (Bogus, b1))"
    unfolding validate_nsec_def Let_def recs_def [symmetric] v by (simp split: bool.splits)
  with assms(1,2) v show ?thesis by (cases ok) (simp_all split: if_splits)
qed

lemma nsec_decide_sound:
  assumes "nsec_decide L q t recs = st" and "st \<noteq> Bogus"
  shows "(st = Secure \<or> st = InsecureUnsigned \<and> t = RT_DS) \<and>
     (nsec_nodata_proof L q t recs \<or> st = Secure \<and> nsec_absence_proof L q t recs)"
proof (cases "check_nsec_nodata L q t recs")
  case (Some st')
  with assms check_nsec_nodata_sound [OF Some] show ?thesis by (auto simp: nsec_decide_def)
next
  case None
  with assms have "st = Secure \<and> nsec_absence_proof L q t recs"
    by (auto simp: nsec_decide_def split: option.splits
        dest: check_nsec_wildcard_nodata_sound check_nsec_nxdomain_sound [where t = t])
  then show ?thesis by simp
qed


text \<open>A zone with one key whose signatures verify, for the witnesses.\<close>

definition demo_lib :: "bytes list lib" where
  "demo_lib = lab_lib\<lparr>dnskey_calculate_tag := \<lambda>_. Some 7, dnskey_verify := \<lambda>_ _ _. True,
     sha1 := \<lambda>_. replicate 20 0\<rparr>"

definition demo_key :: dnskey where
  "demo_key = \<lparr>dk_flags = 257, dk_algorithm = ED25519, dk_public_bytes = []\<rparr>"

definition demo_sig :: "bytes list \<Rightarrow> rtype \<Rightarrow> bytes list rr" where
  "demo_sig owner t = \<lparr>rr_name = owner, rr_type = RT_RRSIG, rr_class = IN, rr_ttl = 300,
     rr_data = RD_RRSIG \<lparr>sig_type_covered = t, sig_algorithm = ED25519, sig_num_labels = of_nat (length owner),
       sig_original_ttl = 300, sig_expiration = 2000, sig_inception = 1000, sig_key_tag = 7,
       sig_signer_name = [], sig_sig = []\<rparr>\<rparr>"

definition demo_nsec :: "bytes list \<Rightarrow> rtype list \<Rightarrow> bytes list rr" where
  "demo_nsec owner types = \<lparr>rr_name = owner, rr_type = RT_NSEC, rr_class = IN, rr_ttl = 300,
     rr_data = RD_NSEC \<lparr>nsec_next = [[122]], nsec_types = types\<rparr>\<rparr>"

definition demo_nsec3 :: "rtype list \<Rightarrow> bytes list rr" where
  "demo_nsec3 types = \<lparr>rr_name = [replicate 32 48], rr_type = RT_NSEC3, rr_class = IN, rr_ttl = 300,
     rr_data = RD_NSEC3 \<lparr>n3_hash_algorithm = N3_SHA1, n3_flags = 0, n3_iterations = 1, n3_salt = [],
       n3_next_hashed = replicate 20 1, n3_types = types\<rparr>\<rparr>"

definition demo_rrsig :: "bytes list \<Rightarrow> rtype \<Rightarrow> bytes list rrsig" where
  "demo_rrsig owner t = \<lparr>sig_type_covered = t, sig_algorithm = ED25519, sig_num_labels = of_nat (length owner),
     sig_original_ttl = 300, sig_expiration = 2000, sig_inception = 1000, sig_key_tag = 7,
     sig_signer_name = [], sig_sig = []\<rparr>"

lemma demo_selectors [simp]:
  "rr_name (demo_sig o' t) = o'" "rr_type (demo_sig o' t) = RT_RRSIG" "rr_class (demo_sig o' t) = IN"
  "rr_data (demo_sig o' t) = RD_RRSIG (demo_rrsig o' t)"
  "sig_type_covered (demo_rrsig o' t) = t" "sig_key_tag (demo_rrsig o' t) = 7"
  "rr_name (demo_nsec o' ts) = o'" "rr_type (demo_nsec o' ts) = RT_NSEC" "rr_class (demo_nsec o' ts) = IN"
  "rr_data (demo_nsec o' ts) = RD_NSEC \<lparr>nsec_next = [[122]], nsec_types = ts\<rparr>"
  "rr_name (demo_nsec3 ts) = [replicate 32 48]" "rr_type (demo_nsec3 ts) = RT_NSEC3" "rr_class (demo_nsec3 ts) = IN"
  "rr_data (demo_nsec3 ts) = RD_NSEC3 \<lparr>n3_hash_algorithm = N3_SHA1, n3_flags = 0, n3_iterations = 1, n3_salt = [],
       n3_next_hashed = replicate 20 1, n3_types = ts\<rparr>"
  by (simp_all add: demo_sig_def demo_rrsig_def demo_nsec_def demo_nsec3_def)

lemma demo_key_tag [simp]: "key_tag_matches demo_lib k 7"
  by (simp add: key_tag_matches_def key_tag_or_max_def compute_key_tag_def demo_lib_def)

lemma demo_verify:
  assumes "rr_name r = owner" "rr_type r = t" "rr_class r = IN" "canonical_rdata demo_lib (rr_data r) = Some []"
    and "owner = [l]" "l \<noteq> []" "length l \<le> 63"
  shows "verify_rrsig demo_lib 1500 (demo_rrsig owner t) demo_key (demo_sig owner t) [r]"
proof -
  have "rrsig_time_valid (demo_rrsig owner t) 1500"
    by (simp add: rrsig_time_valid_def demo_rrsig_def now32_def)
  moreover have "\<exists>tbs. build_tbs_manual demo_lib (demo_sig owner t) [r] = Some tbs"
    using assms by (simp add: build_tbs_manual_def tbs_sortable_def reconstruct_wildcard_name_def
      owner_label_count_u8_def demo_rrsig_def label_list_def tbs_encode_def tbs_record_def tbs_rrsig_prefix_def
      emit_name_canonical_def fits_def demo_lib_def lab_lib_def be16_def be32_def)
  ultimately show ?thesis
    by (auto simp: verify_rrsig_def demo_rrsig_def demo_key_def) (simp add: demo_lib_def)
qed

lemma demo_rdata_emit [simp]: "rdata_emit demo_lib d = Some []"
  by (simp add: demo_lib_def lab_lib_def)

lemmas demo_run = Let_def validate_nsec_def validate_nsec3_def budget_default_def PER_VALIDATION_MAX_SIG_CHECKS_def
  can_check_sig_def MAX_NEGATIVE_RECORDS_def MAX_NSEC3_ITERATIONS_def verify_negative_rrset_def demo_verify
  nsec_decide_def check_nsec_nodata_def nsec3_decide_def check_nsec3_nodata_def nodata_verdict_def nsec3_params_match_def

lemma demo_nsec3_hashes [simp]:
  "nsec3_owner_hash demo_lib (demo_nsec3 ts) = Some (replicate 20 0)"
  "nsec3_hash demo_lib n salt 1 = replicate 20 0"
proof -
  have "char_of_byte 48 = CHR ''0''" by code_simp
  then have "n_to_string demo_lib [replicate 32 48] = replicate 32 (CHR ''0'') @ ''.''"
    by (simp add: demo_lib_def lab_lib_def lab_show_def)
  moreover have "hd (split_on (CHR ''.'') (trim_end_matches (CHR ''.'') (replicate 32 (CHR ''0'') @ ''.''))) = replicate 32 (CHR ''0'')"
    by code_simp
  moreover have "base32hex_decode (replicate 32 (CHR ''0'')) = Some (replicate 20 0)" by code_simp
  ultimately show "nsec3_owner_hash demo_lib (demo_nsec3 ts) = Some (replicate 20 0)"
    by (simp add: nsec3_owner_hash_def)
  show "nsec3_hash demo_lib n salt 1 = replicate 20 0"
    by (simp add: nsec3_hash_def demo_lib_def Let_def)
qed

lemma demo_nsec_accepted:
  "validate_nsec demo_lib 1500 [demo_key] [[119]] RT_AAAA
     [demo_nsec [[119]] [RT_A], demo_sig [[119]] RT_NSEC] budget_default = (Secure, \<lparr>sig_checks = 1, max_sig_checks = PER_VALIDATION_MAX_SIG_CHECKS\<rparr>)"
  by (simp add: demo_run)


section \<open>What an accepted NSEC3 denial proves\<close>

text \<open>The fuel of \<open>next_closer\<close> is enough: the definition satisfies the equation of the loop.\<close>

lemma next_closer_unfold:
  assumes "name_laws L"
  shows "next_closer L closest n =
    (let parent = n_base_name L n in
     if n_eq L parent closest then Some n
     else if n_eq L parent n then None
     else next_closer L closest parent)"
proof (cases "n_is_root L n")
  case True
  with assms have "n_eq L (n_base_name L n) n" by (simp add: name_laws_def)
  then show ?thesis by (simp add: next_closer_def Let_def)
next
  case False
  with assms have "label_list L n \<noteq> []" "label_list L (n_base_name L n) = tl (label_list L n)"
    by (simp_all add: name_laws_def)
  then have "length (label_list L n) = Suc (length (label_list L (n_base_name L n)))"
    by (cases "label_list L n") simp_all
  then show ?thesis by (simp add: next_closer_def Let_def)
qed

text \<open>The three forms of a proof for query types other than DS. The wildcard form does not ask
  that the next closer name be covered, which RFC 5155 (8.7) requires.\<close>

definition nsec3_proof :: "'n lib \<Rightarrow> 'n \<Rightarrow> rtype \<Rightarrow> 'n rr list \<Rightarrow> bytes \<Rightarrow> u16 \<Rightarrow> bool" where
  "nsec3_proof L qname qtype recs salt iters \<longleftrightarrow>
     (\<exists>m. (m = qname \<or> (\<exists>closest. m = wildcard_name L closest)) \<and>
        (\<exists>r \<in> set recs. \<exists>n. nsec3_owner_hash L r = Some (nsec3_hash L m salt iters) \<and>
           nsec3_of (rr_data r) = Some n \<and> qtype \<notin> set (n3_types n) \<and> RT_CNAME \<notin> set (n3_types n))) \<or>
     (\<exists>closest nc. next_closer L closest qname = Some nc \<and>
        (\<exists>r \<in> set recs. nsec3_covers L r (nsec3_hash L nc salt iters) \<and>
           (\<exists>n. nsec3_of (rr_data r) = Some n \<and> n3_flags n AND 1 = 0)) \<and>
        (\<exists>r \<in> set recs. nsec3_covers L r (nsec3_hash L (wildcard_name L closest) salt iters)))"

lemma nsec3_covers_data: "nsec3_covers L r h \<Longrightarrow> \<exists>n. nsec3_of (rr_data r) = Some n"
  by (auto simp: nsec3_covers_def split: option.splits)

lemma check_nsec3_nodata_sound:
  "check_nsec3_nodata L q t recs salt it = Some Secure \<Longrightarrow> nsec3_proof L q t recs salt it"
  unfolding check_nsec3_nodata_def nsec3_proof_def
  by (drule find_map_SomeD) (fastforce split: if_splits option.splits dest: nodata_verdict_cases)

lemma check_nsec3_wildcard_nodata_sound:
  assumes "check_nsec3_wildcard_nodata L c t recs salt it = Some st"
  shows "nsec3_proof L q t recs salt it"
proof -
  from assms obtain w n where
    w: "List.find (\<lambda>r. nsec3_owner_hash L r = Some (nsec3_hash L (wildcard_name L c) salt it)) recs = Some w"
    and n: "nsec3_of (rr_data w) = Some n" "t \<notin> set (n3_types n)" "RT_CNAME \<notin> set (n3_types n)"
    by (auto simp: check_nsec3_wildcard_nodata_def split: option.splits if_splits)
  from find_SomeD [OF w] n show ?thesis unfolding nsec3_proof_def by blast
qed

lemma check_nsec3_nxdomain_sound:
  assumes "check_nsec3_nxdomain L q c recs salt it = Some Secure"
  shows "nsec3_proof L q t recs salt it"
proof -
  from assms obtain nc cov where nc: "next_closer L c q = Some nc"
    and cov: "List.find (\<lambda>r. nsec3_covers L r (nsec3_hash L nc salt it)) recs = Some cov"
    and opt: "\<not> (case nsec3_of (rr_data cov) of Some n \<Rightarrow> n3_flags n AND 1 \<noteq> 0 | None \<Rightarrow> False)"
    and wild: "\<exists>r \<in> set recs. nsec3_covers L r (nsec3_hash L (wildcard_name L c) salt it)"
    by (auto simp: check_nsec3_nxdomain_def split: option.splits if_splits)
  from find_SomeD [OF cov] have c1: "cov \<in> set recs" and c2: "nsec3_covers L cov (nsec3_hash L nc salt it)"
    by simp_all
  from nsec3_covers_data [OF c2] opt obtain n where "nsec3_of (rr_data cov) = Some n" "n3_flags n AND 1 = 0"
    by auto
  with nc c1 c2 wild show ?thesis unfolding nsec3_proof_def by blast
qed

lemma nsec3_decide_sound:
  assumes "nsec3_decide L q t recs salt it = Secure" and "t \<noteq> RT_DS"
  shows "nsec3_proof L q t recs salt it"
proof (cases "check_nsec3_nodata L q t recs salt it")
  case (Some st)
  with assms show ?thesis by (auto simp: nsec3_decide_def intro: check_nsec3_nodata_sound)
next
  case None
  with assms show ?thesis
    by (auto simp: nsec3_decide_def split: option.splits if_splits
        intro: check_nsec3_wildcard_nodata_sound check_nsec3_nxdomain_sound)
qed

lemma validate_nsec3_accepted:
  assumes "validate_nsec3 L now keys q t authority b = (Secure, b')"
  defines "recs \<equiv> take MAX_NEGATIVE_RECORDS (filter (\<lambda>r. rr_type r = RT_NSEC3) authority)"
  shows "\<exists>r0 rest first b1. recs = r0 # rest \<and> nsec3_of (rr_data r0) = Some first \<and>
     n3_hash_algorithm first = N3_SHA1 \<and> n3_iterations first \<le> MAX_NSEC3_ITERATIONS \<and>
     (\<forall>r \<in> set recs. nsec3_params_match first r) \<and>
     verify_all_negative L now recs authority keys b = (True, b1) \<and>
     nsec3_decide L q t recs (n3_salt first) (n3_iterations first) = Secure"
proof -
  obtain ok b1 where v: "verify_all_negative L now recs authority keys b = (ok, b1)"
    by (cases "verify_all_negative L now recs authority keys b")
  from assms(1) obtain r0 rest where recs: "recs = r0 # rest"
    unfolding validate_nsec3_def Let_def recs_def [symmetric] by (cases recs) simp_all
  from assms(1) obtain first where "nsec3_of (rr_data r0) = Some first"
    unfolding validate_nsec3_def Let_def recs_def [symmetric] recs by (cases "nsec3_of (rr_data r0)") simp_all
  with assms(1) recs v show ?thesis
    unfolding validate_nsec3_def Let_def recs_def [symmetric]
    by (cases ok) (auto simp: not_less simp del: verify_all_negative.simps split: if_splits)
qed


lemma demo_nsec3_accepted:
  "validate_nsec3 demo_lib 1500 [demo_key] [[119]] RT_AAAA
     [demo_nsec3 [RT_A], demo_sig [replicate 32 48] RT_NSEC3] budget_default = (Secure, \<lparr>sig_checks = 1, max_sig_checks = PER_VALIDATION_MAX_SIG_CHECKS\<rparr>)"
  by (simp add: demo_run)


section \<open>Coverage\<close>

text \<open>
  An NSEC record never covers a name it proves to exist: neither its owner nor its next
  name, in any letter case, whatever the order of the two.
\<close>

lemma nsec_covers_excludes_endpoints:
  assumes "\<And>a. \<not> n_lt L a a" and "n_lower L t = n_lower L owner \<or> n_lower L t = n_lower L next"
  shows "\<not> nsec_covers L owner next t"
  using assms by (auto simp: nsec_covers_def Let_def)

text \<open>
  NSEC3 coverage differs: the comparison with the owner hash is not strict, so a record
  covers the hash of its own owner name, a name that the record proves to exist.
\<close>

lemma nsec3_covers_own_owner:
  assumes "nsec3_owner_hash L rec = Some h" and "nsec3_of (rr_data rec) = Some n"
    and "n3_next_hashed n \<noteq> h"
  shows "nsec3_covers L rec h"
  using assms by (auto simp: nsec3_covers_def Let_def)

text \<open>
  For a DS query, a matching NSEC3 record whose type bitmap contains DS is answered with
  Secure: a record that says the DS exists is accepted as the proof that it does not.
\<close>

lemma nsec3_ds_bit_accepted_as_denial:
  assumes "nsec3_owner_hash L rec = Some (nsec3_hash L qname salt iters)"
    and "nsec3_of (rr_data rec) = Some n"
    and "RT_DS \<in> set (n3_types n)" and "RT_SOA \<notin> set (n3_types n)"
  shows "nsec3_decide L qname RT_DS [rec] salt iters = Secure"
proof -
  have "check_nsec3_nodata L qname RT_DS [rec] salt iters = None"
    using assms by (simp add: check_nsec3_nodata_def nodata_verdict_def)
  moreover have "find_nsec3_closest_provable_encloser L qname [rec] salt iters = Some qname"
    using assms by (simp add: find_nsec3_closest_provable_encloser_def MAX_CLOSEST_ENCLOSER_STEPS_def
        numeral_eq_Suc)
  ultimately show ?thesis by (simp add: nsec3_decide_def)
qed

end
