(* ===== verification/Delegation.thy ===== *)
theory Delegation
  imports Dns_Types
begin

text \<open>
  The pure parts of the recursor: \<open>src/recursor/delegation.rs\<close>, \<open>dname.rs\<close>,
  \<open>cname.rs\<close>, the address filter, the response matcher and the lenient decoder of
  \<open>upstream.rs\<close>, and \<open>calculate_min_ttl\<close> of \<open>recursor/mod.rs\<close>.

  The delegation cache is a map from lower-cased names to entries. \<open>purge_delegation\<close> and
  \<open>find_cached_start\<close> climb from the name (for DS: from its parent) to the root.

  Lemmas: the address filter refuses exactly the special-purpose blocks; TTL bounds; which
  entry a lookup finds; DNAME substitution; the shape of a merged response.
\<close>

section \<open>Delegation cache\<close>

definition MIN_DELEGATION_TTL :: u64 where "MIN_DELEGATION_TTL = 300"
definition MAX_DELEGATION_TTL :: u64 where "MAX_DELEGATION_TTL = 172800"

datatype delegation_source = Dynamic | RootZone

record delegation_entry =
  de_servers :: "ip_addr list"
  de_expires_at :: u64
  de_source :: delegation_source

type_synonym delegation_cache = "(string \<times> delegation_entry) list"

text \<open>\<open>min_ttl = min_ttl.min(r.ttl())\<close> over a list of records.\<close>

definition min_ttl_of :: "u32 \<Rightarrow> 'n rr list \<Rightarrow> u32" where
  "min_ttl_of init rs = fold (\<lambda>r m. min m (rr_ttl r)) rs init"

definition delegation_ttl :: "'n message \<Rightarrow> u64" where
  "delegation_ttl msg =
     (let min_ttl = min_ttl_of (min_ttl_of (- 1) (m_ns msg)) (m_add msg) in
      if min_ttl = - 1 then MIN_DELEGATION_TTL
      else min (ucast min_ttl) MAX_DELEGATION_TTL)"

definition lookup_start :: "'n lib \<Rightarrow> 'n \<Rightarrow> rtype \<Rightarrow> 'n" where
  "lookup_start L name rtype = (if rtype = RT_DS then n_base_name L name else name)"

fun purge_walk :: "'n lib \<Rightarrow> delegation_cache \<Rightarrow> 'n list \<Rightarrow> delegation_cache" where
  "purge_walk L cache [] = cache"
| "purge_walk L cache (cur # rest) =
     (if dm_get cache (name_key L cur) \<noteq> None then dm_remove (name_key L cur) cache
      else purge_walk L cache rest)"

definition purge_delegation :: "'n lib \<Rightarrow> delegation_cache \<Rightarrow> 'n \<Rightarrow> rtype \<Rightarrow> delegation_cache" where
  "purge_delegation L cache name rtype = purge_walk L cache (name_walk L (lookup_start L name rtype))"

definition live_servers :: "'n lib \<Rightarrow> delegation_cache \<Rightarrow> u64 \<Rightarrow> 'n \<Rightarrow> ip_addr list option" where
  "live_servers L cache now cur =
     (case dm_get cache (name_key L cur) of
        Some e \<Rightarrow> if de_expires_at e > now then Some (de_servers e) else None
      | None \<Rightarrow> None)"

definition find_cached_start ::
  "'n lib \<Rightarrow> delegation_cache \<Rightarrow> u64 \<Rightarrow> 'n \<Rightarrow> rtype \<Rightarrow> ip_addr list option" where
  "find_cached_start L cache now name rtype =
     find_map (live_servers L cache now) (name_walk L (lookup_start L name rtype))"

section \<open>DNAME\<close>

definition DNAME_RECORD_TYPE :: rtype where "DNAME_RECORD_TYPE = RT_Unknown 39"

definition dname_substitute :: "'n lib \<Rightarrow> 'n \<Rightarrow> 'n \<Rightarrow> 'n \<Rightarrow> rcode + 'n" where
  "dname_substitute L name dname_owner target =
     (if \<not> n_zone_of L dname_owner name \<or> n_eq L dname_owner name then Inl FormErr
      else let name_str = name_key L name; owner_str = name_key L dname_owner in
        if \<not> ends_with name_str owner_str then Inl FormErr
        else let prefix = take (length name_str - length owner_str) name_str;
                 new_name_str = prefix @ n_to_string L target in
          if length new_name_str > 255 then Inl YXDomain
          else if \<exists>label \<in> set (split_on (CHR ''.'') (trim_end_matches (CHR ''.'') new_name_str)). length label > 63
          then Inl YXDomain
          else (case n_from_str L new_name_str of Some n \<Rightarrow> Inr n | None \<Rightarrow> Inl YXDomain))"

definition extract_dname_target :: "'n lib \<Rightarrow> 'n rr \<Rightarrow> 'n option" where
  "extract_dname_target L r =
     (if rr_type r = DNAME_RECORD_TYPE then Option.bind (rdata_emit L (rr_data r)) (name_read L) else None)"

section \<open>CNAME\<close>

fun cname_of :: "'n rdata \<Rightarrow> 'n option" where
  "cname_of (RD_CNAME n) = Some n"
| "cname_of _ = None"

definition extract_cname_target :: "'n lib \<Rightarrow> 'n rr \<Rightarrow> 'n \<Rightarrow> 'n option" where
  "extract_cname_target L r name =
     (if n_eq L (rr_name r) name \<and> rr_type r = RT_CNAME then cname_of (rr_data r) else None)"

text \<open>\<open>if !xs.iter().any(|e| e == r) { xs.push(r) }\<close> over a list.\<close>

definition add_new :: "'n lib \<Rightarrow> 'n rr list \<Rightarrow> 'n rr list \<Rightarrow> 'n rr list" where
  "add_new L base rs = fold (\<lambda>r acc. if \<exists>e \<in> set acc. rr_eq L e r then acc else acc @ [r]) rs base"

definition merge_redirection_response ::
  "'n lib \<Rightarrow> 'n \<Rightarrow> rtype \<Rightarrow> 'n message \<Rightarrow> 'n message \<Rightarrow> 'n message" where
  "merge_redirection_response L orig_name orig_type first_hop_msg final_msg =
     (let m = msg_new L in m\<lparr>
        m_id := m_id final_msg, m_type := MT_Response, m_opcode := m_opcode final_msg,
        m_aa := m_aa final_msg, m_tc := m_tc final_msg, m_rd := m_rd final_msg, m_ra := m_ra final_msg,
        m_ad := m_ad final_msg, m_cd := m_cd final_msg, m_rcode := m_rcode final_msg,
        m_queries := m_queries m @ [\<lparr>q_name = orig_name, q_type = orig_type, q_class = IN\<rparr>],
        m_answers := add_new L (m_answers m @ m_answers first_hop_msg) (m_answers final_msg),
        m_ns := add_new L (m_ns m @ m_ns final_msg)
          (filter (\<lambda>r. rr_type r \<in> {RT_NSEC, RT_NSEC3, RT_RRSIG}) (m_ns first_hop_msg)),
        m_add := add_new L (m_add m @ filter (\<lambda>r. rr_type r \<noteq> RT_OPT) (m_add final_msg))
          (filter (\<lambda>r. rr_type r \<in> {RT_RRSIG, RT_DNSKEY}) (m_add first_hop_msg)),
        m_edns := (case m_edns final_msg of Some e \<Rightarrow> Some e | None \<Rightarrow> m_edns m)\<rparr>)"

section \<open>Upstream addresses and responses\<close>

definition ROOT_SERVERS :: "ip_addr list" where
  "ROOT_SERVERS = map V4
     [ipv4_new 198 41 0 4, ipv4_new 199 9 14 201, ipv4_new 192 33 4 12, ipv4_new 199 7 91 13,
      ipv4_new 192 203 230 10, ipv4_new 192 5 5 241, ipv4_new 192 112 36 4, ipv4_new 198 97 190 53,
      ipv4_new 192 36 148 17, ipv4_new 192 58 128 30, ipv4_new 193 0 14 129, ipv4_new 199 7 83 42,
      ipv4_new 202 12 27 33]"

text \<open>The predicates of \<open>std::net::Ipv4Addr\<close> that the filter calls.\<close>

definition v4_is_private :: "u32 \<Rightarrow> bool" where
  "v4_is_private a \<longleftrightarrow> octet a 0 = 10 \<or> (octet a 0 = 172 \<and> 16 \<le> octet a 1 \<and> octet a 1 \<le> 31) \<or>
     (octet a 0 = 192 \<and> octet a 1 = 168)"

definition v4_is_link_local :: "u32 \<Rightarrow> bool" where
  "v4_is_link_local a \<longleftrightarrow> octet a 0 = 169 \<and> octet a 1 = 254"

definition v4_is_documentation :: "u32 \<Rightarrow> bool" where
  "v4_is_documentation a \<longleftrightarrow>
     (octet a 0 = 192 \<and> octet a 1 = 0 \<and> octet a 2 = 2) \<or>
     (octet a 0 = 198 \<and> octet a 1 = 51 \<and> octet a 2 = 100) \<or>
     (octet a 0 = 203 \<and> octet a 1 = 0 \<and> octet a 2 = 113)"

definition v4_is_multicast :: "u32 \<Rightarrow> bool" where
  "v4_is_multicast a \<longleftrightarrow> 224 \<le> octet a 0 \<and> octet a 0 \<le> 239"

definition is_safe_upstream_v4 :: "u32 \<Rightarrow> bool" where
  "is_safe_upstream_v4 a =
     (if v4_is_private a \<or> is_loopback (V4 a) \<or> v4_is_link_local a \<or> a = 0xFFFFFFFF \<or>
         v4_is_documentation a \<or> a = 0 \<or> v4_is_multicast a then False
      else if octet a 0 = 100 \<and> octet a 1 AND 0xC0 = 0x40 then False
      else if octet a 0 = 198 \<and> (octet a 1 = 18 \<or> octet a 1 = 19) then False
      else if octet a 0 = 0 then False
      else True)"

definition is_safe_upstream_v6 :: "u128 \<Rightarrow> bool" where
  "is_safe_upstream_v6 a =
     (if is_loopback (V6 a) \<or> a = 0 \<or> segment a 0 AND 0xFF00 = 0xFF00 then False
      else if segment a 0 AND 0xFE00 = 0xFC00 then False
      else if segment a 0 AND 0xFFC0 = 0xFE80 then False
      else if segment a 0 = 0 \<and> segment a 1 = 0 \<and> segment a 2 = 0 \<and> segment a 3 = 0 \<and>
              segment a 4 = 0 \<and> segment a 5 = 0xFFFF
      then is_safe_upstream_v4
             (ipv4_new (ucast (drop_bit 8 (segment a 6))) (ucast (segment a 6 AND 0xFF))
                       (ucast (drop_bit 8 (segment a 7))) (ucast (segment a 7 AND 0xFF)))
      else True)"

definition is_safe_upstream_ip :: "ip_addr \<Rightarrow> bool" where
  "is_safe_upstream_ip ip = (case ip of V4 a \<Rightarrow> is_safe_upstream_v4 a | V6 a \<Rightarrow> is_safe_upstream_v6 a)"

definition filter_safe_ips :: "ip_addr list \<Rightarrow> ip_addr list" where
  "filter_safe_ips ips = filter is_safe_upstream_ip ips"

definition decode_response :: "'n lib \<Rightarrow> bytes \<Rightarrow> 'n message option" where
  "decode_response L buf =
     (case msg_read L buf of
        Some m \<Rightarrow> Some m
      | None \<Rightarrow>
          if length buf \<ge> 12 \<and> (buf ! 10 \<noteq> 0 \<or> buf ! 11 \<noteq> 0)
          then msg_read L (buf[10 := 0, 11 := 0])
          else None)"

definition response_matches :: "'n lib \<Rightarrow> 'n message \<Rightarrow> u16 \<Rightarrow> 'n \<Rightarrow> rtype \<Rightarrow> bool" where
  "response_matches L response txid sent_name rtype =
     (if m_id response \<noteq> txid \<or> m_type response \<noteq> MT_Response then False
      else if m_opcode response \<noteq> OC_Query then False
      else (case m_queries response of
              [q] \<Rightarrow> if q_type q \<noteq> rtype \<or> q_class q \<noteq> IN then False
                     else n_eq L (q_name q) sent_name
            | _ \<Rightarrow> False))"

definition calculate_min_ttl :: "'n message \<Rightarrow> u32" where
  "calculate_min_ttl msg =
     (let min_ttl = min_ttl_of (min_ttl_of (min_ttl_of (- 1) (m_answers msg)) (m_ns msg)) (m_add msg) in
      if min_ttl = - 1 then 300 else min min_ttl 86400)"

section \<open>TTL bounds\<close>

lemma min_ttl_of_le: "min_ttl_of i rs \<le> i"
  unfolding min_ttl_of_def
proof (induction rs arbitrary: i)
  case (Cons r rs)
  from Cons.IH [of "min i (rr_ttl r)"] show ?case by simp
qed simp

lemma min_ttl_of_record: "r \<in> set rs \<Longrightarrow> min_ttl_of i rs \<le> rr_ttl r"
proof (induction rs arbitrary: i)
  case (Cons r' rs)
  show ?case
  proof (cases "r = r'")
    case True
    have "min_ttl_of (min i (rr_ttl r')) rs \<le> rr_ttl r'"
      using min_ttl_of_le [of "min i (rr_ttl r')" rs] by simp
    with True show ?thesis by (simp add: min_ttl_of_def)
  next
    case False
    with Cons show ?thesis by (simp add: min_ttl_of_def)
  qed
qed simp

lemma word_max_le: "(- 1 :: u32) \<le> x \<Longrightarrow> x = - 1"
  by (metis word_n1_ge antisym)

lemma calculate_min_ttl_record:
  assumes "r \<in> set (m_answers msg @ m_ns msg @ m_add msg)"
  shows "calculate_min_ttl msg \<le> rr_ttl r"
proof -
  let ?a = "min_ttl_of (- 1) (m_answers msg)"
  let ?n = "min_ttl_of ?a (m_ns msg)"
  let ?m = "min_ttl_of ?n (m_add msg)"
  have "?m \<le> ?n" "?n \<le> ?a" by (rule min_ttl_of_le)+
  with assms have le: "?m \<le> rr_ttl r"
    by (auto dest: min_ttl_of_record [where i = "- 1"] min_ttl_of_record [where i = ?a] min_ttl_of_record [where i = ?n]
        intro: order_trans)
  show ?thesis
  proof (cases "?m = - 1")
    case True
    with le have "rr_ttl r = - 1" using word_max_le by simp
    then show ?thesis by simp
  next
    case False
    with le show ?thesis by (simp add: calculate_min_ttl_def min.coboundedI1)
  qed
qed

lemma delegation_ttl_record:
  assumes "r \<in> set (m_ns msg @ m_add msg)"
  shows "unat (delegation_ttl msg) \<le> unat (rr_ttl r)"
proof -
  let ?n = "min_ttl_of (- 1) (m_ns msg)"
  let ?m = "min_ttl_of ?n (m_add msg)"
  have "?m \<le> ?n" by (rule min_ttl_of_le)
  with assms have le: "?m \<le> rr_ttl r"
    by (auto dest: min_ttl_of_record [where i = "- 1"] min_ttl_of_record [where i = ?n] intro: order_trans)
  show ?thesis
  proof (cases "?m = - 1")
    case True
    with le have "rr_ttl r = - 1" using word_max_le by simp
    then show ?thesis
      by (simp add: delegation_ttl_def True MIN_DELEGATION_TTL_def unsigned_minus_1_eq_mask mask_eq_exp_minus_1)
  next
    case False
    have "unat (ucast ?m :: u64) = unat ?m"
      by (simp add: unsigned_ucast_eq take_bit_nat_eq_self less_le_trans [OF unsigned_less])
    with False le show ?thesis
      by (simp add: delegation_ttl_def Let_def min_def word_le_nat_alt)
  qed
qed

text \<open>
  TTLs derived from a response never outlive it: the cache TTL is at most a day and at most
  the TTL of every record of the message, the delegation TTL at most two days and at most the
  TTL of every authority and additional record.
\<close>

lemma response_ttl_bounds:
  "calculate_min_ttl msg \<le> 86400 \<and> unat (delegation_ttl msg) \<le> 172800 \<and>
   (\<forall>r \<in> set (m_answers msg @ m_ns msg @ m_add msg). calculate_min_ttl msg \<le> rr_ttl r) \<and>
   (\<forall>r \<in> set (m_ns msg @ m_add msg). unat (delegation_ttl msg) \<le> unat (rr_ttl r))"
proof -
  have "calculate_min_ttl msg \<le> 86400"
    by (auto simp: calculate_min_ttl_def Let_def)
  moreover have "delegation_ttl msg \<le> 172800"
    by (auto simp: delegation_ttl_def Let_def MIN_DELEGATION_TTL_def MAX_DELEGATION_TTL_def)
  then have "unat (delegation_ttl msg) \<le> 172800" by (simp add: word_le_nat_alt)
  ultimately show ?thesis using calculate_min_ttl_record delegation_ttl_record by blast
qed

section \<open>Cache lookups\<close>

lemma find_map_first:
  "find_map f xs = Some y \<longleftrightarrow> (\<exists>pre x post. xs = pre @ x # post \<and> f x = Some y \<and> (\<forall>z \<in> set pre. f z = None))"
proof (induction xs)
  case (Cons x xs)
  show ?case
  proof (cases "f x")
    case None
    show ?thesis
    proof
      assume "find_map f (x # xs) = Some y"
      with None Cons.IH obtain pre x' post where "xs = pre @ x' # post" "f x' = Some y" "\<forall>z \<in> set pre. f z = None"
        by auto
      with None show "\<exists>pre x' post. x # xs = pre @ x' # post \<and> f x' = Some y \<and> (\<forall>z \<in> set pre. f z = None)"
        by (intro exI [of _ "x # pre"] exI [of _ x'] exI [of _ post]) simp
    next
      assume "\<exists>pre x' post. x # xs = pre @ x' # post \<and> f x' = Some y \<and> (\<forall>z \<in> set pre. f z = None)"
      then obtain pre x' post where p: "x # xs = pre @ x' # post" "f x' = Some y" "\<forall>z \<in> set pre. f z = None"
        by blast
      with None obtain pre' where "pre = x # pre'" by (cases pre) auto
      with p None Cons.IH show "find_map f (x # xs) = Some y" by auto
    qed
  next
    case (Some w)
    then have "find_map f (x # xs) = Some y \<longleftrightarrow> w = y" by simp
    also have "\<dots> \<longleftrightarrow> (\<exists>pre x' post. x # xs = pre @ x' # post \<and> f x' = Some y \<and> (\<forall>z \<in> set pre. f z = None))"
    proof
      assume "w = y"
      with Some show "\<exists>pre x' post. x # xs = pre @ x' # post \<and> f x' = Some y \<and> (\<forall>z \<in> set pre. f z = None)"
        by (intro exI [of _ "[]"] exI [of _ x] exI [of _ xs]) simp
    qed (use Some in \<open>auto simp: Cons_eq_append_conv\<close>)
    finally show ?thesis .
  qed
qed simp

lemma dm_get_purge_walk:
  "dm_ok cache \<Longrightarrow> dm_get (purge_walk L cache ns) k = Some e \<Longrightarrow> dm_get cache k = Some e"
  by (induction ns) (auto simp: dm_simps split: if_splits)

lemma dm_ok_purge_walk: "dm_ok cache \<Longrightarrow> dm_ok (purge_walk L cache ns)"
  by (induction ns) (auto simp: dm_simps)

lemma purge_walk_hit:
  "dm_ok cache \<Longrightarrow> n \<in> set ns \<Longrightarrow> dm_get cache (name_key L n) \<noteq> None \<Longrightarrow>
   \<exists>n' \<in> set ns. dm_get cache (name_key L n') \<noteq> None \<and> dm_get (purge_walk L cache ns) (name_key L n') = None"
  by (induction ns) (auto simp: dm_simps)

text \<open>
  \<open>find_cached_start\<close> returns the servers of the closest enclosing zone with a live
  entry: the entry of some ancestor of the name (of its parent, for DS), not expired, while no
  name below that ancestor on the way has a live one; and it returns nothing only when no
  ancestor up to the root has one.
\<close>

lemma find_cached_start_closest:
  shows "find_cached_start L cache now name rtype = Some ips \<longleftrightarrow>
    (\<exists>below zone above e. name_walk L (lookup_start L name rtype) = below @ zone # above \<and>
       dm_get cache (name_key L zone) = Some e \<and> now < de_expires_at e \<and> ips = de_servers e \<and>
       (\<forall>n \<in> set below. \<forall>e'. dm_get cache (name_key L n) = Some e' \<longrightarrow> de_expires_at e' \<le> now))"
proof -
  have live: "live_servers L cache now n = Some s \<longleftrightarrow>
      (\<exists>e. dm_get cache (name_key L n) = Some e \<and> now < de_expires_at e \<and> s = de_servers e)" for n s
    by (auto simp: live_servers_def split: option.splits if_splits)
  have dead: "live_servers L cache now n = None \<longleftrightarrow>
      (\<forall>e'. dm_get cache (name_key L n) = Some e' \<longrightarrow> de_expires_at e' \<le> now)" for n
    by (auto simp: live_servers_def split: option.splits if_splits)
  show ?thesis unfolding find_cached_start_def find_map_first live dead by blast
qed

definition com_cache :: delegation_cache where
  "com_cache = [(''com.'', \<lparr>de_servers = [V4 5], de_expires_at = 10, de_source = Dynamic\<rparr>)]"

section \<open>The address filter\<close>

lemma unat_octet:
  "i \<le> 3 \<Longrightarrow> unat (octet a i) = unat a div 2 ^ (24 - 8 * i) mod 256"
  by (simp add: octet_def and_low_bits unat_take_bit unat_drop_bit)

lemma octet_val:
  "unat (octet a 0) = unat a div 16777216" "unat (octet a 1) = unat a div 65536 mod 256"
  "unat (octet a 2) = unat a div 256 mod 256" "unat (octet a 3) = unat a mod 256"
proof -
  have "unat a < 2 ^ 32" using unsigned_less [of a, where 'a = nat] by simp
  then have "unat a div 16777216 < 256" by (simp add: div_less_iff_less_mult)
  then show "unat (octet a 0) = unat a div 16777216"
    by (simp add: unat_octet)
qed (simp_all add: unat_octet)

lemma octet_eq_iff: "octet a i = numeral n \<longleftrightarrow> unat (octet a i) = unat (numeral n :: u32)"
  "octet a i = 0 \<longleftrightarrow> unat (octet a i) = 0"
  by (simp_all add: word_unat_eq_iff)

lemma and_C0: "(w :: u32) AND 0xC0 = 0x40 \<longleftrightarrow> unat w div 64 mod 4 = 1"
proof -
  have "(0xC0 :: u32) = push_bit 6 (mask 2)" by (simp add: mask_eq_exp_minus_1 push_bit_eq_mult)
  moreover have "w AND push_bit 6 (mask 2) = push_bit 6 (take_bit 2 (drop_bit 6 w))"
    by (rule bit_word_eqI) (auto simp: bit_simps)
  ultimately have "w AND 0xC0 = push_bit 6 (take_bit 2 (drop_bit 6 w))" by simp
  moreover have "(0x40 :: u32) = push_bit 6 1" by (simp add: push_bit_eq_mult)
  moreover have "push_bit 6 (take_bit 2 (drop_bit 6 w)) = push_bit 6 (1 :: u32) \<longleftrightarrow> take_bit 2 (drop_bit 6 w) = 1"
  proof
    assume "push_bit 6 (take_bit 2 (drop_bit 6 w)) = push_bit 6 (1 :: u32)"
    then have "drop_bit 6 (push_bit 6 (take_bit 2 (drop_bit 6 w))) = drop_bit 6 (push_bit 6 (1 :: u32))" by simp
    moreover have "drop_bit 6 (push_bit 6 (take_bit 2 (drop_bit 6 w))) = take_bit 2 (drop_bit 6 w)"
      by (intro bit_word_eqI) (auto simp: bit_simps)
    ultimately show "take_bit 2 (drop_bit 6 w) = 1" by simp
  qed simp
  moreover have "take_bit 2 (drop_bit 6 w) = 1 \<longleftrightarrow> unat w div 64 mod 4 = 1"
    by (simp add: word_unat_eq_iff unat_take_bit unat_drop_bit)
  ultimately show ?thesis by simp
qed

text \<open>An IPv4 block as network address and prefix length, and the special-purpose blocks.\<close>

definition in_block :: "u32 \<Rightarrow> u32 \<times> nat \<Rightarrow> bool" where
  "in_block a b = (drop_bit (32 - snd b) a = drop_bit (32 - snd b) (fst b))"

definition special_v4_blocks :: "(u32 \<times> nat) list" where
  "special_v4_blocks =
     [(ipv4_new 0 0 0 0, 8), (ipv4_new 10 0 0 0, 8), (ipv4_new 100 64 0 0, 10), (ipv4_new 127 0 0 0, 8),
      (ipv4_new 169 254 0 0, 16), (ipv4_new 172 16 0 0, 12), (ipv4_new 192 0 2 0, 24),
      (ipv4_new 192 168 0 0, 16), (ipv4_new 198 18 0 0, 15), (ipv4_new 198 51 100 0, 24),
      (ipv4_new 203 0 113 0, 24), (ipv4_new 224 0 0 0, 4), (ipv4_new 255 255 255 255, 32)]"

lemma in_block_div: "in_block a (n, len) \<longleftrightarrow> unat a div 2 ^ (32 - len) = unat n div 2 ^ (32 - len)"
  by (simp add: in_block_def word_unat_eq_iff unat_drop_bit)

lemma special_v4_blocks_eq: "special_v4_blocks =
  [(0, 8), (167772160, 8), (1681915904, 10), (2130706432, 8), (2851995648, 16), (2886729728, 12), (3221225984, 24),
   (3232235520, 16), (3323068416, 15), (3325256704, 24), (3405803776, 24), (3758096384, 4), (4294967295, 32)]"
  by (simp add: special_v4_blocks_def ipv4_new_def)

lemma four_octets:
  fixes a :: u32
  obtains p q r s :: nat where "p < 256" "q < 256" "r < 256" "s < 256" "unat a = ((p * 256 + q) * 256 + r) * 256 + s"
    "unat (octet a 0) = p" "unat (octet a 1) = q" "unat (octet a 2) = r" "unat (octet a 3) = s"
proof
  have x: "unat a < 2 ^ 32" using unsigned_less [of a, where 'a = nat] by simp
  show "unat a div 16777216 < 256" using x by (simp add: div_less_iff_less_mult)
  show "unat a = ((unat a div 16777216 * 256 + unat a div 65536 mod 256) * 256 + unat a div 256 mod 256) * 256 + unat a mod 256"
  proof -
    have "unat a div 65536 = unat a div 16777216 * 256 + unat a div 65536 mod 256"
      and "unat a div 256 = unat a div 65536 * 256 + unat a div 256 mod 256"
      and "unat a = unat a div 256 * 256 + unat a mod 256"
      using div_mult_mod_eq [of "unat a div 65536" 256] div_mult_mod_eq [of "unat a div 256" 256]
      by (simp_all add: div_mult2_eq [symmetric])
    then show ?thesis by metis
  qed
qed (rule octet_val | rule mod_less_divisor, simp)+

lemma in_block_octets:
  fixes a :: u32
  assumes "unat (octet a 0) = p" "unat (octet a 1) = q" "unat (octet a 2) = r" "unat (octet a 3) = s"
    and v: "unat a = ((p * 256 + q) * 256 + r) * 256 + s" and b: "q < 256" "r < 256" "s < 256"
  shows "unat a div 16777216 = p" "unat a div 65536 = p * 256 + q" "unat a div 256 = (p * 256 + q) * 256 + r"
    "unat a div 4194304 = p * 4 + q div 64" "unat a div 1048576 = p * 16 + q div 16"
    "unat a div 131072 = p * 128 + q div 2" "unat a div 268435456 = p div 16"
proof -
  show 1: "unat a div 256 = (p * 256 + q) * 256 + r" using v b by simp
  have "unat a div 65536 = unat a div 256 div 256" by (simp add: div_mult2_eq [symmetric])
  then show 2: "unat a div 65536 = p * 256 + q" using 1 b by simp
  have "unat a div 16777216 = unat a div 65536 div 256" by (simp add: div_mult2_eq [symmetric])
  then show 3: "unat a div 16777216 = p" using 2 b by simp
  have "unat a div 4194304 = unat a div 65536 div 64" "unat a div 1048576 = unat a div 65536 div 16"
    "unat a div 131072 = unat a div 65536 div 2" "unat a div 268435456 = unat a div 16777216 div 16"
    by (simp_all add: div_mult2_eq [symmetric])
  then show "unat a div 4194304 = p * 4 + q div 64" "unat a div 1048576 = p * 16 + q div 16"
    "unat a div 131072 = p * 128 + q div 2" "unat a div 268435456 = p div 16"
    using 2 3 div_mult_self3 [of 64 "p * 4" q] div_mult_self3 [of 16 "p * 16" q] div_mult_self3 [of 2 "p * 128" q]
    by (simp_all add: ac_simps)
qed

lemma digits_eq: "d < b \<Longrightarrow> p * b + d = N \<longleftrightarrow> p = N div b \<and> d = N mod (b :: nat)"
  by auto

lemma digits3_eq:
  assumes "r < b" "q < b"
  shows "(p * b + q) * b + r = N \<longleftrightarrow> p = N div b div b \<and> q = N div b mod b \<and> r = N mod (b :: nat)"
  using assms by (simp only: digits_eq) auto

lemma safe_v4_blocks:
  "is_safe_upstream_v4 a \<longleftrightarrow> \<not> (\<exists>b \<in> set special_v4_blocks. in_block a b)"
proof -
  obtain p q r s :: nat where b: "p < 256" "q < 256" "r < 256" "s < 256"
    and v: "unat a = ((p * 256 + q) * 256 + r) * 256 + s"
    and o: "unat (octet a 0) = p" "unat (octet a 1) = q" "unat (octet a 2) = r" "unat (octet a 3) = s"
    by (rule four_octets)
  note d = in_block_octets [OF o v b(2-4)]
  have blocks: "(\<exists>b \<in> set special_v4_blocks. in_block a b) \<longleftrightarrow>
      p = 0 \<or> p = 10 \<or> p * 4 + q div 64 = 401 \<or> p = 127 \<or> p * 256 + q = 43518 \<or> p * 16 + q div 16 = 2753 \<or>
      (p * 256 + q) * 256 + r = 12582914 \<or> p * 256 + q = 49320 \<or> p * 128 + q div 2 = 25353 \<or>
      (p * 256 + q) * 256 + r = 12989284 \<or> (p * 256 + q) * 256 + r = 13303921 \<or> p div 16 = 14 \<or>
      unat a = 4294967295"
    unfolding special_v4_blocks_eq by (simp add: in_block_div d)
  have e: "p * 4 + q div 64 = 401 \<longleftrightarrow> p = 100 \<and> q div 64 mod 4 = 1" "p * 256 + q = 43518 \<longleftrightarrow> p = 169 \<and> q = 254"
    "p * 16 + q div 16 = 2753 \<longleftrightarrow> p = 172 \<and> 16 \<le> q \<and> q \<le> 31" "p * 256 + q = 49320 \<longleftrightarrow> p = 192 \<and> q = 168"
    "p * 128 + q div 2 = 25353 \<longleftrightarrow> p = 198 \<and> (q = 18 \<or> q = 19)"
    "(p * 256 + q) * 256 + r = 12582914 \<longleftrightarrow> p = 192 \<and> q = 0 \<and> r = 2"
    "(p * 256 + q) * 256 + r = 12989284 \<longleftrightarrow> p = 198 \<and> q = 51 \<and> r = 100"
    "(p * 256 + q) * 256 + r = 13303921 \<longleftrightarrow> p = 203 \<and> q = 0 \<and> r = 113"
    "p div 16 = 14 \<longleftrightarrow> 224 \<le> p \<and> p \<le> 239"
  proof -
    have "q div 64 < 4" "q div 16 < 16" "q div 2 < 128" using b by simp_all
    moreover have "q div 64 mod 4 = q div 64" using b by simp
    moreover have "q div 16 = 1 \<longleftrightarrow> 16 \<le> q \<and> q \<le> 31" "q div 2 = 9 \<longleftrightarrow> q = 18 \<or> q = 19"
      "p div 16 = 14 \<longleftrightarrow> 224 \<le> p \<and> p \<le> 239" by linarith+
    ultimately show "p * 4 + q div 64 = 401 \<longleftrightarrow> p = 100 \<and> q div 64 mod 4 = 1" "p * 256 + q = 43518 \<longleftrightarrow> p = 169 \<and> q = 254"
      "p * 16 + q div 16 = 2753 \<longleftrightarrow> p = 172 \<and> 16 \<le> q \<and> q \<le> 31" "p * 256 + q = 49320 \<longleftrightarrow> p = 192 \<and> q = 168"
      "p * 128 + q div 2 = 25353 \<longleftrightarrow> p = 198 \<and> (q = 18 \<or> q = 19)"
      "(p * 256 + q) * 256 + r = 12582914 \<longleftrightarrow> p = 192 \<and> q = 0 \<and> r = 2"
      "(p * 256 + q) * 256 + r = 12989284 \<longleftrightarrow> p = 198 \<and> q = 51 \<and> r = 100"
      "(p * 256 + q) * 256 + r = 13303921 \<longleftrightarrow> p = 203 \<and> q = 0 \<and> r = 113"
      "p div 16 = 14 \<longleftrightarrow> 224 \<le> p \<and> p \<le> 239"
      using b digits3_eq [OF b(3,2), of p 12582914] digits3_eq [OF b(3,2), of p 12989284] digits3_eq [OF b(3,2), of p 13303921]
      by (simp_all add: digits_eq)
  qed
  have z: "a = 0 \<Longrightarrow> p = 0" using o by (auto simp: octet_def)
  show ?thesis unfolding blocks e
    unfolding is_safe_upstream_v4_def v4_is_private_def is_loopback_def ip_addr.case v4_is_link_local_def
      v4_is_documentation_def v4_is_multicast_def and_C0 octet_eq_iff word_le_nat_alt o
    using z by (simp add: word_unat_eq_iff)
qed

lemma mapped_segments:
  assumes "to_ipv4_mapped a = Some v"
  shows "segment a 0 = 0" "segment a 1 = 0" "segment a 2 = 0" "segment a 3 = 0" "segment a 4 = 0" "segment a 5 = 0xFFFF"
    "ipv4_new (ucast (drop_bit 8 (segment a 6))) (ucast (segment a 6 AND 0xFF))
       (ucast (drop_bit 8 (segment a 7))) (ucast (segment a 7 AND 0xFF)) = v" "a \<noteq> 0" "a \<noteq> 1"
proof -
  from assms have d: "drop_bit 32 a = 0xFFFF" and v: "v = ucast a"
    by (auto simp: to_ipv4_mapped_def split: if_splits)
  have "drop_bit (32 + k) a = drop_bit k (drop_bit 32 a)" for k by (simp add: ac_simps)
  from this [of 80] this [of 64] this [of 48] this [of 32] this [of 16]
  show "segment a 0 = 0" "segment a 1 = 0" "segment a 2 = 0" "segment a 3 = 0" "segment a 4 = 0" "segment a 5 = 0xFFFF"
    by (simp_all add: segment_def d)
  show "a \<noteq> 0" "a \<noteq> 1" using d by auto
  show "ipv4_new (ucast (drop_bit 8 (segment a 6))) (ucast (segment a 6 AND 0xFF))
       (ucast (drop_bit 8 (segment a 7))) (ucast (segment a 7 AND 0xFF)) = v"
    unfolding v ipv4_new_def segment_def and_low_bits
    apply (rule bit_word_eqI)
    apply (auto simp: bit_simps)
    subgoal for n by (cases "16 \<le> n") simp_all
    subgoal for n by (cases "24 \<le> n"; cases "16 \<le> n") simp_all
    done
qed

text \<open>
  C27. The SSRF filter for upstream addresses, octet tests of the code and of the standard library
  included, refuses an IPv4 address exactly when it lies in one of the thirteen special-purpose
  blocks, and an IPv4-mapped IPv6 address exactly when the IPv4 address in it is refused.
\<close>

theorem is_safe_upstream_ip_blocks:
  "(is_safe_upstream_ip (V4 a) \<longleftrightarrow> \<not> (\<exists>b \<in> set special_v4_blocks. in_block a b)) \<and>
   (to_ipv4_mapped b = Some v \<longrightarrow> is_safe_upstream_ip (V6 b) = is_safe_upstream_ip (V4 v))"
proof -
  have "is_safe_upstream_v6 b = is_safe_upstream_v4 v" if "to_ipv4_mapped b = Some v"
    using mapped_segments [OF that] by (simp add: is_safe_upstream_v6_def is_loopback_def)
  then show ?thesis by (simp add: is_safe_upstream_ip_def safe_v4_blocks)
qed

theorem is_safe_upstream_ip_blocks_witness:
  "\<not> is_safe_upstream_ip (V6 0xFFFF0A000001) \<and> is_safe_upstream_ip (V6 0xFFFF08080808)"
proof -
  have "to_ipv4_mapped 0xFFFF0A000001 = Some 0x0A000001" "to_ipv4_mapped 0xFFFF08080808 = Some 0x08080808"
    by (simp_all add: to_ipv4_mapped_def)
  then show ?thesis
    using is_safe_upstream_ip_blocks [of "0x0A000001" "0xFFFF0A000001" "0x0A000001"]
      is_safe_upstream_ip_blocks [of "0x08080808" "0xFFFF08080808" "0x08080808"]
    by (simp add: special_v4_blocks_eq in_block_def)
qed

lemma filter_safe_ips_safe: "ip \<in> set (filter_safe_ips ips) \<Longrightarrow> is_safe_upstream_ip ip"
  by (simp add: filter_safe_ips_def)

section \<open>Redirections\<close>

text \<open>
  A successful DNAME substitution replaces the owner suffix: the lower-cased query name is
  a prefix followed by the lower-cased owner, the result is the name parsed from that prefix
  followed by the target, and it respects the limits of 255 characters and 63 per label. A
  failure is FORMERR when the name is not strictly below the owner and YXDOMAIN otherwise.
\<close>

lemma dname_substitute_spec:
  "case dname_substitute L name owner target of
     Inr n \<Rightarrow> n_zone_of L owner name \<and> \<not> n_eq L owner name \<and>
       (\<exists>prefix. name_key L name = prefix @ name_key L owner \<and>
          n_from_str L (prefix @ n_to_string L target) = Some n \<and>
          length (prefix @ n_to_string L target) \<le> 255 \<and>
          (\<forall>label \<in> set (split_on (CHR ''.'') (trim_end_matches (CHR ''.'') (prefix @ n_to_string L target))).
             length label \<le> 63))
   | Inl e \<Rightarrow> e = FormErr \<and> \<not> (n_zone_of L owner name \<and> \<not> n_eq L owner name \<and> ends_with (name_key L name) (name_key L owner))
       \<or> e = YXDomain \<and> n_zone_of L owner name \<and> \<not> n_eq L owner name"
proof (cases "n_zone_of L owner name \<and> \<not> n_eq L owner name \<and> ends_with (name_key L name) (name_key L owner)")
  case False
  then show ?thesis by (auto simp: dname_substitute_def Let_def)
next
  case True
  let ?p = "take (length (name_key L name) - length (name_key L owner)) (name_key L name)"
  from True have "name_key L name = ?p @ name_key L owner"
    by (metis append_take_drop_id ends_with_def)
  with True show ?thesis
    by (auto simp: dname_substitute_def Let_def not_less split: option.splits)
qed

lemma add_new_Cons:
  "add_new L base (r # rs) = add_new L (if \<exists>e \<in> set base. rr_eq L e r then base else base @ [r]) rs"
  by (simp add: add_new_def)

lemma add_new_extra: "\<exists>extra. add_new L base rs = base @ extra \<and> set extra \<subseteq> set rs"
proof (induction rs arbitrary: base)
  case (Cons r rs)
  show ?case
  proof (cases "\<exists>e \<in> set base. rr_eq L e r")
    case True
    with Cons.IH [of base] show ?thesis unfolding add_new_Cons by auto
  next
    case False
    from Cons.IH [of "base @ [r]"] obtain extra where
      "add_new L (base @ [r]) rs = (base @ [r]) @ extra" "set extra \<subseteq> set rs" by blast
    with False show ?thesis unfolding add_new_Cons by (intro exI [of _ "r # extra"]) auto
  qed
qed (simp add: add_new_def)

lemma add_new_base: "x \<in> set base \<Longrightarrow> x \<in> set (add_new L base rs)"
  using add_new_extra [of L base rs] by auto

lemma add_new_all: "r \<in> set rs \<Longrightarrow> \<exists>e \<in> set (add_new L base rs). e = r \<or> rr_eq L e r"
proof (induction rs arbitrary: base)
  case (Cons r' rs)
  let ?base = "if \<exists>e \<in> set base. rr_eq L e r' then base else base @ [r']"
  show ?case
  proof (cases "r = r'")
    case True
    then have "\<exists>e \<in> set ?base. e = r \<or> rr_eq L e r" by auto
    then obtain e where "e \<in> set ?base" "e = r \<or> rr_eq L e r" by blast
    then show ?thesis unfolding add_new_Cons using add_new_base by blast
  next
    case False
    with Cons.prems have "r \<in> set rs" by simp
    then show ?thesis unfolding add_new_Cons by (rule Cons.IH)
  qed
qed simp

text \<open>
  Following an alias loses nothing: the merged response asks the original question, keeps the
  answers of the first hop in front, contains every answer of the target response (up to record
  equality) and invents none, carries the target's response code and every authority record
  of the target, and has no OPT record among its additional records.
\<close>

lemma merge_redirection_response_spec:
  fixes L :: "'n lib" and name rtype first final
  assumes "fresh_message L"
  defines "m \<equiv> merge_redirection_response L name rtype first final"
  shows "m_queries m = [\<lparr>q_name = name, q_type = rtype, q_class = IN\<rparr>] \<and> m_rcode m = m_rcode final \<and>
    (\<exists>extra. m_answers m = m_answers first @ extra \<and> set extra \<subseteq> set (m_answers final)) \<and>
    (\<forall>r \<in> set (m_answers final). \<exists>e \<in> set (m_answers m). e = r \<or> rr_eq L e r) \<and>
    set (m_ns final) \<subseteq> set (m_ns m) \<and> (\<forall>r \<in> set (m_add m). rr_type r \<noteq> RT_OPT)"
proof -
  let ?D = "filter (\<lambda>r. rr_type r \<in> {RT_RRSIG, RT_DNSKEY}) (m_add first)"
  let ?F = "filter (\<lambda>r. rr_type r \<noteq> RT_OPT) (m_add final)"
  from assms have sel: "m_queries m = [\<lparr>q_name = name, q_type = rtype, q_class = IN\<rparr>]" "m_rcode m = m_rcode final"
    "m_answers m = add_new L (m_answers first) (m_answers final)"
    "m_ns m = add_new L (m_ns final) (filter (\<lambda>r. rr_type r \<in> {RT_NSEC, RT_NSEC3, RT_RRSIG}) (m_ns first))"
    "m_add m = add_new L ?F ?D"
    by (simp_all add: merge_redirection_response_def fresh_message_def Let_def)
  obtain extra where "add_new L ?F ?D = ?F @ extra" "set extra \<subseteq> set ?D"
    using add_new_extra [of L ?F ?D] by blast
  then have opt: "\<forall>r \<in> set (m_add m). rr_type r \<noteq> RT_OPT" using sel(5) by auto
  have "\<forall>r \<in> set (m_answers final). \<exists>e \<in> set (m_answers m). e = r \<or> rr_eq L e r"
    unfolding sel(3) by (blast intro: add_new_all)
  moreover have "set (m_ns final) \<subseteq> set (m_ns m)" unfolding sel(4) by (blast intro: add_new_base)
  ultimately show ?thesis using sel(1,2) opt add_new_extra [of L "m_answers first" "m_answers final"]
    unfolding sel(3) by blast
qed

end
