(* ===== verification/Recursor.thy ===== *)
theory Recursor
  imports Delegation
begin

text \<open>
  The iterative resolver: \<open>query_socket\<close> and \<open>query_servers_with_fallback\<close> of
  \<open>src/recursor/upstream.rs\<close>, and \<open>RecursiveResolver\<close> of \<open>src/recursor/mod.rs\<close>.

  The network is the parameter \<open>net\<close>: the clock, the random transaction id, the shuffle of
  the server list, one UDP and one TCP exchange with an address (every server is asked on port
  53, so an address stands for a socket address), and the order in which the concurrent
  queries of a chunk finish. All of them read or change an abstract state \<open>'s\<close>. The
  resolver's own state is its delegation cache.

  \<open>resolve_internal\<close> calls itself with a depth that grows by one and gives up past
  \<open>MAX_DEPTH = 16\<close>; the model recurses over the fuel \<open>17 - depth\<close>, so fuel 0 is the
  source's depth error. Its loop of \<open>MAX_STEPS = 16\<close> rounds recurses over the rounds left. The
  body of a round is split at the numbered comments of the source: answers and aliases,
  terminal responses, referral, glue, nameserver addresses. The inner \<open>loop\<close> along a CNAME
  chain has no bound in the source; \<open>cname_follow\<close> is total because every turn adds a
  target of the answer section to the set of seen names.

  Lemmas: only safe addresses are contacted and only matching responses accepted; what an
  accepted referral looks like; the cache gains safe dynamic entries only; the response of
  \<open>resolve\<close> carries the question asked.
\<close>

datatype recursor_error = DepthExceeded | StepLimitExceeded | AllNameserversFailed
  | GlueResolutionFailed | NoProgress | Io | Proto | Decode

datatype udp_out = Udp_Bind_Error | Udp_Connect_Error | Udp_Io_Error | Udp_Timeout | Udp_Datagram bytes

datatype tcp_out = Tcp_Timeout | Tcp_Connect_Error | Tcp_Io_Error | Tcp_Stream bytes

record ('n, 's) net =
  net_now :: "'s \<Rightarrow> u64"
  net_txid :: "'s \<Rightarrow> u16 \<times> 's"
  net_shuffle :: "'s \<Rightarrow> ip_addr list \<Rightarrow> ip_addr list \<times> 's"
  net_udp :: "'s \<Rightarrow> ip_addr \<Rightarrow> bytes \<Rightarrow> udp_out \<times> 's"
  net_tcp :: "'s \<Rightarrow> ip_addr \<Rightarrow> bytes \<Rightarrow> tcp_out \<times> 's"
  net_join :: "'s \<Rightarrow> (recursor_error + 'n message) list \<Rightarrow> (recursor_error + 'n message) list"

section \<open>One upstream query\<close>

definition upstream_query :: "'n lib \<Rightarrow> u16 \<Rightarrow> 'n \<Rightarrow> rtype \<Rightarrow> 'n message" where
  "upstream_query L txid name rtype =
     (let m = msg_new L in m\<lparr>m_id := txid, m_type := MT_Query, m_opcode := OC_Query, m_rd := False, m_cd := True,
        m_edns := Some ((edns_new L)\<lparr>e_max_payload := 1232, e_dnssec_ok := True\<rparr>),
        m_queries := m_queries m @ [\<lparr>q_name = name, q_type = rtype, q_class = IN\<rparr>]\<rparr>)"

text \<open>Reading one length-prefixed frame from the stream.\<close>

definition tcp_read_frame :: "bytes \<Rightarrow> recursor_error + bytes" where
  "tcp_read_frame stream =
     (case stream of
        b0 # b1 # rest \<Rightarrow>
          (let resp_len = unat b0 * 256 + unat b1 in
           if \<not> (12 \<le> resp_len \<and> resp_len \<le> 65535) then Inl Proto
           else if length rest < resp_len then Inl Io
           else Inr (take resp_len rest))
      | _ \<Rightarrow> Inl Io)"

definition tcp_retry :: "'n lib \<Rightarrow> ('n, 's) net \<Rightarrow> ip_addr \<Rightarrow> bytes \<Rightarrow> 's \<Rightarrow> (recursor_error + 'n message) \<times> 's" where
  "tcp_retry L N addr req s =
     (case net_tcp N s addr (of_nat (length req div 256) # of_nat (length req) # req) of
        (Tcp_Timeout, s') \<Rightarrow> (Inl AllNameserversFailed, s')
      | (Tcp_Connect_Error, s') \<Rightarrow> (Inl AllNameserversFailed, s')
      | (Tcp_Io_Error, s') \<Rightarrow> (Inl Io, s')
      | (Tcp_Stream bs, s') \<Rightarrow>
          (case tcp_read_frame bs of
             Inl e \<Rightarrow> (Inl e, s')
           | Inr frame \<Rightarrow>
               (case decode_response L frame of Some m \<Rightarrow> (Inr m, s') | None \<Rightarrow> (Inl Proto, s'))))"

definition query_socket ::
  "'n lib \<Rightarrow> ('n, 's) net \<Rightarrow> ip_addr \<Rightarrow> 'n \<Rightarrow> rtype \<Rightarrow> 's \<Rightarrow> (recursor_error + 'n message) \<times> 's" where
  "query_socket L N addr name rtype s =
     (if \<not> is_safe_upstream_ip addr then (Inl AllNameserversFailed, s)
      else let (txid, s1) = net_txid N s in
        case msg_to_bytes L (upstream_query L txid name rtype) of
          None \<Rightarrow> (Inl Proto, s1)
        | Some req \<Rightarrow>
          (case net_udp N s1 addr req of
             (Udp_Bind_Error, s2) \<Rightarrow> (Inl AllNameserversFailed, s2)
           | (Udp_Connect_Error, s2) \<Rightarrow> (Inl AllNameserversFailed, s2)
           | (Udp_Io_Error, s2) \<Rightarrow> (Inl Io, s2)
           | (Udp_Timeout, s2) \<Rightarrow> (Inl AllNameserversFailed, s2)
           | (Udp_Datagram dgram, s2) \<Rightarrow>
             (case (case decode_response L (take 4096 dgram) of
                      Some resp \<Rightarrow> if m_rcode resp \<noteq> FormErr then (Inr resp, s2) else tcp_retry L N addr req s2
                    | None \<Rightarrow> tcp_retry L N addr req s2) of
                (Inl e, s3) \<Rightarrow> (Inl e, s3)
              | (Inr response, s3) \<Rightarrow>
                  if \<not> response_matches L response txid name rtype then (Inl AllNameserversFailed, s3)
                  else if m_tc response
                  then (case tcp_retry L N addr req s3 of
                          (Inl _, s4) \<Rightarrow> (Inl AllNameserversFailed, s4)
                        | (Inr tcp_response, s4) \<Rightarrow>
                            if \<not> response_matches L tcp_response txid name rtype
                            then (Inl AllNameserversFailed, s4) else (Inr tcp_response, s4))
                  else (Inr response, s3))))"

section \<open>Asking several servers\<close>

fun is_ipv4 :: "ip_addr \<Rightarrow> bool" where
  "is_ipv4 (V4 _) = True"
| "is_ipv4 (V6 _) = False"

fun chunks3 :: "'a list \<Rightarrow> 'a list list" where
  "chunks3 (a # b # c # rest) = [a, b, c] # chunks3 rest"
| "chunks3 [] = []"
| "chunks3 xs = [xs]"

fun run_chunk ::
  "'n lib \<Rightarrow> ('n, 's) net \<Rightarrow> 'n \<Rightarrow> rtype \<Rightarrow> ip_addr list \<Rightarrow> 's \<Rightarrow> (recursor_error + 'n message) list \<times> 's" where
  "run_chunk L N name rtype [] s = ([], s)"
| "run_chunk L N name rtype (a # as) s =
     (let (r, s1) = query_socket L N a name rtype s; (rs, s2) = run_chunk L N name rtype as s1 in (r # rs, s2))"

fun usable_response :: "recursor_error + 'n message \<Rightarrow> 'n message option" where
  "usable_response (Inl e) = None"
| "usable_response (Inr m) = (if m_rcode m = NoError \<or> m_rcode m = NXDomain then Some m else None)"

fun try_chunks ::
  "'n lib \<Rightarrow> ('n, 's) net \<Rightarrow> 'n \<Rightarrow> rtype \<Rightarrow> ip_addr list list \<Rightarrow> 's \<Rightarrow> 'n message option \<times> 's" where
  "try_chunks L N name rtype [] s = (None, s)"
| "try_chunks L N name rtype (c # cs) s =
     (let (results, s1) = run_chunk L N name rtype c s in
      case find_map usable_response (net_join N s1 results) of
        Some m \<Rightarrow> (Some m, s1)
      | None \<Rightarrow> try_chunks L N name rtype cs s1)"

definition query_servers_with_fallback ::
  "'n lib \<Rightarrow> ('n, 's) net \<Rightarrow> ip_addr list \<Rightarrow> 'n \<Rightarrow> rtype \<Rightarrow> 's \<Rightarrow> 'n message option \<times> 's" where
  "query_servers_with_fallback L N servers name rtype s =
     (if servers = [] then (None, s)
      else let (v4, s1) = net_shuffle N s (filter is_ipv4 servers);
               (v6, s2) = net_shuffle N s1 (filter (\<lambda>a. \<not> is_ipv4 a) servers)
           in try_chunks L N name rtype (chunks3 (v4 @ v6)) s2)"

section \<open>The resolver\<close>

definition MAX_DEPTH :: nat where "MAX_DEPTH = 16"
definition MAX_STEPS :: nat where "MAX_STEPS = 16"

record 's rstate =
  rs_cache :: delegation_cache
  rs_net :: 's

record 'n frame =
  fr_servers :: "ip_addr list"
  fr_using_cached :: bool
  fr_last_zone :: "'n option"
  fr_bailiwick :: 'n

type_synonym ('n, 's) outcome = "(recursor_error + 'n message) \<times> string set \<times> 's rstate"
type_synonym ('n, 's) resolver = "'n \<Rightarrow> rtype \<Rightarrow> string set \<Rightarrow> 's rstate \<Rightarrow> ('n, 's) outcome"

definition start_frame :: "'n lib \<Rightarrow> ('n, 's) net \<Rightarrow> 'n \<Rightarrow> rtype \<Rightarrow> 's rstate \<Rightarrow> 'n frame" where
  "start_frame L N name rtype st =
     (let (using_cached, servers) =
            (case find_cached_start L (rs_cache st) (net_now N (rs_net st)) name rtype of
               Some ips \<Rightarrow> if ips \<noteq> [] then (True, ips) else (False, ROOT_SERVERS)
             | None \<Rightarrow> (False, ROOT_SERVERS))
      in \<lparr>fr_servers = servers, fr_using_cached = using_cached, fr_last_zone = None, fr_bailiwick = n_root L\<rparr>)"

subsection \<open>Answers and aliases\<close>

definition has_answer :: "'n lib \<Rightarrow> 'n rr list \<Rightarrow> 'n \<Rightarrow> rtype \<Rightarrow> bool" where
  "has_answer L answers name rtype = (\<exists>r \<in> set answers. n_eq L (rr_name r) name \<and> rr_type r = rtype)"

datatype 'n cname_end = Cname_Loop | Cname_Answered | Cname_Target 'n

lemma find_cname_target_mem:
  "find_map (\<lambda>r. extract_cname_target L r cur) answers = Some t \<Longrightarrow> t \<in> set (filter_map (\<lambda>r. cname_of (rr_data r)) answers)"
  by (drule find_map_SomeD) (auto simp: extract_cname_target_def set_filter_map split: if_splits)

function cname_follow ::
  "'n lib \<Rightarrow> 'n rr list \<Rightarrow> rtype \<Rightarrow> string set \<Rightarrow> 'n \<Rightarrow> 'n cname_end" where
  "cname_follow L answers rtype seen cur =
     (if name_key L cur \<in> seen then Cname_Loop
      else if has_answer L answers cur rtype then Cname_Answered
      else (case find_map (\<lambda>r. extract_cname_target L r cur) answers of
              Some nxt \<Rightarrow> cname_follow L answers rtype (insert (name_key L cur) seen) nxt
            | None \<Rightarrow> Cname_Target cur))"
  by pat_completeness auto

termination cname_follow
proof (relation "measure (\<lambda>(L, answers, rtype, seen, cur).
    card (insert (name_key L cur) (name_key L ` set (filter_map (\<lambda>r. cname_of (rr_data r)) answers)) - seen))",
    goal_cases)
  case (2 L answers rtype seen cur nxt)
  let ?T = "name_key L ` set (filter_map (\<lambda>r. cname_of (rr_data r)) answers)"
  have "name_key L nxt \<in> ?T" using find_cname_target_mem [OF 2(3)] by blast
  then have sub: "insert (name_key L nxt) ?T - insert (name_key L cur) seen \<subseteq> (insert (name_key L cur) ?T - seen) - {name_key L cur}"
    by blast
  have "card (insert (name_key L nxt) ?T - insert (name_key L cur) seen) \<le> card ((insert (name_key L cur) ?T - seen) - {name_key L cur})"
    by (rule card_mono [OF _ sub]) simp
  also have "\<dots> < card (insert (name_key L cur) ?T - seen)"
    by (rule card_Diff1_less) (use 2(1) in auto)
  finally show ?case by simp
qed simp

declare cname_follow.simps [simp del]

definition follow_alias ::
  "'n lib \<Rightarrow> ('n, 's) resolver \<Rightarrow> 'n \<Rightarrow> rtype \<Rightarrow> string \<Rightarrow> 'n \<Rightarrow> 'n message \<Rightarrow> string set \<Rightarrow> 's rstate \<Rightarrow> ('n, 's) outcome" where
  "follow_alias L rec name rtype key target response visited st =
     (if key \<in> visited then (Inl NoProgress, visited, st)
      else (case rec target rtype (insert key visited) st of
              (Inl e, v, st') \<Rightarrow> (Inl e, v, st')
            | (Inr m, v, st') \<Rightarrow> (Inr (merge_redirection_response L name rtype response m), v, st')))"

definition dname_match :: "'n lib \<Rightarrow> 'n rr list \<Rightarrow> 'n \<Rightarrow> ('n \<times> 'n \<times> u32) option" where
  "dname_match L answers name =
     find_map (\<lambda>r. if rr_type r = DNAME_RECORD_TYPE \<and> n_zone_of L (rr_name r) name \<and> \<not> n_eq L (rr_name r) name
       then map_option (\<lambda>target. (rr_name r, target, rr_ttl r)) (extract_dname_target L r) else None) answers"

definition dname_phase ::
  "'n lib \<Rightarrow> ('n, 's) resolver \<Rightarrow> 'n \<Rightarrow> rtype \<Rightarrow> 'n \<times> 'n \<times> u32 \<Rightarrow> 'n message \<Rightarrow> string set \<Rightarrow> 's rstate \<Rightarrow> ('n, 's) outcome" where
  "dname_phase L rec name rtype dm response visited st =
     (case dm of (dname_owner, target, dname_ttl) \<Rightarrow>
       (case dname_substitute L name dname_owner target of
          Inr substituted \<Rightarrow>
            (let has_synth_cname = has_answer L (m_answers response) name RT_CNAME;
                 working = (if has_synth_cname then response
                   else response\<lparr>m_answers := m_answers response @ [rr_from_rdata L name dname_ttl (RD_CNAME substituted)]\<rparr>)
             in if has_answer L (m_answers working) substituted rtype then (Inr working, visited, st)
                else follow_alias L rec name rtype (''dname:'' @ name_key L substituted) substituted working visited st)
        | Inl YXDomain \<Rightarrow> (Inr (response\<lparr>m_rcode := YXDomain\<rparr>), visited, st)
        | Inl _ \<Rightarrow> (Inl NoProgress, visited, st)))"

text \<open>\<open>None\<close>: no relevant answer, the round goes on to the next phase.\<close>

definition answer_phase ::
  "'n lib \<Rightarrow> ('n, 's) resolver \<Rightarrow> 'n \<Rightarrow> rtype \<Rightarrow> 'n message \<Rightarrow> string set \<Rightarrow> 's rstate \<Rightarrow> ('n, 's) outcome option" where
  "answer_phase L rec name rtype response visited st =
     (if m_answers response = [] then None
      else if has_answer L (m_answers response) name rtype then Some (Inr response, visited, st)
      else (case find_map (\<lambda>r. extract_cname_target L r name) (m_answers response) of
              Some first_target \<Rightarrow>
                (case cname_follow L (m_answers response) rtype {name_key L name} first_target of
                   Cname_Loop \<Rightarrow> Some (Inl NoProgress, visited, st)
                 | Cname_Answered \<Rightarrow> Some (Inr response, visited, st)
                 | Cname_Target target \<Rightarrow>
                     Some (follow_alias L rec name rtype (''cname:'' @ name_key L target) target response visited st))
            | None \<Rightarrow>
                (case dname_match L (m_answers response) name of
                   Some dm \<Rightarrow> Some (dname_phase L rec name rtype dm response visited st)
                 | None \<Rightarrow> None)))"

subsection \<open>Terminal responses and referrals\<close>

fun is_soa :: "'n rdata \<Rightarrow> bool" where
  "is_soa (RD_SOA _) = True"
| "is_soa _ = False"

definition soa_terminal :: "'n lib \<Rightarrow> 'n \<Rightarrow> rtype \<Rightarrow> 'n message \<Rightarrow> bool" where
  "soa_terminal L name rtype response =
     (case List.find (\<lambda>r. is_soa (rr_data r)) (m_ns response) of
        None \<Rightarrow> False
      | Some r \<Rightarrow>
          (let soa_zone = rr_name r in
           n_zone_of L soa_zone name \<or> n_eq L soa_zone name \<or>
           (rtype = RT_DS \<and> (n_zone_of L name soa_zone \<or> n_zone_of L soa_zone name))))"

definition aa_terminal :: "'n message \<Rightarrow> bool" where
  "aa_terminal response \<longleftrightarrow> m_aa response \<and> (m_rcode response = NXDomain \<or> m_rcode response = NoError)"

fun ns_of :: "'n rdata \<Rightarrow> 'n option" where
  "ns_of (RD_NS n) = Some n"
| "ns_of _ = None"

text \<open>Inl: the round ends with this result; Inr: the delegated zone and its nameservers.\<close>

definition referral_phase ::
  "'n lib \<Rightarrow> 'n \<Rightarrow> rtype \<Rightarrow> 'n frame \<Rightarrow> 'n message \<Rightarrow> (recursor_error + 'n message) + ('n \<times> 'n list)" where
  "referral_phase L name rtype fr response =
     (if soa_terminal L name rtype response then Inl (Inr response)
      else if aa_terminal response then Inl (Inr response)
      else if m_ns response = [] then Inl (Inl NoProgress)
      else (case List.find (\<lambda>r. rr_type r = RT_NS) (m_ns response) of
        None \<Rightarrow> Inl (Inr response)
      | Some first_ns \<Rightarrow>
          (let delegation_owner = rr_name first_ns;
               ns_records = filter (\<lambda>r. rr_type r = RT_NS) (m_ns response);
               ns_names = filter_map (\<lambda>r. ns_of (rr_data r)) ns_records in
           if \<exists>r \<in> set ns_records. \<not> n_eq L (rr_name r) delegation_owner then Inl (Inl NoProgress)
           else if ns_names = [] then Inl (Inr response)
           else if (case fr_last_zone fr of Some z \<Rightarrow> n_eq L z delegation_owner | None \<Rightarrow> False) then Inl (Inl NoProgress)
           else (let is_child_of_target = n_zone_of L delegation_owner name \<or> n_eq L delegation_owner name;
                     is_within_bailiwick = n_is_root L (fr_bailiwick fr) \<or> n_zone_of L (fr_bailiwick fr) delegation_owner \<or>
                       n_eq L (fr_bailiwick fr) delegation_owner in
                 if \<not> is_child_of_target \<or> \<not> is_within_bailiwick then Inl (Inl NoProgress)
                 else Inr (delegation_owner, ns_names)))))"

subsection \<open>Nameserver addresses\<close>

fun glue_ip :: "'n rdata \<Rightarrow> ip_addr option" where
  "glue_ip (RD_A a) = Some (V4 a)"
| "glue_ip (RD_AAAA a) = Some (V6 a)"
| "glue_ip _ = None"

definition glue_in_bailiwick :: "'n lib \<Rightarrow> 'n \<Rightarrow> 'n \<Rightarrow> 'n \<Rightarrow> bool" where
  "glue_in_bailiwick L bailiwick active n \<longleftrightarrow>
     n_is_root L bailiwick \<or> n_zone_of L bailiwick n \<or> n_eq L bailiwick n \<or> n_zone_of L active n \<or> n_eq L active n"

definition glue_ips :: "'n lib \<Rightarrow> 'n message \<Rightarrow> 'n \<Rightarrow> 'n \<Rightarrow> 'n list \<Rightarrow> ip_addr list" where
  "glue_ips L response bailiwick active ns_names =
     filter_safe_ips (filter_map (\<lambda>r. glue_ip (rr_data r))
       (filter (\<lambda>r. (\<exists>n \<in> set ns_names. n_eq L n (rr_name r)) \<and> glue_in_bailiwick L bailiwick active (rr_name r))
          (m_add response)))"

fun a_ip :: "'n rdata \<Rightarrow> ip_addr option" where
  "a_ip (RD_A a) = Some (V4 a)"
| "a_ip _ = None"

fun aaaa_ip :: "'n rdata \<Rightarrow> ip_addr option" where
  "aaaa_ip (RD_AAAA a) = Some (V6 a)"
| "aaaa_ip _ = None"

fun answered_ips :: "('n rdata \<Rightarrow> ip_addr option) \<Rightarrow> recursor_error + 'n message \<Rightarrow> ip_addr list" where
  "answered_ips f (Inl e) = []"
| "answered_ips f (Inr m) = filter is_safe_upstream_ip (filter_map (\<lambda>r. f (rr_data r)) (m_answers m))"

fun resolve_ns_loop ::
  "'n lib \<Rightarrow> ('n, 's) resolver \<Rightarrow> 'n list \<Rightarrow> ip_addr list \<Rightarrow> string set \<Rightarrow> 's rstate \<Rightarrow>
   ip_addr list \<times> string set \<times> 's rstate" where
  "resolve_ns_loop L rec [] ips visited st = (ips, visited, st)"
| "resolve_ns_loop L rec (ns # rest) ips visited st =
     (let key_ns = ''ns:resolve:'' @ name_key L ns;
          (ips', visited', st') =
            (if key_ns \<in> visited then (ips, visited, st)
             else let (r1, v1, st1) = rec ns RT_A (insert key_ns visited) st;
                      (r2, v2, st2) = rec ns RT_AAAA v1 st1
                  in (ips @ answered_ips a_ip r1 @ answered_ips aaaa_ip r2, v2, st2))
      in if length ips' \<ge> 4 then (ips', visited', st')
         else resolve_ns_loop L rec rest ips' visited' st')"

text \<open>\<open>next_ips.retain(|ip| seen_ips.insert(*ip))\<close>: the first occurrence of each address.\<close>

fun dedup :: "'a list \<Rightarrow> 'a list \<Rightarrow> 'a list" where
  "dedup seen [] = []"
| "dedup seen (x # xs) = (if x \<in> set seen then dedup seen xs else x # dedup (x # seen) xs)"

definition next_servers ::
  "'n lib \<Rightarrow> ('n, 's) resolver \<Rightarrow> 'n frame \<Rightarrow> 'n message \<Rightarrow> 'n \<Rightarrow> 'n list \<Rightarrow> string set \<Rightarrow> 's rstate \<Rightarrow>
   ip_addr list \<times> string set \<times> 's rstate" where
  "next_servers L rec fr response active ns_names visited st =
     (let glue = glue_ips L response (fr_bailiwick fr) active ns_names in
      if glue \<noteq> [] then (glue, visited, st)
      else let (ips, v', st') = resolve_ns_loop L rec (take 4 ns_names) [] visited st in (dedup [] ips, v', st'))"

subsection \<open>Rounds and recursion\<close>

datatype ('n, 's) round = Finish "('n, 's) outcome" | Continue "'n frame" "string set" "'s rstate"

definition descend ::
  "'n lib \<Rightarrow> ('n, 's) net \<Rightarrow> 'n frame \<Rightarrow> 'n message \<Rightarrow> 'n \<Rightarrow> ip_addr list \<Rightarrow> string set \<Rightarrow> 's rstate \<Rightarrow> ('n, 's) round" where
  "descend L N fr response active next_ips visited st =
     (if next_ips = [] then Finish (Inl GlueResolutionFailed, visited, st)
      else let entry = \<lparr>de_servers = next_ips, de_expires_at = net_now N (rs_net st) + delegation_ttl response,
                        de_source = Dynamic\<rparr>
           in Continue (fr\<lparr>fr_bailiwick := active, fr_last_zone := Some active, fr_servers := next_ips\<rparr>) visited
                (st\<lparr>rs_cache := dm_insert (name_key L active) entry (rs_cache st)\<rparr>))"

definition process_response ::
  "'n lib \<Rightarrow> ('n, 's) net \<Rightarrow> ('n, 's) resolver \<Rightarrow> 'n \<Rightarrow> rtype \<Rightarrow> 'n frame \<Rightarrow> 'n message \<Rightarrow> string set \<Rightarrow> 's rstate \<Rightarrow>
   ('n, 's) round" where
  "process_response L N rec name rtype fr response visited st =
     (case answer_phase L rec name rtype response visited st of
        Some out \<Rightarrow> Finish out
      | None \<Rightarrow>
          (case referral_phase L name rtype fr response of
             Inl res \<Rightarrow> Finish (res, visited, st)
           | Inr (active, ns_names) \<Rightarrow>
               (let (next_ips, v', st') = next_servers L rec fr response active ns_names visited st in
                descend L N fr response active next_ips v' st')))"

definition resolve_round ::
  "'n lib \<Rightarrow> ('n, 's) net \<Rightarrow> ('n, 's) resolver \<Rightarrow> 'n \<Rightarrow> rtype \<Rightarrow> 'n frame \<Rightarrow> string set \<Rightarrow> 's rstate \<Rightarrow> ('n, 's) round" where
  "resolve_round L N rec name rtype fr visited st =
     (let (resp, s') = query_servers_with_fallback L N (fr_servers fr) name rtype (rs_net st); st' = st\<lparr>rs_net := s'\<rparr> in
      case resp of
        None \<Rightarrow>
          if fr_using_cached fr
          then Continue (fr\<lparr>fr_using_cached := False, fr_servers := ROOT_SERVERS, fr_last_zone := None,
                             fr_bailiwick := n_root L\<rparr>) visited
                 (st'\<lparr>rs_cache := purge_delegation L (rs_cache st') name rtype\<rparr>)
          else Finish (Inl AllNameserversFailed, visited, st')
      | Some response \<Rightarrow>
          process_response L N rec name rtype (fr\<lparr>fr_using_cached := False\<rparr>) response visited st')"

fun resolve_rounds ::
  "'n lib \<Rightarrow> ('n, 's) net \<Rightarrow> ('n, 's) resolver \<Rightarrow> 'n \<Rightarrow> rtype \<Rightarrow> nat \<Rightarrow> 'n frame \<Rightarrow> string set \<Rightarrow> 's rstate \<Rightarrow>
   ('n, 's) outcome" where
  "resolve_rounds L N rec name rtype 0 fr visited st = (Inl StepLimitExceeded, visited, st)"
| "resolve_rounds L N rec name rtype (Suc k) fr visited st =
     (case resolve_round L N rec name rtype fr visited st of
        Finish out \<Rightarrow> out
      | Continue fr' v' st' \<Rightarrow> resolve_rounds L N rec name rtype k fr' v' st')"

fun resolve_internal :: "'n lib \<Rightarrow> ('n, 's) net \<Rightarrow> nat \<Rightarrow> ('n, 's) resolver" where
  "resolve_internal L N 0 name rtype visited st = (Inl DepthExceeded, visited, st)"
| "resolve_internal L N (Suc d) name rtype visited st =
     resolve_rounds L N (resolve_internal L N d) name rtype MAX_STEPS (start_frame L N name rtype st) visited st"

definition resolve ::
  "'n lib \<Rightarrow> ('n, 's) net \<Rightarrow> 'n \<Rightarrow> rtype \<Rightarrow> 's rstate \<Rightarrow> (recursor_error + 'n message) \<times> 's rstate" where
  "resolve L N name rtype st =
     (case resolve_internal L N (MAX_DEPTH + 1) name rtype {} st of (res, _, st') \<Rightarrow> (res, st'))"

section \<open>What a query accepts and whom it asks\<close>

definition asked :: "'n lib \<Rightarrow> 'n \<Rightarrow> rtype \<Rightarrow> 'n message \<Rightarrow> bool" where
  "asked L name rtype m \<longleftrightarrow> (\<exists>q. m_queries m = [q] \<and> n_eq L (q_name q) name \<and> q_type q = rtype \<and> q_class q = IN)"

lemma response_matches_iff:
  "response_matches L m txid name rtype \<longleftrightarrow>
   m_id m = txid \<and> m_type m = MT_Response \<and> m_opcode m = OC_Query \<and> asked L name rtype m"
  by (auto simp: response_matches_def asked_def split: list.splits)

lemma query_socket_unsafe:
  "\<not> is_safe_upstream_ip addr \<Longrightarrow> query_socket L N addr name rtype s = (Inl AllNameserversFailed, s)"
  by (simp add: query_socket_def)

lemma query_socket_accepts:
  "query_socket L N addr name rtype s = (Inr m, s') \<Longrightarrow>
   is_safe_upstream_ip addr \<and> response_matches L m (fst (net_txid N s)) name rtype"
  unfolding query_socket_def
  by (auto simp: split_beta Let_def split: if_splits option.splits udp_out.splits prod.splits sum.splits)

text \<open>
  C12. Anti-spoofing and SSRF at the socket: a response is accepted only from a safe address and
  only when it repeats the transaction id of the query, is a response to a standard query and
  has exactly one question, the one asked; this also holds for the retries over TCP. An unsafe
  address gives an error without touching the network.
\<close>

theorem query_socket_sound:
  "(is_safe_upstream_ip addr \<or> query_socket L N addr name rtype s = (Inl AllNameserversFailed, s)) \<and>
   (case fst (query_socket L N addr name rtype s) of
      Inr m \<Rightarrow> is_safe_upstream_ip addr \<and> m_id m = fst (net_txid N s) \<and> m_type m = MT_Response \<and>
        m_opcode m = OC_Query \<and> (\<exists>q. m_queries m = [q] \<and> n_eq L (q_name q) name \<and> q_type q = rtype \<and> q_class q = IN)
    | Inl _ \<Rightarrow> True)"
proof (cases "query_socket L N addr name rtype s")
  case (Pair r s')
  then show ?thesis
    using query_socket_unsafe [of addr L N name rtype s] query_socket_accepts [of L N addr name rtype s _ s']
    by (auto simp: response_matches_iff asked_def split: sum.splits)
qed

lemma run_chunk_accepts:
  "run_chunk L N name rtype as s = (rs, s') \<Longrightarrow> Inr m \<in> set rs \<Longrightarrow> asked L name rtype m"
proof (induction as arbitrary: s rs)
  case (Cons a as)
  then show ?case
    by (auto simp: split_beta Let_def prod_eq_iff response_matches_iff dest!: query_socket_accepts [OF prod_eqI])
      (metis prod.collapse query_socket_accepts response_matches_iff)+
qed simp

text \<open>The completion order of concurrent queries may drop results (a task that panicked) but
  invents none.\<close>

definition join_ok :: "('n, 's) net \<Rightarrow> bool" where
  "join_ok N \<longleftrightarrow> (\<forall>s rs. set (net_join N s rs) \<subseteq> set rs)"

lemma usable_responseD: "usable_response r = Some m \<Longrightarrow> r = Inr m \<and> (m_rcode m = NoError \<or> m_rcode m = NXDomain)"
  by (cases r) (auto split: if_splits)

lemma try_chunks_accepts:
  assumes "join_ok N"
  shows "try_chunks L N name rtype cs s = (Some m, s') \<Longrightarrow>
    asked L name rtype m \<and> (m_rcode m = NoError \<or> m_rcode m = NXDomain)"
proof (induction cs arbitrary: s)
  case (Cons c cs)
  obtain rs s1 where r: "run_chunk L N name rtype c s = (rs, s1)" by (cases "run_chunk L N name rtype c s")
  show ?case
  proof (cases "find_map usable_response (net_join N s1 rs)")
    case None
    with Cons r show ?thesis by simp
  next
    case (Some m')
    with Cons.prems r have m: "m' = m" by simp
    from find_map_SomeD [OF Some] obtain x where "x \<in> set (net_join N s1 rs)" "usable_response x = Some m'" by blast
    with assms have "Inr m \<in> set rs" "m_rcode m = NoError \<or> m_rcode m = NXDomain"
      using m by (auto simp: join_ok_def dest!: usable_responseD)
    with run_chunk_accepts [OF r] show ?thesis by blast
  qed
qed simp

lemma query_servers_accepts:
  "join_ok N \<Longrightarrow> query_servers_with_fallback L N servers name rtype s = (Some m, s') \<Longrightarrow>
   asked L name rtype m \<and> (m_rcode m = NoError \<or> m_rcode m = NXDomain)"
  unfolding query_servers_with_fallback_def
  by (auto simp: split_beta Let_def split: if_splits dest: try_chunks_accepts)

section \<open>Unsafe addresses cannot be reached\<close>

text \<open>Two networks that differ at most in how unsafe addresses behave.\<close>

definition same_on_safe :: "('n, 's) net \<Rightarrow> ('n, 's) net \<Rightarrow> bool" where
  "same_on_safe N N' \<longleftrightarrow> net_now N = net_now N' \<and> net_txid N = net_txid N' \<and> net_shuffle N = net_shuffle N' \<and>
     net_join N = net_join N' \<and>
     (\<forall>s addr req. is_safe_upstream_ip addr \<longrightarrow>
        net_udp N s addr req = net_udp N' s addr req \<and> net_tcp N s addr req = net_tcp N' s addr req)"

lemma query_socket_cong:
  assumes "same_on_safe N N'"
  shows "query_socket L N = query_socket L N'"
proof (intro ext)
  fix addr name rtype s
  show "query_socket L N addr name rtype s = query_socket L N' addr name rtype s"
  proof (cases "is_safe_upstream_ip addr")
    case False
    then show ?thesis by (simp add: query_socket_unsafe)
  next
    case True
    with assms have "net_udp N s addr = net_udp N' s addr" "tcp_retry L N addr = tcp_retry L N' addr"
      "net_txid N = net_txid N'" for s
      by (auto simp: same_on_safe_def tcp_retry_def fun_eq_iff)
    then show ?thesis unfolding query_socket_def by presburger
  qed
qed

lemma query_servers_cong:
  assumes "same_on_safe N N'"
  shows "query_servers_with_fallback L N = query_servers_with_fallback L N'"
proof -
  have chunk: "run_chunk L N name rtype as s = run_chunk L N' name rtype as s" for name rtype as s
    by (induction as arbitrary: s) (simp_all add: query_socket_cong [OF assms])
  have "try_chunks L N name rtype cs s = try_chunks L N' name rtype cs s" for name rtype cs s
    using assms by (induction cs arbitrary: s) (auto simp: chunk same_on_safe_def split: prod.splits option.splits)
  then have "try_chunks L N = try_chunks L N'" by (intro ext)
  moreover have "net_shuffle N = net_shuffle N'" using assms by (simp add: same_on_safe_def)
  ultimately show ?thesis unfolding query_servers_with_fallback_def by (simp only:)
qed

lemma resolve_internal_cong:
  assumes "same_on_safe N N'"
  shows "resolve_internal L N d = resolve_internal L N' d"
proof (induction d)
  case (Suc d)
  have now: "net_now N = net_now N'" using assms by (simp add: same_on_safe_def)
  have descend: "descend L N = descend L N'" by (intro ext) (simp add: descend_def now)
  have process: "process_response L N = process_response L N'"
    unfolding process_response_def descend by (rule refl)
  have "resolve_round L N rec = resolve_round L N' rec" for rec
    unfolding resolve_round_def process query_servers_cong [OF assms] by (rule refl)
  then have "resolve_rounds L N rec name rtype k fr v st = resolve_rounds L N' rec name rtype k fr v st"
    for rec name rtype k fr v st
    by (induction k arbitrary: fr v st) (simp_all split: round.splits)
  with Suc now show ?case by (intro ext) (simp add: start_frame_def)
qed (simp add: fun_eq_iff)

text \<open>
  C10. No resolution ever contacts an unsafe upstream address: replacing the behaviour of all
  unsafe addresses changes nothing in the result or in the state, whatever the cache holds and
  whatever glue, referrals and nameserver addresses the servers send.
\<close>

theorem resolve_ignores_unsafe_addresses:
  assumes "same_on_safe N N'"
  shows "resolve L N name rtype st = resolve L N' name rtype st"
  by (simp add: resolve_def resolve_internal_cong [OF assms])

text \<open>A network of silent servers.\<close>

definition dead_net :: "('n, unit) net" where
  "dead_net = \<lparr>net_now = (\<lambda>_. 0), net_txid = (\<lambda>s. (7, s)), net_shuffle = (\<lambda>s xs. (xs, s)),
     net_udp = (\<lambda>s _ _. (Udp_Timeout, s)), net_tcp = (\<lambda>s _ _. (Tcp_Timeout, s)), net_join = (\<lambda>_ rs. rs)\<rparr>"

theorem resolve_ignores_unsafe_addresses_witness:
  "resolve lab_lib dead_net [[97]] RT_A \<lparr>rs_cache = [], rs_net = ()\<rparr> =
   resolve lab_lib (dead_net\<lparr>net_udp := \<lambda>s a _. if is_safe_upstream_ip a then (Udp_Timeout, s) else (Udp_Datagram [], s)\<rparr>)
     [[97]] RT_A \<lparr>rs_cache = [], rs_net = ()\<rparr>"
  by (rule resolve_ignores_unsafe_addresses) (simp add: same_on_safe_def dead_net_def)

section \<open>Accepted referrals\<close>


text \<open>A referral from the root servers to \<open>com.\<close>.\<close>

definition ns_msg :: "bytes list \<Rightarrow> bytes list message" where
  "ns_msg owner = empty_msg\<lparr>m_ns := [rr_from_rdata lab_lib owner 60 (RD_NS [[110], [99, 111, 109]])],
     m_add := [rr_from_rdata lab_lib [[110], [99, 111, 109]] 60 (RD_A 0x08080808)]\<rparr>"

definition frame_at :: "bytes list \<Rightarrow> bytes list frame" where
  "frame_at zone = \<lparr>fr_servers = [V4 1], fr_using_cached = False, fr_last_zone = None, fr_bailiwick = zone\<rparr>"

lemma ns_msg_accepted:
  "referral_phase lab_lib [[97], [99, 111, 109]] RT_A (frame_at []) (ns_msg [[99, 111, 109]]) =
     Inr ([[99, 111, 109]], [[[110], [99, 111, 109]]])"
  by (simp add: referral_phase_def ns_msg_def frame_at_def soa_terminal_def aa_terminal_def rr_from_rdata_def
      empty_msg_def Let_def) (simp add: lab_lib_def lab_zone_of_def ends_with_def)


section \<open>The delegation cache\<close>

text \<open>How a resolution may change the cache: entries disappear, and new ones are dynamic, not
  empty and made of safe addresses.\<close>

definition safe_entry :: "delegation_entry \<Rightarrow> bool" where
  "safe_entry e \<longleftrightarrow> de_source e = Dynamic \<and> de_servers e \<noteq> [] \<and> (\<forall>ip \<in> set (de_servers e). is_safe_upstream_ip ip)"

definition cache_step :: "delegation_cache \<Rightarrow> delegation_cache \<Rightarrow> bool" where
  "cache_step c c' \<longleftrightarrow> (dm_ok c \<longrightarrow> dm_ok c' \<and> (\<forall>k e. dm_get c' k = Some e \<longrightarrow> dm_get c k = Some e \<or> safe_entry e))"

lemma cache_step_refl [simp, intro]: "cache_step c c"
  by (simp add: cache_step_def)

lemma cache_step_trans [trans]: "cache_step a b \<Longrightarrow> cache_step b c \<Longrightarrow> cache_step a c"
  unfolding cache_step_def by blast

lemma cache_step_purge: "cache_step c (purge_delegation L c name rtype)"
  by (auto simp: cache_step_def purge_delegation_def dm_ok_purge_walk dest: dm_get_purge_walk)

lemma cache_step_insert: "safe_entry e \<Longrightarrow> cache_step c (dm_insert k e c)"
  by (auto simp: cache_step_def dm_simps split: if_splits)

lemma answered_ips_safe: "ip \<in> set (answered_ips f r) \<Longrightarrow> is_safe_upstream_ip ip"
  by (cases r) auto

lemma resolve_ns_loop_safe:
  "resolve_ns_loop L rec ns ips v st = (ips', v', st') \<Longrightarrow> \<forall>ip \<in> set ips. is_safe_upstream_ip ip \<Longrightarrow>
   \<forall>ip \<in> set ips'. is_safe_upstream_ip ip"
proof (induction ns arbitrary: ips v st)
  case (Cons n ns)
  obtain ips1 v1 st1 where
    e: "(if ''ns:resolve:'' @ name_key L n \<in> v then (ips, v, st)
         else let (r1, v1, st1) = rec n RT_A (insert (''ns:resolve:'' @ name_key L n) v) st;
                  (r2, v2, st2) = rec n RT_AAAA v1 st1
              in (ips @ answered_ips a_ip r1 @ answered_ips aaaa_ip r2, v2, st2)) = (ips1, v1, st1)"
    by (metis prod_cases3)
  have "\<forall>ip \<in> set ips1. is_safe_upstream_ip ip"
    using e Cons.prems(2) by (auto simp: split_beta Let_def split: if_splits dest: answered_ips_safe)
  moreover have "resolve_ns_loop L rec (n # ns) ips v st =
      (if length ips1 \<ge> 4 then (ips1, v1, st1) else resolve_ns_loop L rec ns ips1 v1 st1)"
    using e by (simp only: resolve_ns_loop.simps Let_def) simp
  ultimately show ?case using Cons by (auto split: if_splits)
qed simp

lemma set_dedup: "set (dedup seen xs) = set xs - set seen"
  by (induction xs arbitrary: seen) auto

lemma next_servers_safe:
  "next_servers L rec fr m active ns v st = (ips, v', st') \<Longrightarrow> ip \<in> set ips \<Longrightarrow> is_safe_upstream_ip ip"
  unfolding next_servers_def glue_ips_def
  by (auto simp: Let_def set_dedup split: if_splits prod.splits dest: filter_safe_ips_safe resolve_ns_loop_safe)

fun round_state :: "('n, 's) round \<Rightarrow> 's rstate" where
  "round_state (Finish (r, v, st)) = st"
| "round_state (Continue fr v st) = st"

text \<open>
  The contract between one level of \<open>resolve_internal\<close> and the next: the level above relies
  on a resolver for aliases and nameserver names only through what it does to the cache. What a
  whole resolution loop does to the cache is proved once for any such resolver.
\<close>

locale cache_keeping =
  fixes rec :: "('n, 's) resolver"
  assumes keeps: "rec name rtype v st = (r, v', st') \<Longrightarrow> cache_step (rs_cache st) (rs_cache st')"
begin

lemma follow_alias_cache:
  "follow_alias L rec name rtype key target m v st = (r, v', st') \<Longrightarrow> cache_step (rs_cache st) (rs_cache st')"
  unfolding follow_alias_def by (auto split: if_splits prod.splits sum.splits dest: keeps)

lemma answer_phase_cache:
  "answer_phase L rec name rtype m v st = Some (r, v', st') \<Longrightarrow> cache_step (rs_cache st) (rs_cache st')"
  unfolding answer_phase_def dname_phase_def
  by (auto simp: Let_def split: if_splits option.splits cname_end.splits sum.splits rcode.splits dest: follow_alias_cache)

lemma resolve_ns_loop_cache:
  shows "resolve_ns_loop L rec ns ips v st = (ips', v', st') \<Longrightarrow> cache_step (rs_cache st) (rs_cache st')"
proof (induction ns arbitrary: ips v st)
  case (Cons n ns)
  then show ?case
    by (auto simp: Let_def split: prod.splits if_splits dest!: keeps intro: cache_step_trans)
qed simp

lemma next_servers_cache:
  "next_servers L rec fr m active ns v st = (ips, v', st') \<Longrightarrow> cache_step (rs_cache st) (rs_cache st')"
  unfolding next_servers_def
  by (auto simp: Let_def split: if_splits prod.splits dest: resolve_ns_loop_cache)

lemma process_response_cache:
  shows "cache_step (rs_cache st) (rs_cache (round_state (process_response L N rec name rtype fr m v st)))"
proof (cases "answer_phase L rec name rtype m v st")
  case (Some out)
  then show ?thesis
    by (cases out) (auto simp: process_response_def dest: answer_phase_cache )
next
  case None
  show ?thesis
  proof (cases "referral_phase L name rtype fr m")
    case (Inl r)
    with None show ?thesis by (simp add: process_response_def)
  next
    case (Inr ref)
    obtain active ns where ref: "ref = (active, ns)" by (cases ref)
    obtain ips v' st' where n: "next_servers L rec fr m active ns v st = (ips, v', st')" by (metis prod_cases3)
    have "cache_step (rs_cache st') (rs_cache (round_state (descend L N fr m active ips v' st')))"
      using next_servers_safe [OF n] by (auto simp: descend_def Let_def safe_entry_def intro!: cache_step_insert)
    with next_servers_cache [OF n] None Inr ref n show ?thesis
      by (simp add: process_response_def cache_step_trans)
  qed
qed

lemma resolve_round_cache:
  shows "cache_step (rs_cache st) (rs_cache (round_state (resolve_round L N rec name rtype fr v st)))"
proof -
  obtain resp s' where q: "query_servers_with_fallback L N (fr_servers fr) name rtype (rs_net st) = (resp, s')"
    by (metis surj_pair)
  show ?thesis
    using process_response_cache [of "st\<lparr>rs_net := s'\<rparr>"]
    by (cases resp) (simp_all add: resolve_round_def q Let_def cache_step_purge)
qed

lemma resolve_rounds_cache:
  shows "cache_step (rs_cache st) (rs_cache (snd (snd (resolve_rounds L N rec name rtype k fr v st))))"
proof (induction k arbitrary: fr v st)
  case (Suc k)
  show ?case
  proof (cases "resolve_round L N rec name rtype fr v st")
    case (Finish out)
    with resolve_round_cache [of st L N name rtype fr v] show ?thesis by (cases out) simp
  next
    case (Continue fr' v' st')
    with resolve_round_cache [of st L N name rtype fr v] Suc [of st' fr' v'] show ?thesis
      by (simp add: cache_step_trans)
  qed
qed simp

end

lemma resolve_internal_keeps: "cache_keeping (resolve_internal L N d)"
proof (induction d)
  case 0
  show ?case by unfold_locales simp
next
  case (Suc d)
  show ?case
  proof
    fix name rtype v st r v' st'
    assume "resolve_internal L N (Suc d) name rtype v st = (r, v', st')"
    with cache_keeping.resolve_rounds_cache [OF Suc, of st L N name rtype MAX_STEPS "start_frame L N name rtype st" v]
    show "cache_step (rs_cache st) (rs_cache st')" by simp
  qed
qed

interpretation ri: cache_keeping "resolve_internal L N d" for L N d
  by (rule resolve_internal_keeps)

text \<open>
  C11. Whatever servers answer, a resolution keeps the delegation cache well formed and adds to it
  only dynamic entries with at least one server, all of them safe addresses; every other entry
  was there before, so entries of the root zone are never forged.
\<close>

theorem resolve_cache_safe:
  assumes "dm_ok (rs_cache st)" and "resolve L N name rtype st = (res, st')"
  shows "dm_ok (rs_cache st') \<and>
    (\<forall>zone e. dm_get (rs_cache st') zone = Some e \<longrightarrow>
       dm_get (rs_cache st) zone = Some e \<or>
       de_source e = Dynamic \<and> de_servers e \<noteq> [] \<and> (\<forall>ip \<in> set (de_servers e). is_safe_upstream_ip ip))"
proof -
  obtain v where "resolve_internal L N (MAX_DEPTH + 1) name rtype {} st = (res, v, st')"
    using assms(2) by (auto simp: resolve_def split: prod.splits)
  from ri.keeps [OF this] assms(1) show ?thesis
    unfolding cache_step_def safe_entry_def by blast
qed

theorem resolve_cache_safe_witness:
  "dm_ok (rs_cache (snd (resolve lab_lib dead_net [[97]] RT_A \<lparr>rs_cache = com_cache, rs_net = ()\<rparr>)))"
proof -
  have "dm_ok (rs_cache \<lparr>rs_cache = com_cache, rs_net = ()\<rparr>)" by (simp add: com_cache_def dm_ok_def)
  from resolve_cache_safe [OF this prod.collapse [symmetric]] show ?thesis by (rule conjunct1)
qed

section \<open>The question of a resolved response\<close>

lemma asked_merge:
  "fresh_message L \<Longrightarrow> name_laws L \<Longrightarrow> asked L name rtype (merge_redirection_response L name rtype m m')"
  by (simp add: asked_def merge_redirection_response_def fresh_message_def name_laws_def Let_def)

lemma asked_update [simp]:
  "asked L name rtype (m\<lparr>m_answers := a\<rparr>) = asked L name rtype m"
  "asked L name rtype (m\<lparr>m_rcode := c\<rparr>) = asked L name rtype m"
  by (simp_all add: asked_def)

lemma follow_alias_asked:
  "fresh_message L \<Longrightarrow> name_laws L \<Longrightarrow> follow_alias L rec name rtype key target m v st = (Inr m', v', st') \<Longrightarrow> asked L name rtype m'"
  unfolding follow_alias_def by (auto simp: asked_merge split: if_splits prod.splits sum.splits)

lemma answer_phase_asked:
  assumes "fresh_message L" "name_laws L" "asked L name rtype m"
    and "answer_phase L rec name rtype m v st = Some (Inr m', v', st')"
  shows "asked L name rtype m'"
  using assms unfolding answer_phase_def dname_phase_def
  by (auto simp: Let_def split: if_splits option.splits cname_end.splits sum.splits rcode.splits dest: follow_alias_asked)

lemma referral_phase_asked:
  "referral_phase L name rtype fr m = Inl (Inr m') \<Longrightarrow> m' = m"
  by (auto simp: referral_phase_def Let_def split: if_splits option.splits)

lemma resolve_round_asked:
  assumes "fresh_message L" "name_laws L" "join_ok N"
    and "resolve_round L N rec name rtype fr v st = Finish (Inr m', v', st')"
  shows "asked L name rtype m'"
proof -
  obtain resp s' where q: "query_servers_with_fallback L N (fr_servers fr) name rtype (rs_net st) = (resp, s')"
    by (metis surj_pair)
  with assms(4) obtain m where m: "resp = Some m"
    and p: "process_response L N rec name rtype (fr\<lparr>fr_using_cached := False\<rparr>) m v (st\<lparr>rs_net := s'\<rparr>) = Finish (Inr m', v', st')"
    by (cases resp) (auto simp: resolve_round_def Let_def split: if_splits)
  have a: "asked L name rtype m" using query_servers_accepts [OF assms(3)] q m by blast
  show ?thesis
  proof (cases "answer_phase L rec name rtype m v (st\<lparr>rs_net := s'\<rparr>)")
    case (Some out)
    with p have "out = (Inr m', v', st')" by (simp add: process_response_def)
    with answer_phase_asked [OF assms(1,2) a] Some show ?thesis by blast
  next
    case None
    with p a show ?thesis
      by (auto simp: process_response_def descend_def Let_def split: sum.splits prod.splits if_splits
          dest!: referral_phase_asked)
  qed
qed

lemma resolve_rounds_asked:
  assumes "fresh_message L" "name_laws L" "join_ok N"
  shows "resolve_rounds L N rec name rtype k fr v st = (Inr m, v', st') \<Longrightarrow> asked L name rtype m"
  by (induction k arbitrary: fr v st) (auto split: round.splits dest: resolve_round_asked [OF assms])

text \<open>
  C9. A successful resolution answers the question that was asked: the message has exactly one
  question, with the name (as names compare), the type and class IN of the request, also when
  aliases were followed, a DNAME was expanded or the name became too long.
\<close>

theorem resolve_answers_question:
  assumes "fresh_message L" and "name_laws L" and "join_ok N"
    and "resolve L N name rtype st = (Inr m, st')"
  shows "\<exists>q. m_queries m = [q] \<and> n_eq L (q_name q) name \<and> q_type q = rtype \<and> q_class q = IN"
proof -
  obtain v where "resolve_internal L N (Suc MAX_DEPTH) name rtype {} st = (Inr m, v, st')"
    using assms(4) by (auto simp: resolve_def split: prod.splits)
  then show ?thesis
    using resolve_rounds_asked [OF assms(1-3)] unfolding asked_def [symmetric] resolve_internal.simps by blast
qed

text \<open>A network where every server answers with one A record.\<close>

definition echo_msg :: "bytes list message" where
  "echo_msg = empty_msg\<lparr>m_id := 7, m_type := MT_Response,
     m_queries := [\<lparr>q_name = [[97]], q_type = RT_A, q_class = IN\<rparr>],
     m_answers := [rr_from_rdata lab_lib [[97]] 60 (RD_A 0x08080808)]\<rparr>"

definition echo_lib :: "bytes list lib" where
  "echo_lib = lab_lib\<lparr>msg_to_bytes := \<lambda>_. Some [1], msg_read := \<lambda>_. Some echo_msg\<rparr>"

definition echo_net :: "(bytes list, unit) net" where
  "echo_net = dead_net\<lparr>net_udp := \<lambda>s _ _. (Udp_Datagram [1], s)\<rparr>"

lemma echo_laws: "fresh_message echo_lib" "name_laws echo_lib" "join_ok echo_net"
proof -
  show "fresh_message echo_lib" using lab_fresh_message by (simp add: fresh_message_def echo_lib_def)
  show "name_laws echo_lib" using lab_name_laws by (auto simp: name_laws_def echo_lib_def label_list_def)
  show "join_ok echo_net" by (simp add: join_ok_def echo_net_def dead_net_def)
qed

lemma root_servers_safe: "\<forall>ip \<in> set ROOT_SERVERS. is_safe_upstream_ip ip"
  by (simp add: ROOT_SERVERS_def is_safe_upstream_ip_def safe_v4_blocks special_v4_blocks_eq in_block_def ipv4_new_def)

lemma echo_socket: "is_safe_upstream_ip a \<Longrightarrow> query_socket echo_lib echo_net a [[97]] RT_A () = (Inr echo_msg, ())"
  by (simp add: query_socket_def echo_lib_def echo_net_def dead_net_def decode_response_def response_matches_def
      echo_msg_def empty_msg_def) (simp add: lab_lib_def)

lemma echo_servers:
  "query_servers_with_fallback echo_lib echo_net ROOT_SERVERS [[97]] RT_A () = (Some echo_msg, ())"
proof -
  obtain a b c rest where r: "ROOT_SERVERS = a # b # c # rest" "filter is_ipv4 ROOT_SERVERS = ROOT_SERVERS"
    "filter (\<lambda>a. \<not> is_ipv4 a) ROOT_SERVERS = []"
    by (simp add: ROOT_SERVERS_def)
  have "is_safe_upstream_ip a" "is_safe_upstream_ip b" "is_safe_upstream_ip c"
    using root_servers_safe unfolding r(1) by simp_all
  moreover have "m_rcode echo_msg = NoError" by (simp add: echo_msg_def empty_msg_def)
  moreover have n: "net_shuffle echo_net s xs = (xs, s)" "net_join echo_net s rs = rs" for s xs rs
    by (simp_all add: echo_net_def dead_net_def)
  ultimately have "try_chunks echo_lib echo_net [[97]] RT_A (chunks3 ROOT_SERVERS) () = (Some echo_msg, ())"
    unfolding r(1) by (simp add: echo_socket)
  moreover have "ROOT_SERVERS \<noteq> []" unfolding r(1) by simp
  ultimately show ?thesis
    by (simp add: query_servers_with_fallback_def n r(2,3))
qed

lemma echo_resolve:
  "resolve echo_lib echo_net [[97]] RT_A \<lparr>rs_cache = [], rs_net = ()\<rparr> = (Inr echo_msg, \<lparr>rs_cache = [], rs_net = ()\<rparr>)"
proof -
  have f: "find_cached_start L [] now n t = None" for L now n t
    by (simp add: find_cached_start_def find_map_None_iff live_servers_def)
  have a: "has_answer echo_lib (m_answers echo_msg) [[97]] RT_A" "m_answers echo_msg \<noteq> []"
    by (simp_all add: has_answer_def echo_msg_def empty_msg_def rr_from_rdata_def echo_lib_def) (simp add: lab_lib_def)
  show ?thesis
    by (simp add: resolve_def MAX_DEPTH_def MAX_STEPS_def start_frame_def f numeral_eq_Suc resolve_round_def echo_servers
        process_response_def answer_phase_def a)
qed

theorem resolve_answers_question_witness:
  "\<exists>q. m_queries echo_msg = [q] \<and> n_eq echo_lib (q_name q) [[97]] \<and> q_type q = RT_A \<and> q_class q = IN"
  by (rule resolve_answers_question [OF echo_laws echo_resolve])

section \<open>Bailiwick after a cached start\<close>

text \<open>
  C29. A resolution that starts from a cached delegation does so with the root as its bailiwick, so
  the bailiwick test of the first round is void: a server of a cached child zone may refer to any
  enclosing zone. Here the servers of \<open>x.com.\<close> refer to \<open>com.\<close> with an address
  of their own, and the cache entry of \<open>com.\<close> is replaced by it.
\<close>

theorem cached_start_bailiwick_void:
  assumes "name_laws L"
    and cached: "fr_using_cached (start_frame L N name rtype st)"
    and resp: "query_servers_with_fallback L N (fr_servers (start_frame L N name rtype st)) name rtype (rs_net st) = (Some response, s')"
    and referral: "m_answers response = []" "\<not> soa_terminal L name rtype response" "\<not> aa_terminal response"
      "m_ns response = [r]" "rr_type r = RT_NS" "rr_data r = RD_NS ns"
    and above: "n_zone_of L (rr_name r) name"
    and glue: "glue_ips L response (n_root L) (rr_name r) [ns] = ips" "ips \<noteq> []"
  shows "\<exists>fr' v' st' e. resolve_round L N rec name rtype (start_frame L N name rtype st) v st = Continue fr' v' st' \<and>
    dm_get (rs_cache st') (name_key L (rr_name r)) = Some e \<and> de_servers e = ips \<and> de_source e = Dynamic"
proof -
  have b: "fr_bailiwick (start_frame L N name rtype st) = n_root L" "fr_last_zone (start_frame L N name rtype st) = None"
    by (simp_all add: start_frame_def split_beta Let_def)
  let ?fr = "start_frame L N name rtype st\<lparr>fr_using_cached := False\<rparr>"
  have "n_is_root L (n_root L)" "n_eq L (rr_name r) (rr_name r)"
    using assms(1) unfolding name_laws_def by blast+
  then have "referral_phase L name rtype ?fr response = Inr (rr_name r, [ns])"
    using referral above b by (simp add: referral_phase_def)
  moreover have "answer_phase L rec name rtype response v st1 = None" for v st1
    using referral by (simp add: answer_phase_def)
  ultimately show ?thesis
    using glue b by (simp add: resolve_round_def resp process_response_def next_servers_def descend_def Let_def dm_simps)
qed

text \<open>The servers cached for \<open>x.com.\<close> answer with a referral to \<open>com.\<close>.\<close>

definition up_msg :: "bytes list message" where
  "up_msg = (ns_msg [[99, 111, 109]])\<lparr>m_id := 7, m_type := MT_Response,
     m_queries := [\<lparr>q_name = [[97], [120], [99, 111, 109]], q_type = RT_A, q_class = IN\<rparr>]\<rparr>"

definition up_lib :: "bytes list lib" where
  "up_lib = lab_lib\<lparr>msg_to_bytes := \<lambda>_. Some [1], msg_read := \<lambda>_. Some up_msg\<rparr>"

definition x_com_state :: "unit rstate" where
  "x_com_state = \<lparr>rs_cache = [(''x.com.'', \<lparr>de_servers = [V4 0x08080808], de_expires_at = 10, de_source = Dynamic\<rparr>)], rs_net = ()\<rparr>"

lemma x_com_start:
  "start_frame up_lib echo_net [[97], [120], [99, 111, 109]] RT_A x_com_state =
     \<lparr>fr_servers = [V4 0x08080808], fr_using_cached = True, fr_last_zone = None, fr_bailiwick = []\<rparr>"
proof -
  have w: "name_walk up_lib (lookup_start up_lib [[97], [120], [99, 111, 109]] RT_A) =
      [[[97], [120], [99, 111, 109]], [[120], [99, 111, 109]], [[99, 111, 109]], []]"
    by (simp add: name_walk_def lookup_start_def label_list_def up_lib_def lab_lib_def)
  have "name_key up_lib [[97], [120], [99, 111, 109]] = ''a.x.com.''" "name_key up_lib [[120], [99, 111, 109]] = ''x.com.''"
    unfolding name_key_def by (simp_all add: up_lib_def lab_lib_def) code_simp+
  then show ?thesis
    by (simp add: start_frame_def find_cached_start_def w live_servers_def x_com_state_def dm_get_def)
      (simp add: echo_net_def dead_net_def up_lib_def lab_lib_def)
qed

lemma x_com_query:
  "query_servers_with_fallback up_lib echo_net [V4 0x08080808] [[97], [120], [99, 111, 109]] RT_A () = (Some up_msg, ())"
proof -
  have "is_safe_upstream_ip (V4 0x08080808)"
    by (simp add: is_safe_upstream_ip_def safe_v4_blocks special_v4_blocks_eq in_block_def)
  then have "query_socket up_lib echo_net (V4 0x08080808) [[97], [120], [99, 111, 109]] RT_A () = (Inr up_msg, ())"
    by (simp add: query_socket_def up_lib_def echo_net_def dead_net_def decode_response_def response_matches_def
        up_msg_def ns_msg_def empty_msg_def) (simp add: lab_lib_def)
  moreover have "m_rcode up_msg = NoError" by (simp add: up_msg_def ns_msg_def empty_msg_def)
  moreover have "net_shuffle echo_net s xs = (xs, s)" "net_join echo_net s rs = rs" for s xs rs
    by (simp_all add: echo_net_def dead_net_def)
  ultimately show ?thesis by (simp add: query_servers_with_fallback_def)
qed

theorem cached_start_bailiwick_void_witness:
  "\<exists>fr' v' st' e. resolve_round up_lib echo_net (resolve_internal up_lib echo_net 16) [[97], [120], [99, 111, 109]] RT_A
       (start_frame up_lib echo_net [[97], [120], [99, 111, 109]] RT_A x_com_state) {} x_com_state = Continue fr' v' st' \<and>
     dm_get (rs_cache st') ''com.'' = Some e \<and> de_servers e = [V4 0x08080808] \<and> de_source e = Dynamic"
proof -
  let ?r = "rr_from_rdata lab_lib [[99, 111, 109]] 60 (RD_NS [[110], [99, 111, 109]])"
  have laws: "name_laws up_lib" using lab_name_laws by (auto simp: name_laws_def up_lib_def label_list_def)
  have r: "rr_name ?r = [[99, 111, 109]]" "rr_type ?r = RT_NS" "rr_data ?r = RD_NS [[110], [99, 111, 109]]"
    by (simp_all add: rr_from_rdata_def) (simp add: lab_lib_def)
  have m: "m_answers up_msg = []" "\<not> soa_terminal up_lib [[97], [120], [99, 111, 109]] RT_A up_msg" "\<not> aa_terminal up_msg"
    "m_ns up_msg = [?r]"
    by (simp_all add: up_msg_def ns_msg_def empty_msg_def soa_terminal_def aa_terminal_def r)
  have safe: "is_safe_upstream_ip (V4 0x08080808)"
    by (simp add: is_safe_upstream_ip_def safe_v4_blocks special_v4_blocks_eq in_block_def)
  have g: "glue_ips up_lib up_msg (n_root up_lib) (rr_name ?r) [[[110], [99, 111, 109]]] = [V4 0x08080808]"
    by (simp add: glue_ips_def up_msg_def ns_msg_def empty_msg_def rr_from_rdata_def glue_in_bailiwick_def filter_safe_ips_def safe)
      (simp add: up_lib_def lab_lib_def)
  have z: "n_zone_of up_lib (rr_name ?r) [[97], [120], [99, 111, 109]]"
    by (simp add: r) (simp add: up_lib_def lab_lib_def lab_zone_of_def ends_with_def)
  have k: "name_key up_lib (rr_name ?r) = ''com.''"
    unfolding name_key_def r by (simp add: up_lib_def lab_lib_def) code_simp
  have c: "fr_using_cached (start_frame up_lib echo_net [[97], [120], [99, 111, 109]] RT_A x_com_state)"
    by (simp add: x_com_start)
  have q: "query_servers_with_fallback up_lib echo_net
      (fr_servers (start_frame up_lib echo_net [[97], [120], [99, 111, 109]] RT_A x_com_state))
      [[97], [120], [99, 111, 109]] RT_A (rs_net x_com_state) = (Some up_msg, ())"
    by (simp add: x_com_start x_com_query)
  from cached_start_bailiwick_void [OF laws c q m r(2,3) z g, unfolded k] show ?thesis by simp
qed

end
