(* ===== verification/Chain.thy ===== *)
theory Chain
  imports Negative Delegation Recursor
begin

text \<open>
  \<open>src/dnssec/chain.rs\<close>: the walk from the root trust anchors to a zone's keys.

  The state is the signature budget of the running validation, the two process-wide caches
  (trusted keys and signedness by zone) and the state \<open>'s\<close> of the recursor. The recursor
  and the clock are arguments; the root theory instantiates them with theory \<open>Recursor\<close>.
  One turn of the loop over the path is \<open>chain_zone\<close>, in two phases: \<open>ds_phase\<close> obtains
  the DS set of a zone under its parent's keys (or a proof that there is none), \<open>key_phase\<close>
  the zone's keys under that DS set.

  Lemmas: keys are trusted only along an unbroken chain of verified DS and DNSKEY sets from the
  anchors (relation \<open>trusted\<close>), for keys from the cache too; a zone is called unsigned only
  on a proof; the budget is respected.
\<close>

type_synonym ('n, 's) recursor = "'n \<Rightarrow> rtype \<Rightarrow> 's \<Rightarrow> (recursor_error + 'n message) \<times> 's"
type_synonym anchor = "u16 \<times> u8 \<times> u8 \<times> bytes"

definition ROOT_TRUST_ANCHORS :: "(u16 \<times> u8 \<times> u8 \<times> string) list" where
  "ROOT_TRUST_ANCHORS =
     [(20326, 8, 2, ''E06D44B80B8F1D39A95C0B0D7C65D08458E880409BBC683457104237C7F8EC8D''),
      (38696, 8, 2, ''683D2D0ACB8C9B712A1948B27F741219298D0A450D612C483AF444A4C0FB2B16'')]"

record cached_zone_keys =
  czk_keys :: "dnskey list"
  czk_expires_at :: u64

datatype zone_signedness = Signed | ProvenUnsigned | Unknown

record signed_zone_entry =
  sz_signedness :: zone_signedness
  sz_expires_at :: u64

datatype chain_result = Trusted "dnskey list" u32 | Unsigned u32 | Chain_Bogus

record 's vstate =
  vs_budget :: validation_budget
  vs_keys :: "(string \<times> cached_zone_keys) list"
  vs_signed :: "(string \<times> signed_zone_entry) list"
  vs_net :: 's

text \<open>A step of the validator that resolves, checks signatures, or marks a zone.\<close>

definition fetch :: "('n, 's) recursor \<Rightarrow> 'n \<Rightarrow> rtype \<Rightarrow> 's vstate \<Rightarrow> (recursor_error + 'n message) \<times> 's vstate" where
  "fetch res zone rtype st = (case res zone rtype (vs_net st) of (r, s') \<Rightarrow> (r, st\<lparr>vs_net := s'\<rparr>))"

definition mark_zone :: "string \<Rightarrow> zone_signedness \<Rightarrow> u64 \<Rightarrow> 's vstate \<Rightarrow> 's vstate" where
  "mark_zone key sd expires st =
     st\<lparr>vs_signed := dm_insert key \<lparr>sz_signedness = sd, sz_expires_at = expires\<rparr> (vs_signed st)\<rparr>"

section \<open>The DS set of a zone\<close>

definition root_anchors :: "anchor list" where
  "root_anchors = filter_map (\<lambda>(tag, alg, dt, hex). map_option (\<lambda>bytes. (tag, alg, dt, bytes)) (hex_decode hex))
     ROOT_TRUST_ANCHORS"

fun ds_of :: "'n rdata \<Rightarrow> ds option" where
  "ds_of (RD_DS d) = Some d"
| "ds_of _ = None"

fun dnskey_of :: "'n rdata \<Rightarrow> dnskey option" where
  "dnskey_of (RD_DNSKEY k) = Some k"
| "dnskey_of _ = None"

definition owned_data :: "'n lib \<Rightarrow> ('n rdata \<Rightarrow> 'd option) \<Rightarrow> 'n \<Rightarrow> 'n rr list \<Rightarrow> 'd list" where
  "owned_data L f zone answers = filter_map (\<lambda>r. f (rr_data r)) (filter (\<lambda>r. name_eq L (rr_name r) zone) answers)"

definition owned_sigs :: "'n lib \<Rightarrow> rtype \<Rightarrow> 'n \<Rightarrow> 'n rr list \<Rightarrow> 'n rr list" where
  "owned_sigs L t zone answers = filter (\<lambda>r. name_eq L (rr_name r) zone \<and> covers_type t (rr_data r)) answers"

definition owned_rrset :: "'n lib \<Rightarrow> rtype \<Rightarrow> 'n \<Rightarrow> 'n rr list \<Rightarrow> 'n rr list" where
  "owned_rrset L t zone answers = filter (\<lambda>r. rr_type r = t \<and> name_eq L (rr_name r) zone) answers"

definition denial_status ::
  "'n lib \<Rightarrow> u64 \<Rightarrow> dnskey list \<Rightarrow> 'n \<Rightarrow> 'n rr list \<Rightarrow> validation_budget \<Rightarrow> dnssec_status \<times> validation_budget" where
  "denial_status L now parent_keys zone authority b =
     (if \<exists>r \<in> set authority. rr_type r = RT_NSEC3 then validate_nsec3 L now parent_keys zone RT_DS authority b
      else if \<exists>r \<in> set authority. rr_type r = RT_NSEC then validate_nsec L now parent_keys zone RT_DS authority b
      else (Bogus, b))"

definition anchor_of_ds :: "'n lib \<Rightarrow> ds \<Rightarrow> anchor option" where
  "anchor_of_ds L d =
     (let dt = ds_digest_type d; alg = alg_u8 L (ds_algorithm d);
          alg_supported = alg \<in> {5, 7, 8, 10, 13, 14, 15, 18} in
      if (dt = 1 \<or> dt = 2 \<or> dt = 4) \<and> alg_supported then Some (ds_key_tag d, alg, dt, ds_digest d) else None)"

datatype ds_outcome = Ds_Return chain_result | Ds_Skip | Ds_Anchors "anchor list" u32

definition ds_absent ::
  "'n lib \<Rightarrow> ('s \<Rightarrow> u64) \<Rightarrow> 'n \<Rightarrow> dnskey list \<Rightarrow> 'n message \<Rightarrow> 's vstate \<Rightarrow> ds_outcome \<times> 's vstate" where
  "ds_absent L clock zone parent_keys ds_msg st =
     (case denial_status L (clock (vs_net st)) parent_keys zone (m_ns ds_msg) (vs_budget st) of
        (status, b) \<Rightarrow>
          (let st' = st\<lparr>vs_budget := b\<rparr>; ttl = calculate_min_ttl ds_msg in
           case status of
             InsecureUnsigned \<Rightarrow>
               (Ds_Return (Unsigned ttl),
                mark_zone (name_key L zone) ProvenUnsigned (clock (vs_net st') + ucast (min ttl 86400)) st')
           | Secure \<Rightarrow> (Ds_Skip, st')
           | _ \<Rightarrow> (Ds_Return Chain_Bogus, st')))"

definition ds_present ::
  "'n lib \<Rightarrow> ('s \<Rightarrow> u64) \<Rightarrow> 'n \<Rightarrow> dnskey list \<Rightarrow> 'n message \<Rightarrow> ds list \<Rightarrow> 's vstate \<Rightarrow> ds_outcome \<times> 's vstate" where
  "ds_present L clock zone parent_keys ds_msg ds_records st =
     (let sigs = owned_sigs L RT_DS zone (m_answers ds_msg);
          full = owned_rrset L RT_DS zone (m_answers ds_msg); now = clock (vs_net st); ttl = calculate_min_ttl ds_msg in
      if sigs = [] then (Ds_Return Chain_Bogus, st)
      else (case try_sigs L (\<lambda>s k r. verify_rrsig L now s k r full) RT_DS parent_keys sigs (vs_budget st) of
              (Found, b) \<Rightarrow>
                (let st' = st\<lparr>vs_budget := b\<rparr>; anchors = filter_map (anchor_of_ds L) ds_records in
                 if anchors = []
                 then (Ds_Return (Unsigned ttl), mark_zone (name_key L zone) ProvenUnsigned (now + ucast (min ttl 86400)) st')
                 else (Ds_Anchors anchors ttl, st'))
            | (_, b) \<Rightarrow> (Ds_Return Chain_Bogus, st\<lparr>vs_budget := b\<rparr>)))"

definition ds_phase ::
  "'n lib \<Rightarrow> ('n, 's) recursor \<Rightarrow> ('s \<Rightarrow> u64) \<Rightarrow> 'n \<Rightarrow> dnskey list option \<Rightarrow> 's vstate \<Rightarrow> ds_outcome \<times> 's vstate" where
  "ds_phase L res clock zone trusted_parent_keys st =
     (if n_is_root L zone then (Ds_Anchors root_anchors 300, st)
      else (case trusted_parent_keys of
              None \<Rightarrow> (Ds_Return Chain_Bogus, st)
            | Some parent_keys \<Rightarrow>
                (case fetch res zone RT_DS st of
                   (Inl _, st') \<Rightarrow> (Ds_Return Chain_Bogus, st')
                 | (Inr ds_msg, st') \<Rightarrow>
                     (let ds_records = owned_data L ds_of zone (m_answers ds_msg) in
                      if ds_records = [] then ds_absent L clock zone parent_keys ds_msg st'
                      else ds_present L clock zone parent_keys ds_msg ds_records st'))))"

section \<open>The keys of a zone\<close>

definition anchor_matches :: "'n lib \<Rightarrow> 'n \<Rightarrow> dnskey \<Rightarrow> anchor \<Rightarrow> bool" where
  "anchor_matches L zone cand a =
     (case a of (tag, alg, digest_type, digest) \<Rightarrow>
        tag = key_tag_or_max L cand \<and> alg = alg_u8 L (dk_algorithm cand) \<and>
        compute_ds_digest L zone cand digest_type = Some digest)"

definition matched_keys :: "'n lib \<Rightarrow> 'n \<Rightarrow> anchor list \<Rightarrow> dnskey list \<Rightarrow> dnskey list" where
  "matched_keys L zone trusted_ds candidates =
     concat (map (\<lambda>cand. map (\<lambda>_. cand) (filter (anchor_matches L zone cand) trusted_ds)) candidates)"

text \<open>\<open>None\<close> is Bogus; otherwise the zone's keys and the TTL of the DNSKEY response.\<close>

definition key_phase ::
  "'n lib \<Rightarrow> ('n, 's) recursor \<Rightarrow> ('s \<Rightarrow> u64) \<Rightarrow> 'n \<Rightarrow> anchor list \<Rightarrow> 's vstate \<Rightarrow> (dnskey list \<times> u32) option \<times> 's vstate" where
  "key_phase L res clock zone trusted_ds st =
     (case fetch res zone RT_DNSKEY st of
        (Inl _, st') \<Rightarrow> (None, st')
      | (Inr msg, st') \<Rightarrow>
          (let answers = m_answers msg; now = clock (vs_net st');
               candidates = owned_data L dnskey_of zone answers;
               sigs = owned_sigs L RT_DNSKEY zone answers;
               matched = matched_keys L zone trusted_ds candidates;
               full = owned_rrset L RT_DNSKEY zone answers in
           if candidates = [] then (None, st')
           else if sigs = [] then (None, st')
           else if matched = [] then (None, st')
           else (case try_sigs L (\<lambda>s k r. verify_rrsig L now s k r full) RT_DNSKEY matched sigs (vs_budget st') of
                   (Found, b) \<Rightarrow>
                     (Some (filter (\<lambda>k. dk_flags k AND 0x0100 \<noteq> 0) candidates, calculate_min_ttl msg), st'\<lparr>vs_budget := b\<rparr>)
                 | (_, b) \<Rightarrow> (None, st'\<lparr>vs_budget := b\<rparr>))))"

section \<open>The walk\<close>

datatype walk_step = Walk_Return chain_result | Walk_On "dnskey list option" u32

definition chain_zone_fresh ::
  "'n lib \<Rightarrow> ('n, 's) recursor \<Rightarrow> ('s \<Rightarrow> u64) \<Rightarrow> 'n \<Rightarrow> dnskey list option \<Rightarrow> u32 \<Rightarrow> 's vstate \<Rightarrow> walk_step \<times> 's vstate" where
  "chain_zone_fresh L res clock zone parent last_ttl st =
     (case ds_phase L res clock zone parent st of
        (Ds_Return r, st') \<Rightarrow> (Walk_Return r, st')
      | (Ds_Skip, st') \<Rightarrow> (Walk_On parent last_ttl, st')
      | (Ds_Anchors trusted_ds parent_ds_ttl, st') \<Rightarrow>
          (case key_phase L res clock zone trusted_ds st' of
             (None, st'') \<Rightarrow> (Walk_Return Chain_Bogus, st'')
           | (Some (keys, dnskey_ttl), st'') \<Rightarrow>
               (let effective_ttl = (if n_is_root L zone then dnskey_ttl else min dnskey_ttl parent_ds_ttl);
                    entry = \<lparr>czk_keys = keys, czk_expires_at = clock (vs_net st'') + ucast effective_ttl\<rparr> in
                (Walk_On (Some keys) effective_ttl,
                 st''\<lparr>vs_keys := dm_insert (name_key L zone) entry (vs_keys st'')\<rparr>))))"

definition chain_zone ::
  "'n lib \<Rightarrow> ('n, 's) recursor \<Rightarrow> ('s \<Rightarrow> u64) \<Rightarrow> 'n \<Rightarrow> dnskey list option \<Rightarrow> u32 \<Rightarrow> 's vstate \<Rightarrow> walk_step \<times> 's vstate" where
  "chain_zone L res clock zone parent last_ttl st =
     (case dm_get (vs_keys st) (name_key L zone) of
        Some c \<Rightarrow>
          if czk_expires_at c > clock (vs_net st) then (Walk_On (Some (czk_keys c)) last_ttl, st)
          else chain_zone_fresh L res clock zone parent last_ttl st
      | None \<Rightarrow> chain_zone_fresh L res clock zone parent last_ttl st)"

fun chain_walk ::
  "'n lib \<Rightarrow> ('n, 's) recursor \<Rightarrow> ('s \<Rightarrow> u64) \<Rightarrow> 'n list \<Rightarrow> dnskey list option \<Rightarrow> u32 \<Rightarrow> 's vstate \<Rightarrow> chain_result \<times> 's vstate" where
  "chain_walk L res clock [] parent last_ttl st =
     ((case parent of Some keys \<Rightarrow> Trusted keys last_ttl | None \<Rightarrow> Unsigned last_ttl), st)"
| "chain_walk L res clock (zone # path) parent last_ttl st =
     (case chain_zone L res clock zone parent last_ttl st of
        (Walk_Return r, st') \<Rightarrow> (r, st')
      | (Walk_On parent' ttl', st') \<Rightarrow> chain_walk L res clock path parent' ttl' st')"

definition build_trust_chain ::
  "'n lib \<Rightarrow> ('n, 's) recursor \<Rightarrow> ('s \<Rightarrow> u64) \<Rightarrow> 'n \<Rightarrow> 's vstate \<Rightarrow> chain_result \<times> 's vstate" where
  "build_trust_chain L res clock target_zone st =
     chain_walk L res clock (rev (name_walk L target_zone)) None 300 st"

section \<open>Zone apex and signedness\<close>

definition better_soa :: "'n lib \<Rightarrow> 'n \<Rightarrow> 'n rr \<Rightarrow> 'n option \<Rightarrow> 'n option" where
  "better_soa L name rec best =
     (if is_soa (rr_data rec) \<and> (name_eq L (rr_name rec) name \<or> n_zone_of L (rr_name rec) name) \<and>
         (case best of Some cur \<Rightarrow> n_num_labels L (rr_name rec) > n_num_labels L cur | None \<Rightarrow> True)
      then Some (rr_name rec) else best)"

definition apex_from_msg :: "'n lib \<Rightarrow> 'n \<Rightarrow> 'n \<Rightarrow> 'n message \<Rightarrow> 'n option" where
  "apex_from_msg L name candidate msg =
     (if \<exists>a \<in> set (m_answers msg). name_eq L (rr_name a) candidate \<and> rr_type a = RT_SOA then Some candidate
      else if \<exists>a \<in> set (m_answers msg). name_eq L (rr_name a) candidate \<and> rr_type a = RT_CNAME then None
      else fold (better_soa L name) (m_answers msg @ m_ns msg) None)"

fun apex_walk ::
  "'n lib \<Rightarrow> ('n, 's) recursor \<Rightarrow> 'n \<Rightarrow> 'n list \<Rightarrow> 's vstate \<Rightarrow> 'n option \<times> 's vstate" where
  "apex_walk L res name [] st = (None, st)"
| "apex_walk L res name (candidate # rest) st =
     (case fetch res candidate RT_SOA st of
        (Inl _, st') \<Rightarrow> apex_walk L res name rest st'
      | (Inr msg, st') \<Rightarrow>
          (case apex_from_msg L name candidate msg of
             Some z \<Rightarrow> (Some z, st')
           | None \<Rightarrow> apex_walk L res name rest st'))"

definition find_zone_apex :: "'n lib \<Rightarrow> ('n, 's) recursor \<Rightarrow> 'n \<Rightarrow> 's vstate \<Rightarrow> 'n option \<times> 's vstate" where
  "find_zone_apex L res name st = apex_walk L res name (name_walk L name) st"

definition cached_signedness :: "'n lib \<Rightarrow> u64 \<Rightarrow> (string \<times> signed_zone_entry) list \<Rightarrow> 'n \<Rightarrow> zone_signedness option" where
  "cached_signedness L now cache name =
     find_map (\<lambda>cur. case dm_get cache (name_key L cur) of
        Some e \<Rightarrow> if sz_expires_at e > now
          then (case sz_signedness e of
                  ProvenUnsigned \<Rightarrow> Some ProvenUnsigned
                | Signed \<Rightarrow> if name_eq L cur name then Some Signed else None
                | Unknown \<Rightarrow> None)
          else None
      | None \<Rightarrow> None) (name_walk L name)"

definition is_zone_signed ::
  "'n lib \<Rightarrow> ('n, 's) recursor \<Rightarrow> ('s \<Rightarrow> u64) \<Rightarrow> 'n \<Rightarrow> 's vstate \<Rightarrow> zone_signedness \<times> 's vstate" where
  "is_zone_signed L res clock name st =
     (case cached_signedness L (clock (vs_net st)) (vs_signed st) name of
        Some sd \<Rightarrow> (sd, st)
      | None \<Rightarrow>
          (let (apex, st1) = find_zone_apex L res name st;
               zone = (case apex of Some z \<Rightarrow> z | None \<Rightarrow> if n_is_root L name then n_root L else n_base_name L name);
               (result, st2) = build_trust_chain L res clock zone st1;
               (sd, proof_ttl) = (case result of Trusted _ ttl \<Rightarrow> (Signed, ttl) | Unsigned ttl \<Rightarrow> (ProvenUnsigned, ttl)
                                  | Chain_Bogus \<Rightarrow> (Unknown, 0)) in
           if sd \<noteq> Unknown
           then (sd, mark_zone (name_key L zone) sd (clock (vs_net st2) + ucast (min proof_ttl 86400)) st2)
           else (sd, st2)))"

section \<open>Trust\<close>

text \<open>What it takes for a key set to be a zone's: the DNSKEY set carries, at some time, a valid
  signature by one of its keys that a trusted digest names; the keys kept have the zone flag.\<close>

definition keys_authentic :: "'n lib \<Rightarrow> 'n \<Rightarrow> anchor list \<Rightarrow> dnskey list \<Rightarrow> bool" where
  "keys_authentic L zone anchors keys \<longleftrightarrow>
     (\<exists>now answers. keys = filter (\<lambda>k. dk_flags k AND 0x0100 \<noteq> 0) (owned_data L dnskey_of zone answers) \<and>
        (\<exists>sep \<in> set (owned_data L dnskey_of zone answers). \<exists>a \<in> set anchors. anchor_matches L zone sep a \<and>
           (\<exists>r \<in> set (owned_sigs L RT_DNSKEY zone answers). \<exists>s. rr_data r = RD_RRSIG s \<and>
              verify_rrsig L now s sep r (owned_rrset L RT_DNSKEY zone answers))))"

text \<open>A DS set is authentic under the parent's keys when one of them signed it.\<close>

definition ds_authentic :: "'n lib \<Rightarrow> 'n \<Rightarrow> dnskey list \<Rightarrow> ds list \<Rightarrow> bool" where
  "ds_authentic L zone parent_keys ds_records \<longleftrightarrow>
     (\<exists>now answers. ds_records = owned_data L ds_of zone answers \<and>
        (\<exists>r \<in> set (owned_sigs L RT_DS zone answers). \<exists>s. rr_data r = RD_RRSIG s \<and>
           (\<exists>k \<in> set parent_keys. verify_rrsig L now s k r (owned_rrset L RT_DS zone answers))))"

text \<open>Trust by induction along the delegations, starting at the built-in anchors. Zones are named
  by their cache key.\<close>

inductive trusted :: "'n lib \<Rightarrow> string \<Rightarrow> dnskey list \<Rightarrow> bool" for L :: "'n lib" where
  root: "n_is_root L zone \<Longrightarrow> keys_authentic L zone root_anchors keys \<Longrightarrow> trusted L (name_key L zone) keys"
| child: "trusted L (name_key L parent) parent_keys \<Longrightarrow> parent \<in> set (name_walk L zone) \<Longrightarrow> ds_authentic L zone parent_keys ds_records \<Longrightarrow>
    anchors = filter_map (anchor_of_ds L) ds_records \<Longrightarrow> keys_authentic L zone anchors keys \<Longrightarrow>
    trusted L (name_key L zone) keys"

definition unsigned_proof :: "'n lib \<Rightarrow> 'n \<Rightarrow> dnskey list \<Rightarrow> bool" where
  "unsigned_proof L zone parent_keys \<longleftrightarrow>
     (\<exists>now authority b b'. denial_status L now parent_keys zone authority b = (InsecureUnsigned, b')) \<or>
     (\<exists>ds_records. ds_records \<noteq> [] \<and> ds_authentic L zone parent_keys ds_records \<and> filter_map (anchor_of_ds L) ds_records = [])"

text \<open>A zone is provably unsigned when it or a zone above it is, under trusted keys of a zone
  above that one.\<close>

definition proven_unsigned :: "'n lib \<Rightarrow> 'n \<Rightarrow> bool" where
  "proven_unsigned L name \<longleftrightarrow>
     (\<exists>zone \<in> set (name_walk L name). \<exists>parent \<in> set (name_walk L zone). \<exists>keys.
        trusted L (name_key L parent) keys \<and> unsigned_proof L zone keys)"

definition keys_inv :: "'n lib \<Rightarrow> 's vstate \<Rightarrow> bool" where
  "keys_inv L st \<longleftrightarrow> (\<forall>k c. dm_get (vs_keys st) k = Some c \<longrightarrow> trusted L k (czk_keys c))"

definition signed_inv :: "'n lib \<Rightarrow> 's vstate \<Rightarrow> bool" where
  "signed_inv L st \<longleftrightarrow> (\<forall>k e. dm_get (vs_signed st) k = Some e \<longrightarrow> sz_signedness e = ProvenUnsigned \<longrightarrow>
     (\<exists>zone. k = name_key L zone \<and> proven_unsigned L zone))"

lemma fetch_fields:
  "fetch res zone t st = (r, st') \<Longrightarrow> vs_keys st' = vs_keys st \<and> vs_signed st' = vs_signed st \<and> vs_budget st' = vs_budget st"
  by (auto simp: fetch_def split: prod.splits)

lemma name_walk_suffix:
  assumes "name_laws L"
  shows "name_walk L t = xs @ z # ys \<Longrightarrow> name_walk L z = z # ys"
proof (induction xs arbitrary: t)
  case Nil
  then have "t = z" using hd_name_walk [of L t] by simp
  with Nil show ?case by simp
next
  case (Cons x xs)
  then have "\<not> n_is_root L t" by (subst (asm) name_walk_unfold [OF assms]) (auto split: if_splits)
  with Cons.prems have "name_walk L (n_base_name L t) = xs @ z # ys"
    by (subst (asm) name_walk_unfold [OF assms]) auto
  then show ?case by (rule Cons.IH)
qed

lemma walk_prefix:
  assumes "name_laws L" and "rev (name_walk L t) = pre @ zone # rest"
  shows "zone \<in> set (name_walk L t)" "set pre \<subseteq> set (name_walk L zone)" "n_is_root L zone \<or> pre \<noteq> []"
proof -
  from assms(2) have w: "name_walk L t = rev rest @ zone # rev pre" by (metis rev_append rev_rev_ident rev.simps(2) append_assoc append_Cons append_Nil)
  then show "zone \<in> set (name_walk L t)" by simp
  from name_walk_suffix [OF assms(1) w] show "set pre \<subseteq> set (name_walk L zone)" by auto
  show "n_is_root L zone \<or> pre \<noteq> []"
    using last_name_walk [OF assms(1), of t] w by (cases pre) auto
qed

lemma owned_sigs_mem: "r \<in> set (owned_sigs L t zone answers) \<Longrightarrow> \<exists>s. rr_data r = RD_RRSIG s \<and> sig_type_covered s = t"
  by (cases "rr_data r") (auto simp: owned_sigs_def)

lemma key_phase_sound:
  assumes "key_phase L res clock zone anchors st = (Some (keys, ttl), st')"
  shows "keys_authentic L zone anchors keys"
proof -
  obtain r st1 where f: "fetch res zone RT_DNSKEY st = (r, st1)" by (metis surj_pair)
  from assms f obtain msg where r: "r = Inr msg" by (cases r) (auto simp: key_phase_def)
  let ?a = "m_answers msg"
  let ?m = "matched_keys L zone anchors (owned_data L dnskey_of zone ?a)"
  from assms f r obtain b where
    keys: "keys = filter (\<lambda>k. dk_flags k AND 0x0100 \<noteq> 0) (owned_data L dnskey_of zone ?a)"
    and found: "try_sigs L (\<lambda>s k r. verify_rrsig L (clock (vs_net st1)) s k r (owned_rrset L RT_DNSKEY zone ?a)) RT_DNSKEY
      ?m (owned_sigs L RT_DNSKEY zone ?a) (vs_budget st1) = (Found, b)"
    by (auto simp: key_phase_def Let_def split: if_splits prod.splits search.splits)
  from try_sigs_Found [OF found] obtain r s k where
    "r \<in> set (owned_sigs L RT_DNSKEY zone ?a)" "rr_data r = RD_RRSIG s" "k \<in> set ?m"
    "verify_rrsig L (clock (vs_net st1)) s k r (owned_rrset L RT_DNSKEY zone ?a)" by blast
  moreover from \<open>k \<in> set ?m\<close> obtain a where
    "k \<in> set (owned_data L dnskey_of zone ?a)" "a \<in> set anchors" "anchor_matches L zone k a"
    by (auto simp: matched_keys_def)
  ultimately show ?thesis unfolding keys_authentic_def using keys by blast
qed

lemma key_phase_fields:
  "key_phase L res clock zone anchors st = (r, st') \<Longrightarrow>
   vs_keys st' = vs_keys st \<and> vs_signed st' = vs_signed st \<and> budget_step (vs_budget st) (vs_budget st')"
  unfolding key_phase_def
  by (auto simp: Let_def split: prod.splits sum.splits if_splits search.splits dest!: fetch_fields dest: try_sigs_step)

text \<open>What the DS phase establishes: anchors rest on the built-in digests or on a DS set signed
  by the parent, Unsigned on a proof; it never returns keys.\<close>

fun ds_outcome_ok :: "'n lib \<Rightarrow> 'n \<Rightarrow> dnskey list option \<Rightarrow> ds_outcome \<Rightarrow> bool" where
  "ds_outcome_ok L zone parent (Ds_Anchors anchors ttl) \<longleftrightarrow>
     n_is_root L zone \<and> anchors = root_anchors \<or>
     (\<exists>keys ds_records. parent = Some keys \<and> ds_authentic L zone keys ds_records \<and>
        anchors = filter_map (anchor_of_ds L) ds_records)"
| "ds_outcome_ok L zone parent (Ds_Return (Unsigned ttl)) \<longleftrightarrow> (\<exists>keys. parent = Some keys \<and> unsigned_proof L zone keys)"
| "ds_outcome_ok L zone parent (Ds_Return (Trusted keys ttl)) \<longleftrightarrow> False"
| "ds_outcome_ok L zone parent _ \<longleftrightarrow> True"

lemma ds_absent_ok:
  "ds_absent L clock zone keys msg st = (out, st') \<Longrightarrow> ds_outcome_ok L zone (Some keys) out"
  unfolding ds_absent_def
  by (auto simp: Let_def unsigned_proof_def split: prod.splits dnssec_status.splits) blast

lemma ds_present_ok:
  assumes "ds_present L clock zone keys msg (owned_data L ds_of zone (m_answers msg)) st = (out, st')"
    and ne: "owned_data L ds_of zone (m_answers msg) \<noteq> []"
  shows "ds_outcome_ok L zone (Some keys) out"
proof -
  let ?v = "\<lambda>s k r. verify_rrsig L (clock (vs_net st)) s k r (owned_rrset L RT_DS zone (m_answers msg))"
  let ?sigs = "owned_sigs L RT_DS zone (m_answers msg)"
  obtain res b where q: "try_sigs L ?v RT_DS keys ?sigs (vs_budget st) = (res, b)" by (metis surj_pair)
  show ?thesis
  proof (cases "res = Found")
    case False
    with assms(1) q show ?thesis
      by (cases res) (auto simp: ds_present_def Let_def split: if_splits)
  next
    case True
    from try_sigs_Found [OF q [unfolded True]]
    have "ds_authentic L zone keys (owned_data L ds_of zone (m_answers msg))"
      unfolding ds_authentic_def by blast
    with assms True q show ?thesis
      by (auto simp: ds_present_def Let_def unsigned_proof_def split: if_splits)
  qed
qed

lemma ds_phase_ok:
  assumes "ds_phase L res clock zone parent st = (out, st')"
  shows "ds_outcome_ok L zone parent out"
proof (cases "n_is_root L zone")
  case True
  with assms show ?thesis by (auto simp: ds_phase_def)
next
  case False
  with assms show ?thesis
    by (auto simp: ds_phase_def Let_def split: option.splits prod.splits sum.splits if_splits
        dest: ds_absent_ok ds_present_ok)
qed

lemma ds_absent_fields:
  "ds_absent L clock zone keys msg st = (out, st') \<Longrightarrow>
   vs_keys st' = vs_keys st \<and> budget_step (vs_budget st) (vs_budget st') \<and>
   (vs_signed st' = vs_signed st \<or>
    (\<exists>ttl e. out = Ds_Return (Unsigned ttl) \<and> vs_signed st' = dm_insert (name_key L zone) e (vs_signed st)))"
  unfolding ds_absent_def denial_status_def
  by (auto simp: Let_def mark_zone_def split: prod.splits dnssec_status.splits if_splits
      dest: validate_nsec_step validate_nsec3_step)

lemma ds_present_fields:
  "ds_present L clock zone keys msg ds st = (out, st') \<Longrightarrow>
   vs_keys st' = vs_keys st \<and> budget_step (vs_budget st) (vs_budget st') \<and>
   (vs_signed st' = vs_signed st \<or>
    (\<exists>ttl e. out = Ds_Return (Unsigned ttl) \<and> vs_signed st' = dm_insert (name_key L zone) e (vs_signed st)))"
  unfolding ds_present_def
  by (auto simp: Let_def mark_zone_def split: prod.splits search.splits if_splits dest: try_sigs_step)

lemma ds_phase_fields:
  assumes "ds_phase L res clock zone parent st = (out, st')"
  shows "vs_keys st' = vs_keys st \<and> budget_step (vs_budget st) (vs_budget st') \<and>
    (vs_signed st' = vs_signed st \<or>
     (\<exists>ttl e. out = Ds_Return (Unsigned ttl) \<and> vs_signed st' = dm_insert (name_key L zone) e (vs_signed st)))"
proof (cases "n_is_root L zone \<or> parent = None")
  case True
  with assms show ?thesis by (auto simp: ds_phase_def split: option.splits if_splits)
next
  case False
  then obtain keys where p: "parent = Some keys" by auto
  obtain r st1 where f: "fetch res zone RT_DS st = (r, st1)" by (metis surj_pair)
  note ff = fetch_fields [OF f]
  show ?thesis
  proof (cases r)
    case (Inl e)
    with assms False p f ff show ?thesis by (auto simp: ds_phase_def)
  next
    case (Inr msg)
    with assms False p f have "ds_absent L clock zone keys msg st1 = (out, st') \<or>
        ds_present L clock zone keys msg (owned_data L ds_of zone (m_answers msg)) st1 = (out, st')"
      by (auto simp: ds_phase_def Let_def split: if_splits)
    with ff show ?thesis using ds_absent_fields ds_present_fields by metis
  qed
qed

section \<open>Soundness of the walk\<close>

definition parent_ok :: "'n lib \<Rightarrow> 'n list \<Rightarrow> dnskey list option \<Rightarrow> bool" where
  "parent_ok L pre parent \<longleftrightarrow> (\<forall>keys. parent = Some keys \<longrightarrow> (\<exists>p \<in> set pre. trusted L (name_key L p) keys))"

definition vinv :: "'n lib \<Rightarrow> 's vstate \<Rightarrow> bool" where
  "vinv L st \<longleftrightarrow> keys_inv L st \<and> signed_inv L st"

lemma vinv_net [simp]: "vinv L (st\<lparr>vs_net := s\<rparr>) = vinv L st" "vinv L (st\<lparr>vs_budget := b\<rparr>) = vinv L st"
  by (simp_all add: vinv_def keys_inv_def signed_inv_def)

lemma proven_unsignedI:
  assumes "name_laws L" "rev (name_walk L t) = pre @ zone # rest" "parent_ok L pre (Some keys)" "unsigned_proof L zone keys"
  shows "proven_unsigned L t" "proven_unsigned L zone"
proof -
  note w = walk_prefix [OF assms(1,2)]
  from assms(3) obtain p where "p \<in> set pre" "trusted L (name_key L p) keys" by (auto simp: parent_ok_def)
  with w assms(4) show "proven_unsigned L t" unfolding proven_unsigned_def by blast
  have "zone \<in> set (name_walk L zone)" by (metis hd_in_set hd_name_walk name_walk_nonempty)
  with \<open>p \<in> set pre\<close> \<open>trusted L (name_key L p) keys\<close> w assms(4) show "proven_unsigned L zone"
    unfolding proven_unsigned_def by blast
qed

lemma chain_zone_fresh_sound:
  assumes laws: "name_laws L" and path: "rev (name_walk L t) = pre @ zone # rest"
    and par: "parent_ok L pre parent" and inv: "vinv L st"
    and step: "chain_zone_fresh L res clock zone parent ttl st = (out, st')"
  shows "vinv L st' \<and> (case out of Walk_Return r \<Rightarrow> (\<forall>k u. r \<noteq> Trusted k u) \<and> (\<forall>u. r = Unsigned u \<longrightarrow> proven_unsigned L t)
     | Walk_On parent' _ \<Rightarrow> parent_ok L (pre @ [zone]) parent' \<and> (n_is_root L zone \<longrightarrow> parent' \<noteq> None) \<and> (parent \<noteq> None \<longrightarrow> parent' \<noteq> None))"
proof -
  obtain ds st1 where d: "ds_phase L res clock zone parent st = (ds, st1)" by (metis surj_pair)
  note ok = ds_phase_ok [OF d] and fl = ds_phase_fields [OF d]
  have pu: "proven_unsigned L t \<and> proven_unsigned L zone" if "ds = Ds_Return (Unsigned u)" for u
    using ok that par proven_unsignedI [OF laws path] by auto
  have inv1: "vinv L st1"
    using inv fl pu unfolding vinv_def keys_inv_def signed_inv_def by (auto simp: dm_simps split: if_splits)
  show ?thesis
  proof (cases ds)
    case (Ds_Return r)
    with step d inv1 pu ok show ?thesis by (cases r) (auto simp: chain_zone_fresh_def)
  next
    case Ds_Skip
    have "\<not> n_is_root L zone" using d Ds_Skip by (auto simp: ds_phase_def)
    with Ds_Skip step d inv1 par show ?thesis by (auto simp: chain_zone_fresh_def parent_ok_def)
  next
    case (Ds_Anchors anchors dttl)
    obtain kr st2 where k: "key_phase L res clock zone anchors st1 = (kr, st2)" by (metis surj_pair)
    have inv2: "vinv L st2" using inv1 key_phase_fields [OF k] by (simp add: vinv_def keys_inv_def signed_inv_def)
    show ?thesis
    proof (cases kr)
      case None
      with Ds_Anchors step d k inv2 show ?thesis by (auto simp: chain_zone_fresh_def)
    next
      case (Some kt)
      obtain keys kttl where kt: "kt = (keys, kttl)" by (cases kt)
      have auth: "keys_authentic L zone anchors keys" using key_phase_sound k Some kt by metis
      have tr: "trusted L (name_key L zone) keys"
      proof (cases "n_is_root L zone \<and> anchors = root_anchors")
        case True
        with auth show ?thesis by (auto intro: trusted.root)
      next
        case False
        with ok Ds_Anchors obtain pk dsr where "parent = Some pk" "ds_authentic L zone pk dsr"
          "anchors = filter_map (anchor_of_ds L) dsr" by auto
        moreover from this(1) par obtain p where "p \<in> set pre" "trusted L (name_key L p) pk" by (auto simp: parent_ok_def)
        moreover have "p \<in> set (name_walk L zone)" using walk_prefix(2) [OF laws path] \<open>p \<in> set pre\<close> by blast
        ultimately show ?thesis using auth by (blast intro: trusted.child)
      qed
      let ?ttl = "if n_is_root L zone then kttl else min kttl dttl"
      let ?e = "\<lparr>czk_keys = keys, czk_expires_at = clock (vs_net st2) + ucast ?ttl\<rparr>"
      have "out = Walk_On (Some keys) ?ttl" "st' = st2\<lparr>vs_keys := dm_insert (name_key L zone) ?e (vs_keys st2)\<rparr>"
        using step d k Ds_Anchors Some kt by (simp_all add: chain_zone_fresh_def Let_def)
      with inv2 tr show ?thesis
        by (auto simp: vinv_def keys_inv_def signed_inv_def parent_ok_def dm_simps split: if_splits)
    qed
  qed
qed

lemma chain_zone_sound:
  assumes "name_laws L" "rev (name_walk L t) = pre @ zone # rest" "parent_ok L pre parent" "vinv L st"
    and "chain_zone L res clock zone parent ttl st = (out, st')"
  shows "vinv L st' \<and> (case out of Walk_Return r \<Rightarrow> (\<forall>k u. r \<noteq> Trusted k u) \<and> (\<forall>u. r = Unsigned u \<longrightarrow> proven_unsigned L t)
     | Walk_On parent' _ \<Rightarrow> parent_ok L (pre @ [zone]) parent' \<and> (n_is_root L zone \<longrightarrow> parent' \<noteq> None) \<and> (parent \<noteq> None \<longrightarrow> parent' \<noteq> None))"
proof (cases "\<exists>c. dm_get (vs_keys st) (name_key L zone) = Some c \<and> czk_expires_at c > clock (vs_net st)")
  case True
  then obtain c where "dm_get (vs_keys st) (name_key L zone) = Some c" "czk_expires_at c > clock (vs_net st)" by blast
  with assms show ?thesis by (auto simp: chain_zone_def vinv_def keys_inv_def parent_ok_def)
next
  case False
  with assms(5) have "chain_zone_fresh L res clock zone parent ttl st = (out, st')"
    by (auto simp: chain_zone_def split: option.splits)
  then show ?thesis by (rule chain_zone_fresh_sound [OF assms(1-4)])
qed

text \<open>What a finished walk means; in the middle of the path some keys are in force.\<close>

lemma chain_walk_sound:
  assumes laws: "name_laws L"
  shows "rev (name_walk L t) = pre @ path \<Longrightarrow> parent_ok L pre parent \<Longrightarrow> (pre \<noteq> [] \<longrightarrow> parent \<noteq> None) \<Longrightarrow> vinv L st \<Longrightarrow>
    chain_walk L res clock path parent ttl st = (r, st') \<Longrightarrow>
    vinv L st' \<and> (\<forall>k u. r = Trusted k u \<longrightarrow> (\<exists>z \<in> set (name_walk L t). trusted L (name_key L z) k)) \<and>
    (\<forall>u. r = Unsigned u \<longrightarrow> proven_unsigned L t)"
proof (induction path arbitrary: pre parent ttl st)
  case Nil
  then have "pre = rev (name_walk L t)" by simp
  then have "pre \<noteq> []" "set pre = set (name_walk L t)" by simp_all
  with Nil show ?case by (auto simp: parent_ok_def)
next
  case (Cons zone path)
  obtain out st1 where z: "chain_zone L res clock zone parent ttl st = (out, st1)" by (metis surj_pair)
  note s = chain_zone_sound [OF laws Cons.prems(1,2,4) z]
  show ?case
  proof (cases out)
    case (Walk_Return r')
    with s z Cons.prems(5) show ?thesis by auto
  next
    case (Walk_On parent' ttl')
    have "n_is_root L zone \<or> pre \<noteq> []" using walk_prefix(3) [OF laws Cons.prems(1)] .
    with s Walk_On Cons.prems(3) have p: "parent_ok L (pre @ [zone]) parent'" "pre @ [zone] \<noteq> [] \<longrightarrow> parent' \<noteq> None" "vinv L st1"
      by auto
    have "chain_walk L res clock path parent' ttl' st1 = (r, st')" using Cons.prems(5) z Walk_On by simp
    from Cons.IH [OF _ p this] Cons.prems(1) show ?thesis by simp
  qed
qed

lemma build_trust_chain_sound:
  assumes "name_laws L" "vinv L st" "build_trust_chain L res clock zone st = (r, st')"
  shows "vinv L st'" "r = Trusted k u \<Longrightarrow> \<exists>z \<in> set (name_walk L zone). trusted L (name_key L z) k"
    "r = Unsigned u \<Longrightarrow> proven_unsigned L zone"
  using chain_walk_sound [OF assms(1), of zone "[]" "rev (name_walk L zone)" None st res clock 300 r st'] assms
  by (auto simp: build_trust_chain_def parent_ok_def)

text \<open>
  C1. No key is trusted without a chain to the root anchors. In a state whose key cache holds only
  trusted keys, \<open>build_trust_chain\<close> returns keys only of a zone on the path to the target that
  are reached from the two built-in root digests by DS and DNSKEY sets each carrying a valid
  signature of the zone above, whatever the network answers; and the key cache again holds only
  such keys.
\<close>

theorem build_trust_chain_trusted:
  assumes "name_laws L" and "vinv L st"
    and "build_trust_chain L res clock zone st = (Trusted keys ttl, st')"
  shows "(\<exists>z \<in> set (name_walk L zone). trusted L (name_key L z) keys) \<and>
    (\<forall>k c. dm_get (vs_keys st') k = Some c \<longrightarrow> trusted L k (czk_keys c))"
  using build_trust_chain_sound [OF assms] by (simp add: vinv_def keys_inv_def)


text \<open>A root zone whose key matches the first anchor, and which delegates \<open>w.\<close> without DS; a codec that
  knows one message, a question about \<open>w.\<close>.\<close>

definition anchor_digest :: bytes where
  "anchor_digest = the (hex_decode ''E06D44B80B8F1D39A95C0B0D7C65D08458E880409BBC683457104237C7F8EC8D'')"

definition one_query :: "bytes list message" where
  "one_query = empty_msg\<lparr>m_queries := [\<lparr>q_name = [[119]], q_type = RT_NS, q_class = IN\<rparr>]\<rparr>"

definition anchor_lib :: "bytes list lib" where
  "anchor_lib = lab_lib\<lparr>msg_read := \<lambda>_. Some one_query, msg_to_bytes := \<lambda>_. Some [0],
     dnskey_calculate_tag := \<lambda>_. Some 20326, sha256 := \<lambda>_. anchor_digest, dnskey_verify := \<lambda>_ _ _. True\<rparr>"

definition anchor_key :: dnskey where
  "anchor_key = \<lparr>dk_flags = 257, dk_algorithm = RSASHA256, dk_public_bytes = []\<rparr>"

definition anchor_rrsig :: "bytes list \<Rightarrow> rtype \<Rightarrow> bytes list rrsig" where
  "anchor_rrsig owner t = \<lparr>sig_type_covered = t, sig_algorithm = RSASHA256, sig_num_labels = of_nat (length owner),
     sig_original_ttl = 300, sig_expiration = 2000, sig_inception = 1000, sig_key_tag = 20326,
     sig_signer_name = [], sig_sig = []\<rparr>"

definition rec_of :: "bytes list \<Rightarrow> rtype \<Rightarrow> bytes list rdata \<Rightarrow> bytes list rr" where
  "rec_of owner t d = \<lparr>rr_name = owner, rr_type = t, rr_class = IN, rr_ttl = 300, rr_data = d\<rparr>"

lemma rec_of_sel [simp]: "rr_name (rec_of n t d) = n" "rr_type (rec_of n t d) = t" "rr_data (rec_of n t d) = d"
  "rr_class (rec_of n t d) = IN" "rr_ttl (rec_of n t d) = 300"
  by (simp_all add: rec_of_def)

definition anchor_res :: "(bytes list, unit) recursor" where
  "anchor_res zone t s =
     (if t = RT_DNSKEY \<and> zone = [] then
        (Inr (empty_msg\<lparr>m_answers := [rec_of [] RT_DNSKEY (RD_DNSKEY anchor_key), rec_of [] RT_RRSIG (RD_RRSIG (anchor_rrsig [] RT_DNSKEY))]\<rparr>), s)
      else if t = RT_DS then
        (Inr (empty_msg\<lparr>m_ns := [rec_of [[119]] RT_NSEC (RD_NSEC \<lparr>nsec_next = [[122]], nsec_types = [RT_NS]\<rparr>),
           rec_of [[119]] RT_RRSIG (RD_RRSIG (anchor_rrsig [[119]] RT_NSEC))]\<rparr>), s)
      else (Inl NoProgress, s))"

lemma anchor_laws: "name_laws anchor_lib"
  using lab_name_laws by (auto simp: name_laws_def anchor_lib_def label_list_def)

lemma anchor_verify:
  assumes "rr_name r = owner" "rr_type r = t" "rr_class r = IN" "canonical_rdata anchor_lib (rr_data r) = Some []"
    and "owner = [] \<or> owner = [[119]]"
  shows "verify_rrsig anchor_lib 1500 (anchor_rrsig owner t) anchor_key (rec_of owner RT_RRSIG (RD_RRSIG (anchor_rrsig owner t))) [r]"
proof -
  have "rrsig_time_valid (anchor_rrsig owner t) 1500"
    by (simp add: rrsig_time_valid_def anchor_rrsig_def now32_def)
  moreover have "\<exists>tbs. build_tbs_manual anchor_lib (rec_of owner RT_RRSIG (RD_RRSIG (anchor_rrsig owner t))) [r] = Some tbs"
    using assms by (auto simp add: build_tbs_manual_def tbs_sortable_def reconstruct_wildcard_name_def
      owner_label_count_u8_def anchor_rrsig_def label_list_def tbs_encode_def tbs_record_def tbs_rrsig_prefix_def
      emit_name_canonical_def fits_def anchor_lib_def lab_lib_def be16_def be32_def)
  ultimately show ?thesis
    by (auto simp: verify_rrsig_def anchor_rrsig_def anchor_key_def) (simp add: anchor_lib_def)
qed

lemma anchor_tag [simp]: "key_tag_or_max anchor_lib k = 20326" "key_tag_matches anchor_lib k 20326"
  by (simp_all add: key_tag_matches_def key_tag_or_max_def compute_key_tag_def anchor_lib_def)

lemma anchor_root_key: "anchor_matches anchor_lib [] anchor_key (20326, 8, 2, anchor_digest)"
  by (simp add: anchor_matches_def) (simp add: compute_ds_digest_def anchor_lib_def lab_lib_def anchor_key_def)

lemma root_anchors_mem: "(20326, 8, 2, anchor_digest) \<in> set root_anchors"
proof -
  have "hex_decode ''E06D44B80B8F1D39A95C0B0D7C65D08458E880409BBC683457104237C7F8EC8D'' \<noteq> None" by code_simp
  then show ?thesis by (auto simp: root_anchors_def ROOT_TRUST_ANCHORS_def set_filter_map anchor_digest_def)
qed

lemma anchor_sel [simp]: "sig_type_covered (anchor_rrsig n t) = t" "sig_key_tag (anchor_rrsig n t) = 20326"
  by (simp_all add: anchor_rrsig_def)

lemma anchor_misc [simp]: "rdata_emit anchor_lib d = Some []" "n_is_root anchor_lib [] = True" "n_is_root anchor_lib [[119]] = False"
  "name_walk anchor_lib [] = [[]]" "name_walk anchor_lib [[119]] = [[[119]], []]" "\<not> name_eq anchor_lib [[119]] []"
  by (simp_all add: name_walk_def label_list_def anchor_lib_def lab_lib_def name_eq_def lab_show_def eq_ignore_ascii_case_def
      to_ascii_lowercase_def)

definition clock1500 :: "unit \<Rightarrow> u64" where "clock1500 s = 1500"

definition fresh_vstate :: "unit vstate" where
  "fresh_vstate = \<lparr>vs_budget = budget_default, vs_keys = [], vs_signed = [], vs_net = ()\<rparr>"

lemma fresh_vinv: "vinv L fresh_vstate"
  by (simp add: vinv_def keys_inv_def signed_inv_def fresh_vstate_def)

lemma matched_anchor: "\<exists>n. matched_keys anchor_lib [] root_anchors [anchor_key] = replicate (Suc n) anchor_key"
proof -
  let ?f = "filter (anchor_matches anchor_lib [] anchor_key) root_anchors"
  have "?f \<noteq> []" using root_anchors_mem anchor_root_key by (auto simp: filter_empty_conv)
  then obtain n where "length ?f = Suc n" by (cases ?f) auto
  then show ?thesis by (intro exI [of _ n]) (simp add: matched_keys_def map_replicate_const)
qed

lemma anchor_key_phase:
  "key_phase anchor_lib anchor_res clock1500 [] root_anchors fresh_vstate =
     (Some ([anchor_key], 300), fresh_vstate\<lparr>vs_budget := \<lparr>sig_checks = 1, max_sig_checks = 24\<rparr>\<rparr>)"
proof -
  obtain n where m: "matched_keys anchor_lib [] root_anchors [anchor_key] = replicate (Suc n) anchor_key"
    using matched_anchor by blast
  have "dk_flags anchor_key AND 0x0100 \<noteq> 0" by (simp add: anchor_key_def)
  then show ?thesis
    by (simp add: key_phase_def fetch_def anchor_res_def fresh_vstate_def owned_data_def owned_sigs_def owned_rrset_def
        empty_msg_def m clock1500_def anchor_verify can_check_sig_def budget_default_def PER_VALIDATION_MAX_SIG_CHECKS_def
        calculate_min_ttl_def min_ttl_of_def Let_def)
qed

definition rooted_vstate :: "unit vstate" where
  "rooted_vstate = fresh_vstate\<lparr>vs_budget := \<lparr>sig_checks = 1, max_sig_checks = 24\<rparr>,
     vs_keys := [(name_key anchor_lib [], \<lparr>czk_keys = [anchor_key], czk_expires_at = 1800\<rparr>)]\<rparr>"

lemma anchor_root_zone:
  "chain_zone anchor_lib anchor_res clock1500 [] None 300 fresh_vstate = (Walk_On (Some [anchor_key]) 300, rooted_vstate)"
proof -
  have e: "dm_get (vs_keys fresh_vstate) k = None" for k by (simp add: fresh_vstate_def)
  have "chain_zone_fresh anchor_lib anchor_res clock1500 [] None 300 fresh_vstate = (Walk_On (Some [anchor_key]) 300, rooted_vstate)"
    by (simp add: chain_zone_fresh_def ds_phase_def anchor_key_phase)
      (simp add: fresh_vstate_def clock1500_def dm_insert_def rooted_vstate_def)
  then show ?thesis by (simp add: chain_zone_def e)
qed

lemma anchor_chain_root: "build_trust_chain anchor_lib anchor_res clock1500 [] fresh_vstate = (Trusted [anchor_key] 300, rooted_vstate)"
  by (simp add: build_trust_chain_def anchor_root_zone)

theorem build_trust_chain_trusted_witness:
  "\<exists>z \<in> set (name_walk anchor_lib []). trusted anchor_lib (name_key anchor_lib z) [anchor_key]"
  using build_trust_chain_trusted [OF anchor_laws fresh_vinv anchor_chain_root] by (rule conjunct1)

lemma anchor_denial:
  "denial_status anchor_lib 1500 [anchor_key] [[119]]
     [rec_of [[119]] RT_NSEC (RD_NSEC \<lparr>nsec_next = [[122]], nsec_types = [RT_NS]\<rparr>),
      rec_of [[119]] RT_RRSIG (RD_RRSIG (anchor_rrsig [[119]] RT_NSEC))] \<lparr>sig_checks = 1, max_sig_checks = 24\<rparr> =
   (InsecureUnsigned, \<lparr>sig_checks = 2, max_sig_checks = 24\<rparr>)"
  by (simp add: denial_status_def validate_nsec_def MAX_NEGATIVE_RECORDS_def Let_def verify_negative_rrset_def
      anchor_verify can_check_sig_def nsec_decide_def check_nsec_nodata_def nodata_verdict_def)

lemma anchor_chain_child:
  "\<exists>st'. build_trust_chain anchor_lib anchor_res clock1500 [[119]] fresh_vstate = (Unsigned 300, st')"
proof -
  have k: "name_key anchor_lib [[119]] \<noteq> name_key anchor_lib []"
    unfolding name_key_def by (simp add: anchor_lib_def lab_lib_def lab_show_def to_ascii_lowercase_def)
  have "\<exists>st'. ds_phase anchor_lib anchor_res clock1500 [[119]] (Some [anchor_key]) rooted_vstate = (Ds_Return (Unsigned 300), st')"
    by (simp add: ds_phase_def fetch_def anchor_res_def owned_data_def empty_msg_def ds_absent_def clock1500_def
        rooted_vstate_def anchor_denial [unfolded One_nat_def] calculate_min_ttl_def min_ttl_of_def Let_def)
  moreover have "dm_get (vs_keys rooted_vstate) (name_key anchor_lib [[119]]) = None"
    using k by (simp add: rooted_vstate_def dm_get_def)
  ultimately have "\<exists>st'. chain_zone anchor_lib anchor_res clock1500 [[119]] (Some [anchor_key]) 300 rooted_vstate = (Walk_Return (Unsigned 300), st')"
    by (auto simp: chain_zone_def chain_zone_fresh_def)
  then show ?thesis by (auto simp: build_trust_chain_def anchor_root_zone)
qed


section \<open>Signedness and budget\<close>

lemma chain_zone_budget:
  "chain_zone L res clock zone parent ttl st = (out, st') \<Longrightarrow> budget_step (vs_budget st) (vs_budget st')"
  unfolding chain_zone_def chain_zone_fresh_def
  by (auto simp: Let_def split: option.splits if_splits prod.splits ds_outcome.splits
      dest!: ds_phase_fields key_phase_fields intro: budget_step_trans)

lemma build_trust_chain_budget:
  assumes "build_trust_chain L res clock zone st = (r, st')"
  shows "budget_step (vs_budget st) (vs_budget st')"
proof -
  have "chain_walk L res clock path parent ttl st = (r, st') \<Longrightarrow> budget_step (vs_budget st) (vs_budget st')" for path parent ttl st
    by (induction path arbitrary: parent ttl st)
      (auto split: prod.splits walk_step.splits dest!: chain_zone_budget intro: budget_step_trans)
  with assms show ?thesis by (simp add: build_trust_chain_def)
qed

lemma find_zone_apex_fields:
  assumes "find_zone_apex L res name st = (z, st')"
  shows "vs_keys st' = vs_keys st \<and> vs_signed st' = vs_signed st \<and> vs_budget st' = vs_budget st"
proof -
  have "apex_walk L res name ns st = (z, st') \<Longrightarrow>
      vs_keys st' = vs_keys st \<and> vs_signed st' = vs_signed st \<and> vs_budget st' = vs_budget st" for ns st
    by (induction ns arbitrary: st) (auto split: prod.splits sum.splits option.splits dest: fetch_fields)
  with assms show ?thesis by (simp add: find_zone_apex_def)
qed

lemma is_zone_signed_sound:
  assumes laws: "name_laws L" and inv: "vinv L st" and "is_zone_signed L res clock name st = (sd, st')"
  shows "vinv L st' \<and> budget_step (vs_budget st) (vs_budget st') \<and> (sd = ProvenUnsigned \<longrightarrow> (\<exists>z. proven_unsigned L z))"
proof (cases "cached_signedness L (clock (vs_net st)) (vs_signed st) name")
  case (Some sd')
  with assms(3) have "sd' = sd" "st' = st" by (simp_all add: is_zone_signed_def)
  moreover have "\<exists>z. proven_unsigned L z" if "sd = ProvenUnsigned"
  proof -
    let ?f = "\<lambda>cur. case dm_get (vs_signed st) (name_key L cur) of
        Some e \<Rightarrow> if sz_expires_at e > clock (vs_net st)
          then (case sz_signedness e of ProvenUnsigned \<Rightarrow> Some ProvenUnsigned
                | Signed \<Rightarrow> if name_eq L cur name then Some Signed else None | Unknown \<Rightarrow> None)
          else None | None \<Rightarrow> None"
    from find_map_SomeD [OF Some [unfolded cached_signedness_def]] that \<open>sd' = sd\<close>
    obtain cur where "?f cur = Some ProvenUnsigned" by blast
    then obtain e where "dm_get (vs_signed st) (name_key L cur) = Some e" "sz_signedness e = ProvenUnsigned"
      by (auto split: option.splits if_splits zone_signedness.splits)
    with inv show ?thesis by (auto simp: vinv_def signed_inv_def)
  qed
  ultimately show ?thesis using inv by simp
next
  case None
  obtain apex st1 where a: "find_zone_apex L res name st = (apex, st1)" by (metis surj_pair)
  let ?zone = "case apex of Some z \<Rightarrow> z | None \<Rightarrow> if n_is_root L name then n_root L else n_base_name L name"
  obtain r st2 where b: "build_trust_chain L res clock ?zone st1 = (r, st2)" by (metis surj_pair)
  note fa = find_zone_apex_fields [OF a]
  have inv1: "vinv L st1" using inv fa by (simp add: vinv_def keys_inv_def signed_inv_def)
  note s = build_trust_chain_sound [OF laws inv1 b]
  have bud: "budget_step (vs_budget st) (vs_budget st2)" using build_trust_chain_budget [OF b] fa by simp
  show ?thesis
  proof (cases r)
    case (Trusted k u)
    with assms(3) None a b bud s(1) show ?thesis
      by (auto simp: is_zone_signed_def Let_def mark_zone_def vinv_def keys_inv_def signed_inv_def dm_simps split: if_splits)
  next
    case (Unsigned u)
    with assms(3) None a b bud s(1) s(3) [of u] show ?thesis
      by (auto simp: is_zone_signed_def Let_def mark_zone_def vinv_def keys_inv_def signed_inv_def dm_simps split: if_splits)
  next
    case Chain_Bogus
    with assms(3) None a b bud s(1) show ?thesis by (auto simp: is_zone_signed_def Let_def)
  qed
qed

end
