(* ===== verification/Downgrade.thy ===== *)
theory Downgrade
  imports Validator
begin

text \<open>
  The other verdict a response is cached with: \<open>InsecureUnsigned\<close>. An attacker who cannot forge signatures
  can still strip them, so this verdict, too, has to rest on evidence. The predicates below say what
  the evidence is, following the functions of \<open>src/dnssec/validator.rs\<close>; the lemmas show that
  each function gives the verdict only with it.
\<close>

text \<open>The zones a name may belong to: the root, the name itself, and the names above it.\<close>

definition zone_over :: "'n lib \<Rightarrow> 'n \<Rightarrow> 'n \<Rightarrow> bool" where
  "zone_over L z n \<longleftrightarrow> n_is_root L z \<or> name_eq L z n \<or> n_zone_of L z n \<or> (\<exists>w \<in> set (name_walk L n). name_key L w = name_key L z)"

text \<open>
  An RRset is insecure when a zone over its owner is provably unsigned, and so is the signer of every
  RRSIG of it that could count, at the time it was looked at.
\<close>

definition rrset_insecure :: "'n lib \<Rightarrow> 'n \<Rightarrow> rtype \<Rightarrow> 'n rr list \<Rightarrow> bool" where
  "rrset_insecure L owner rtype all \<longleftrightarrow>
     (\<exists>z. zone_over L z owner \<and> proven_unsigned L z) \<and>
     (\<exists>now. \<forall>r \<in> set (rrset_sigs L owner rtype all). \<forall>s. rr_data r = RD_RRSIG s \<and> candidate_sig L now owner (RD_RRSIG s) \<longrightarrow>
        proven_unsigned L (sig_signer_name s))"

fun step_insecure :: "'n lib \<Rightarrow> 'n rr list \<Rightarrow> 'n redirection_step \<Rightarrow> bool" where
  "step_insecure L all (Cname owner target) = rrset_insecure L owner RT_CNAME all"
| "step_insecure L all (Dname dname_owner target input_name redirected) =
     (rrset_insecure L dname_owner DNAME_RECORD_TYPE all \<or> rrset_insecure L input_name RT_CNAME all)"

definition answer_insecure :: "'n lib \<Rightarrow> 'n message \<Rightarrow> 'n \<Rightarrow> rtype \<Rightarrow> bool" where
  "answer_insecure L msg qname qtype \<longleftrightarrow>
     (\<exists>chain. answer_chain L qname qtype (m_answers msg) = Complete chain \<and>
        ((\<exists>pre s post. chain = pre @ s # post \<and> (\<forall>p \<in> set pre. step_secure L (m_answers msg) p) \<and> step_insecure L (m_answers msg) s) \<or>
         (\<forall>s \<in> set chain. step_secure L (m_answers msg) s) \<and> rrset_insecure L (final_owner qname chain) qtype (m_answers msg)))"

definition denial_insecure :: "'n lib \<Rightarrow> 'n message \<Rightarrow> 'n \<Rightarrow> rtype \<Rightarrow> bool" where
  "denial_insecure L msg qname qtype \<longleftrightarrow>
     (\<exists>soa \<in> set (m_ns msg). is_soa (rr_data soa) \<and>
        (zone_over L (rr_name soa) (negative_target msg qname) \<or> zone_over L (rr_name soa) qname) \<and>
        (proven_unsigned L (rr_name soa) \<or>
         (\<exists>z \<in> set (name_walk L (rr_name soa)). \<exists>keys. trusted L (name_key L z) keys \<and>
            (\<exists>now b b'. rrset_verified L now (m_ns msg) keys (rr_name soa) (rr_type soa) \<and>
               (validate_nsec3 L now keys (negative_target msg qname) qtype (m_ns msg) b = (InsecureUnsigned, b') \<or>
                validate_nsec L now keys (negative_target msg qname) qtype (m_ns msg) b = (InsecureUnsigned, b'))))))"

definition unsigned_evidence :: "'n lib \<Rightarrow> 'n message \<Rightarrow> 'n \<Rightarrow> rtype \<Rightarrow> bool" where
  "unsigned_evidence L msg qname qtype \<longleftrightarrow>
     (if m_rcode msg = NoError \<and> m_answers msg \<noteq> [] then answer_insecure L msg qname qtype else denial_insecure L msg qname qtype)"

section \<open>Zones\<close>

lemma zone_over_walk: "z \<in> set (name_walk L n) \<Longrightarrow> zone_over L z n"
  by (auto simp: zone_over_def)

lemma best_soa_over:
  "fold (better_soa L name) recs best = Some z \<Longrightarrow> (\<And>b. best = Some b \<Longrightarrow> zone_over L b name) \<Longrightarrow> zone_over L z name"
  by (induction recs arbitrary: best) (fastforce simp: better_soa_def zone_over_def split: if_splits)+

lemma apex_walk_over:
  "apex_walk L res name ns st = (Some z, st') \<Longrightarrow> set ns \<subseteq> set (name_walk L name) \<Longrightarrow> zone_over L z name"
  by (induction ns arbitrary: st)
    (auto simp: apex_from_msg_def zone_over_walk split: prod.splits sum.splits option.splits if_splits dest: best_soa_over)

lemma is_zone_signed_unsigned:
  assumes laws: "name_laws L" and inv: "vinv L st" and z: "is_zone_signed L res clock name st = (ProvenUnsigned, st')"
  shows "\<exists>z. zone_over L z name \<and> proven_unsigned L z"
proof (cases "cached_signedness L (clock (vs_net st)) (vs_signed st) name")
  case (Some sd)
  with z have "sd = ProvenUnsigned" by (simp add: is_zone_signed_def)
  with Some obtain cur e where "cur \<in> set (name_walk L name)" "dm_get (vs_signed st) (name_key L cur) = Some e" "sz_signedness e = ProvenUnsigned"
    unfolding cached_signedness_def by (auto dest!: find_map_SomeD split: option.splits if_splits zone_signedness.splits)
  with inv show ?thesis unfolding vinv_def signed_inv_def zone_over_def by metis
next
  case None
  obtain apex st1 where a: "find_zone_apex L res name st = (apex, st1)" by (metis surj_pair)
  let ?zone = "case apex of Some z \<Rightarrow> z | None \<Rightarrow> if n_is_root L name then n_root L else n_base_name L name"
  obtain r st2 where b: "build_trust_chain L res clock ?zone st1 = (r, st2)" by (metis surj_pair)
  have inv1: "vinv L st1" using inv find_zone_apex_fields [OF a] by (simp add: vinv_def keys_inv_def signed_inv_def)
  from z None a b obtain u where "r = Unsigned u"
    by (auto simp: is_zone_signed_def Let_def split: chain_result.splits if_splits)
  then have "proven_unsigned L ?zone" by (rule build_trust_chain_sound(3) [OF laws inv1 b])
  moreover have "zone_over L ?zone name"
  proof (cases apex)
    case None
    have "n_is_root L (n_root L)" using laws unfolding name_laws_def by blast
    moreover have "n_base_name L name \<in> set (name_walk L name)" if "\<not> n_is_root L name"
    proof -
      from that laws obtain k where "length (label_list L name) = Suc k" unfolding name_laws_def by (metis length_0_conv not0_implies_Suc)
      with that show ?thesis unfolding name_walk_def by (cases k) simp_all
    qed
    ultimately show ?thesis using None by (simp add: zone_over_walk) (simp add: zone_over_def)
  next
    case (Some z)
    with a show ?thesis by (auto simp: find_zone_apex_def intro: apex_walk_over)
  qed
  ultimately show ?thesis by blast
qed

section \<open>RRsets\<close>

lemma try_candidates_insecure:
  assumes laws: "name_laws L"
  shows "vinv L st \<Longrightarrow> try_candidates L res clock target any rs st = (InsecureUnsigned, st') \<Longrightarrow>
    \<not> any \<and> (\<forall>r \<in> set rs. \<forall>s. rr_data r = RD_RRSIG s \<longrightarrow> proven_unsigned L (sig_signer_name s))"
proof (induction rs arbitrary: any st)
  case (Cons r rs)
  show ?case
  proof (cases "\<exists>s. rr_data r = RD_RRSIG s")
    case False
    with Cons.prems(2) have "try_candidates L res clock target any rs st = (InsecureUnsigned, st')" by (cases "rr_data r") auto
    from Cons.IH [OF Cons.prems(1) this] False show ?thesis by auto
  next
    case True
    then obtain s where s: "rr_data r = RD_RRSIG s" by blast
    obtain c st1 where c: "build_trust_chain L res clock (sig_signer_name s) st = (c, st1)" by (metis surj_pair)
    note snd1 = build_trust_chain_sound [OF laws Cons.prems(1) c]
    show ?thesis
    proof (cases c)
      case (Trusted keys ttl)
      let ?v = "\<lambda>k. verify_rrsig L (clock (vs_net st1)) s k r target"
      obtain found b where t: "try_keys L ?v (sig_key_tag s) keys (vs_budget st1) = (found, b)" by (metis surj_pair)
      with Cons.prems(2) s c Trusted have "try_candidates L res clock target True rs (st1\<lparr>vs_budget := b\<rparr>) = (InsecureUnsigned, st')"
        by (cases found) auto
      from Cons.IH [OF _ this] snd1(1) show ?thesis by simp
    next
      case (Unsigned ttl)
      with Cons.prems(2) s c have "try_candidates L res clock target any rs st1 = (InsecureUnsigned, st')" by simp
      from Cons.IH [OF snd1(1) this] snd1(3) [OF Unsigned] s show ?thesis by auto
    next
      case Chain_Bogus
      with Cons.prems(2) s c show ?thesis by simp
    qed
  qed
qed (simp split: if_splits)

lemma validate_rrset_insecure:
  assumes laws: "name_laws L" and inv: "vinv L st" and v: "validate_rrset L res clock owner t target all st = (InsecureUnsigned, st')"
  shows "rrset_insecure L owner t all"
proof (cases "rrset_sigs L owner t all = []")
  case True
  with v have "is_zone_signed L res clock owner st = (ProvenUnsigned, st')"
    by (auto simp: validate_rrset_def split: prod.splits zone_signedness.splits)
  from is_zone_signed_unsigned [OF laws inv this] True show ?thesis by (simp add: rrset_insecure_def)
next
  case False
  let ?c = "filter (\<lambda>r. candidate_sig L (clock (vs_net st)) owner (rr_data r)) (rrset_sigs L owner t all)"
  have "?c \<noteq> []" and tc: "try_candidates L res clock target False ?c st = (InsecureUnsigned, st')"
    using False v unfolding validate_rrset_def Let_def by (auto split: if_splits)
  note u = conjunct2 [OF try_candidates_insecure [OF laws inv tc]]
  obtain r where r: "r \<in> set ?c" using \<open>?c \<noteq> []\<close> by (metis list.set_intros(1) neq_Nil_conv)
  then obtain s where s: "rr_data r = RD_RRSIG s" by (cases "rr_data r") auto
  with r have "zone_over L (sig_signer_name s) owner" by (auto simp: zone_over_def)
  moreover have "proven_unsigned L (sig_signer_name s)" using u r s by blast
  moreover have "\<forall>r \<in> set (rrset_sigs L owner t all). \<forall>s. rr_data r = RD_RRSIG s \<and> candidate_sig L (clock (vs_net st)) owner (RD_RRSIG s) \<longrightarrow>
      proven_unsigned L (sig_signer_name s)" using u by auto
  ultimately show ?thesis unfolding rrset_insecure_def by blast
qed

section \<open>Messages\<close>

lemma validate_owned_insecure:
  assumes "name_laws L" and "vinv L st" and "validate_owned L res clock all owner t st = (InsecureUnsigned, st')"
  shows "rrset_insecure L owner t all"
  using assms by (auto simp: validate_owned_def Let_def split: if_splits intro: validate_rrset_insecure)

lemma validate_step_insecure:
  assumes laws: "name_laws L" and inv: "vinv L st" and v: "validate_step L res clock all s st = (InsecureUnsigned, st')"
  shows "step_insecure L all s"
proof (cases s)
  case (Cname owner target)
  with v validate_owned_insecure [OF laws inv] show ?thesis by auto
next
  case (Dname d target i redirected)
  obtain st1 status1 where o: "validate_owned L res clock all d DNAME_RECORD_TYPE st = (status1, st1)" by (metis surj_pair)
  show ?thesis
  proof (cases "status1 = Secure")
    case True
    then have "vinv L st1" using validate_owned_sound [OF laws inv o] by blast
    with True v o Dname show ?thesis by (auto simp: Let_def split: if_splits dest: validate_rrset_insecure [OF laws])
  next
    case False
    with v o Dname have "status1 = InsecureUnsigned" by (cases status1) auto
    with o Dname show ?thesis by (simp add: validate_owned_insecure [OF laws inv])
  qed
qed

lemma validate_steps_insecure:
  assumes laws: "name_laws L"
  shows "vinv L st \<Longrightarrow> validate_steps L res clock all ss st = (InsecureUnsigned, st') \<Longrightarrow>
    \<exists>pre s post. ss = pre @ s # post \<and> (\<forall>p \<in> set pre. step_secure L all p) \<and> step_insecure L all s"
proof (induction ss arbitrary: st)
  case (Cons s ss)
  obtain st1 status1 where o: "validate_step L res clock all s st = (status1, st1)" by (metis surj_pair)
  note so = validate_step_sound [OF laws Cons.prems(1) o]
  show ?case
  proof (cases "status1 = Secure")
    case True
    with Cons.prems(2) o so Cons.IH [of st1] obtain pre x post where
      "ss = pre @ x # post" "\<forall>p \<in> set pre. step_secure L all p" "step_insecure L all x" by auto
    with True so show ?thesis by (intro exI [of _ "s # pre"] exI [of _ x] exI [of _ post]) simp
  next
    case False
    with Cons.prems(2) o have "status1 = InsecureUnsigned" by (cases status1) auto
    with o validate_step_insecure [OF laws Cons.prems(1)] show ?thesis by (intro exI [of _ "[]"]) auto
  qed
qed simp

lemma validate_answer_insecure:
  assumes laws: "name_laws L" and inv: "vinv L st"
    and v: "validate_answer L res clock qname qtype (m_answers msg) st = (InsecureUnsigned, st')"
  shows "answer_insecure L msg qname qtype"
proof (cases "answer_chain L qname qtype (m_answers msg)")
  case (Complete chain)
  obtain st1 status1 where o: "validate_steps L res clock (m_answers msg) chain st = (status1, st1)" by (metis surj_pair)
  note so = validate_steps_sound [OF laws inv o]
  show ?thesis
  proof (cases "status1 = Secure")
    case True
    then have inv1: "vinv L st1" using so by blast
    from True v o Complete have "validate_rrset L res clock (final_owner qname chain) qtype
        (owned_of_type L (m_answers msg) (final_owner qname chain) qtype) (m_answers msg) st1 = (InsecureUnsigned, st')"
      by (simp add: validate_answer_def Let_def split: if_splits)
    then have "rrset_insecure L (final_owner qname chain) qtype (m_answers msg)" by (rule validate_rrset_insecure [OF laws inv1])
    with Complete True so show ?thesis unfolding answer_insecure_def by blast
  next
    case False
    with v o Complete have "status1 = InsecureUnsigned" by (cases status1) (auto simp: validate_answer_def)
    with o have "validate_steps L res clock (m_answers msg) chain st = (InsecureUnsigned, st1)" by simp
    note steps = validate_steps_insecure [OF laws inv this]
    show ?thesis unfolding answer_insecure_def by (rule exI [of _ chain], rule conjI [OF Complete], rule disjI1 [OF steps])
  qed
qed (use v in \<open>auto simp: validate_answer_def\<close>)

lemma negative_proof_insecure:
  assumes "negative_proof L now keys target t soa auth b = (InsecureUnsigned, b')"
  shows "\<exists>b1. rrset_verified L now auth keys (rr_name soa) (rr_type soa) \<and>
    (validate_nsec3 L now keys target t auth b1 = (InsecureUnsigned, b') \<or> validate_nsec L now keys target t auth b1 = (InsecureUnsigned, b'))"
proof -
  obtain ok b1 where v: "verify_negative_rrset L now soa auth keys b = (ok, b1)" by (metis surj_pair)
  with assms have ok by (cases ok) (auto simp: negative_proof_def)
  with v verify_negative_rrset_sound [of L now soa auth keys b b1]
  have "rrset_verified L now auth keys (rr_name soa) (rr_type soa)" by simp
  with assms v \<open>ok\<close> show ?thesis by (auto simp: negative_proof_def split: if_splits)
qed

lemma validate_negative_insecure:
  assumes laws: "name_laws L" and inv: "vinv L st" and v: "validate_negative L res clock msg q t st = (InsecureUnsigned, st')"
  shows "denial_insecure L msg q t"
proof (cases "List.find (\<lambda>r. is_soa (rr_data r)) (m_ns msg)")
  case None
  with v show ?thesis by (simp add: validate_negative_def)
next
  case (Some soa)
  note soa = find_SomeD [OF Some]
  obtain c st1 where c: "build_trust_chain L res clock (rr_name soa) st = (c, st1)" by (metis surj_pair)
  note snd1 = build_trust_chain_sound [OF laws inv c]
  have over: "zone_over L (rr_name soa) (negative_target msg q) \<or> zone_over L (rr_name soa) q"
    using v Some by (auto simp: validate_negative_def zone_over_def Let_def split: if_splits)
  show ?thesis
  proof (cases c)
    case (Trusted keys ttl)
    from snd1(2) [OF this] obtain z where z: "z \<in> set (name_walk L (rr_name soa))" "trusted L (name_key L z) keys" by blast
    obtain b where "negative_proof L (clock (vs_net st1)) keys (negative_target msg q) t soa (m_ns msg) (vs_budget st1) = (InsecureUnsigned, b)"
      using v Some c Trusted by (auto simp: validate_negative_def Let_def split: if_splits prod.splits)
    from negative_proof_insecure [OF this] z soa over show ?thesis unfolding denial_insecure_def by blast
  next
    case (Unsigned ttl)
    with snd1(3) soa over show ?thesis unfolding denial_insecure_def by blast
  next
    case Chain_Bogus
    with v Some c show ?thesis by (auto simp: validate_negative_def Let_def split: if_splits)
  qed
qed

lemma validate_message_evidence:
  assumes "name_laws L" and "vinv L st" and "validate_message L res clock msg qname qtype st = (InsecureUnsigned, st')"
  shows "unsigned_evidence L msg qname qtype"
proof -
  let ?st = "st\<lparr>vs_budget := budget_default\<rparr>"
  have inv: "vinv L ?st" using assms(2) by simp
  from assms(3) have v: "validate_message_with_budget L res clock msg qname qtype ?st = (InsecureUnsigned, st')"
    by (simp add: validate_message_def)
  show ?thesis
  proof (cases "m_rcode msg = NoError \<and> m_answers msg \<noteq> []")
    case True
    with v have "validate_answer L res clock qname qtype (m_answers msg) ?st = (InsecureUnsigned, st')"
      by (auto simp: validate_message_with_budget_def wildcard_optout_check_def split: prod.splits if_splits option.splits)
    from validate_answer_insecure [OF assms(1) inv this] True show ?thesis by (simp add: unsigned_evidence_def)
  next
    case False
    with v have "validate_negative L res clock msg qname qtype ?st = (InsecureUnsigned, st')"
      by (auto simp: validate_message_with_budget_def split: rcode.splits)
    from validate_negative_insecure [OF assms(1) inv this] False show ?thesis by (auto simp: unsigned_evidence_def)
  qed
qed

text \<open>What the two verdicts that may be cached say of a message.\<close>

definition justified :: "'n lib \<Rightarrow> 'n message \<Rightarrow> 'n \<Rightarrow> rtype \<Rightarrow> dnssec_status \<Rightarrow> bool" where
  "justified L msg qname qtype status \<longleftrightarrow>
     (status = Secure \<longrightarrow> verified L msg qname qtype) \<and> (status = InsecureUnsigned \<longrightarrow> unsigned_evidence L msg qname qtype)"

lemma justified_flags [simp]:
  "justified L (m\<lparr>m_ad := a\<rparr>) n t = justified L m n t" "justified L (m\<lparr>m_aa := a\<rparr>) n t = justified L m n t"
  "justified L (m\<lparr>m_ra := a\<rparr>) n t = justified L m n t" "justified L (m\<lparr>m_rd := a\<rparr>) n t = justified L m n t"
  "justified L (m\<lparr>m_cd := a\<rparr>) n t = justified L m n t" "justified L (m\<lparr>m_id := i\<rparr>) n t = justified L m n t"
  by (auto simp: justified_def fun_eq_iff verified_def answer_secure_def denial_secure_def negative_target_def
      unsigned_evidence_def answer_insecure_def denial_insecure_def)

lemma validate_message_justified:
  assumes "name_laws L" and "vinv L st" and "validate_message L res clock msg qname qtype st = (status, st')"
  shows "vinv L st' \<and> justified L msg qname qtype status"
  using validate_message_sound [OF assms] validate_message_evidence [OF assms(1,2)] assms(3) by (auto simp: justified_def)

text \<open>
  C3. Signatures cannot be stripped: a message is called unsigned only on evidence. For a positive
  answer, the redirection chain of the question is secure up to some RRset (of a hop or the final one)
  over whose owner a zone is proven unsigned under keys trusted from the root anchors, and every RRSIG of
  that RRset that could count names such a zone as its signer. For a negative answer, the zone of the SOA
  encloses the name and is proven unsigned, or its trusted keys sign the SOA and a denial with that verdict.
\<close>

theorem validate_message_insecure:
  assumes "name_laws L" and "vinv L st"
    and "validate_message L res clock msg qname qtype st = (InsecureUnsigned, st')"
  shows "if m_rcode msg = NoError \<and> m_answers msg \<noteq> [] then answer_insecure L msg qname qtype else denial_insecure L msg qname qtype"
  using validate_message_evidence [OF assms] by (simp add: unsigned_evidence_def)

text \<open>A denial of a name of the unsigned zone \<open>w.\<close>.\<close>

definition unsigned_denial :: "bytes list message" where
  "unsigned_denial = empty_msg\<lparr>m_ns := [rec_of [[119]] RT_SOA (RD_SOA \<lparr>soa_mname = [], soa_rname = [], soa_serial = 0, soa_refresh = 0,
     soa_retry = 0, soa_expire = 0, soa_minimum = 300\<rparr>)]\<rparr>"

lemma unsigned_denial_sel [simp]:
  "m_rcode unsigned_denial = NoError" "m_answers unsigned_denial = []" "negative_target unsigned_denial q = q"
  by (simp_all add: unsigned_denial_def empty_msg_def negative_target_def)

lemma unsigned_denial_verdict:
  "\<exists>st'. validate_message anchor_lib anchor_res clock1500 unsigned_denial [[119]] RT_NS fresh_vstate = (InsecureUnsigned, st')"
proof -
  have st: "fresh_vstate\<lparr>vs_budget := budget_default\<rparr> = fresh_vstate" by (simp add: fresh_vstate_def)
  have eq: "name_eq anchor_lib [[119]] [[119]]" by (simp add: name_eq_def eq_ignore_ascii_case_def)
  obtain soa where "List.find (\<lambda>r. is_soa (rr_data r)) (m_ns unsigned_denial) = Some soa" and "rr_name soa = [[119]]"
    by (simp add: unsigned_denial_def)
  with anchor_chain_child eq have "\<exists>st'. validate_negative anchor_lib anchor_res clock1500 unsigned_denial [[119]] RT_NS fresh_vstate = (InsecureUnsigned, st')"
    by (auto simp: validate_negative_def Let_def)
  then show ?thesis by (simp add: validate_message_def validate_message_with_budget_def st)
qed

theorem validate_message_insecure_witness:
  "denial_insecure anchor_lib unsigned_denial [[119]] RT_NS"
proof -
  from unsigned_denial_verdict obtain st' where
    "validate_message anchor_lib anchor_res clock1500 unsigned_denial [[119]] RT_NS fresh_vstate = (InsecureUnsigned, st')" by blast
  from validate_message_insecure [OF anchor_laws fresh_vinv this] show ?thesis by (simp add: unsigned_denial_def empty_msg_def)
qed

end
