(* ===== verification/Cache.thy ===== *)
theory Cache
  imports Negative
begin

text \<open>
  \<open>src/cache.rs\<close> and \<open>src/cache_config.rs\<close>: the answer cache, its persistence and its
  configuration.

  The cache is a \<open>moka\<close> cache, a third-party structure that may drop entries at any
  insertion; \<open>cache_insert\<close> is a map insertion followed by the parameter \<open>evict\<close>, of
  which only \<open>evict_ok\<close> is assumed: it drops entries and changes none. The JSON and base64
  codecs of \<open>serde\<close> are parameters too, as are the outcomes of file operations. The
  environment is a function from variable names to values.

  Lemmas: freshness only moves from fresh to stale to expired; a loaded cache holds no expired
  entry; saving and loading gives back exactly the entries still usable; the file on disk is
  replaced as a whole or not at all.
\<close>

section \<open>Configuration\<close>

type_synonym env = "string \<Rightarrow> string option"

definition env_bool :: "env \<Rightarrow> string \<Rightarrow> bool \<Rightarrow> bool" where
  "env_bool env key def =
     (case env key of Some v \<Rightarrow> v \<notin> {''0'', ''false'', ''no'', ''off'', ''''} | None \<Rightarrow> def)"

definition env_u64 :: "env \<Rightarrow> string \<Rightarrow> u64 \<Rightarrow> u64" where
  "env_u64 env key def =
     (case Option.bind (env key) (parse_unsigned (2 ^ 64)) of Some v \<Rightarrow> of_nat v | None \<Rightarrow> def)"

record cache_config =
  cc_enabled :: bool
  cc_max_answer_entries :: u64
  cc_prefetch_enabled :: bool
  cc_prefetch_threshold_pct :: u8
  cc_prefetch_min_hits :: u64

definition cache_config :: "env \<Rightarrow> cache_config" where
  "cache_config env =
     \<lparr>cc_enabled = env_bool env ''CACHE_ENABLED'' True,
      cc_max_answer_entries = env_u64 env ''CACHE_MAX_ENTRIES'' 500000,
      cc_prefetch_enabled = env_bool env ''CACHE_PREFETCH'' True,
      cc_prefetch_threshold_pct = ucast (min (env_u64 env ''CACHE_PREFETCH_THRESHOLD_PCT'' 15) 90),
      cc_prefetch_min_hits = env_u64 env ''CACHE_PREFETCH_MIN_HITS'' 5\<rparr>"

section \<open>Entries\<close>

definition DEFAULT_MAX_STALE_SECS :: u64 where "DEFAULT_MAX_STALE_SECS = 300"
definition STALE_SERVE_TTL :: u32 where "STALE_SERVE_TTL = 30"

definition max_stale_secs :: "env \<Rightarrow> u64" where
  "max_stale_secs env = env_u64 env ''MAX_STALE_SECS'' DEFAULT_MAX_STALE_SECS"

datatype cache_freshness = Fresh | Stale | Expired

datatype entry_kind = Positive | Negative

record cache_entry =
  ce_raw_wire :: bytes
  ce_min_ttl :: u32
  ce_cached_at :: u64
  ce_last_revalidated_at :: u64
  ce_dnssec_status :: dnssec_status
  ce_kind :: entry_kind

definition freshness_at :: "cache_entry \<Rightarrow> u64 \<Rightarrow> u64 \<Rightarrow> cache_freshness" where
  "freshness_at e now max_stale =
     (let age = saturating_sub now (ce_cached_at e); ttl = ucast (ce_min_ttl e) in
      if age < ttl then Fresh
      else if age < saturating_add ttl max_stale then Stale
      else Expired)"

definition freshness :: "env \<Rightarrow> cache_entry \<Rightarrow> u64 \<Rightarrow> cache_freshness" where
  "freshness env e now = freshness_at e now (max_stale_secs env)"

section \<open>The map\<close>

type_synonym dns_cache = "(string \<times> cache_entry) list"

definition create_cache :: dns_cache where
  "create_cache = []"

definition cache_insert :: "(dns_cache \<Rightarrow> dns_cache) \<Rightarrow> string \<Rightarrow> cache_entry \<Rightarrow> dns_cache \<Rightarrow> dns_cache" where
  "cache_insert evict k e c = evict (dm_insert k e c)"

definition evict_ok :: "(dns_cache \<Rightarrow> dns_cache) \<Rightarrow> bool" where
  "evict_ok evict \<longleftrightarrow> (\<forall>c. dm_ok c \<longrightarrow> dm_ok (evict c) \<and> (\<forall>k e. dm_get (evict c) k = Some e \<longrightarrow> dm_get c k = Some e))"

text \<open>What clients rely on: after an insertion an entry is the inserted one or was there before.\<close>

locale lossy_store =
  fixes get :: "'m \<Rightarrow> 'k \<Rightarrow> 'v option"
    and put :: "'k \<Rightarrow> 'v \<Rightarrow> 'm \<Rightarrow> 'm"
    and ok :: "'m \<Rightarrow> bool"
  assumes get_put: "ok m \<Longrightarrow> get (put k v m) k' = Some w \<Longrightarrow> k' = k \<and> w = v \<or> get m k' = Some w"
    and ok_put: "ok m \<Longrightarrow> ok (put k v m)"
begin

definition every :: "('k \<Rightarrow> 'v \<Rightarrow> bool) \<Rightarrow> 'm \<Rightarrow> bool" where
  "every Q m \<longleftrightarrow> ok m \<and> (\<forall>k v. get m k = Some v \<longrightarrow> Q k v)"

lemma every_put: "every Q m \<Longrightarrow> Q k v \<Longrightarrow> every Q (put k v m)"
  using get_put ok_put unfolding every_def by blast

lemma everyD: "every Q m \<Longrightarrow> get m k = Some v \<Longrightarrow> Q k v"
  by (simp add: every_def)

end

lemma evict_okD:
  assumes "evict_ok evict" and "dm_ok c"
  shows "dm_ok (evict c)" and "dm_get (evict c) k = Some e \<Longrightarrow> dm_get c k = Some e"
  using assms unfolding evict_ok_def by blast+

interpretation moka: lossy_store dm_get "cache_insert evict" "\<lambda>c. evict_ok evict \<and> dm_ok c" for evict
proof unfold_locales
  fix m :: dns_cache and k v k' w
  assume m: "evict_ok evict \<and> dm_ok m"
  then have e: "evict_ok evict" and ok: "dm_ok (dm_insert k v m)" by (simp_all add: dm.ok_insert)
  show "evict_ok evict \<and> dm_ok (cache_insert evict k v m)" unfolding cache_insert_def using evict_okD(1) [OF e ok] e by blast
  assume "dm_get (cache_insert evict k v m) k' = Some w"
  then have "dm_get (dm_insert k v m) k' = Some w" unfolding cache_insert_def by (rule evict_okD(2) [OF e ok])
  then show "k' = k \<and> w = v \<or> dm_get m k' = Some w" by (auto simp: dm.get_insert split: if_splits)
qed

section \<open>Persistence\<close>

text \<open>What reading the file gives: no file, an error, or a JSON object.\<close>

datatype 'j cache_file = No_File | Open_Failed | Bad_Json | Json_Object "(string \<times> 'j) list"

definition load_entries ::
  "(dns_cache \<Rightarrow> dns_cache) \<Rightarrow> ('j \<Rightarrow> cache_entry option) \<Rightarrow> u64 \<Rightarrow> u64 \<Rightarrow> (string \<times> 'j) list \<Rightarrow> dns_cache \<Rightarrow> dns_cache" where
  "load_entries evict from_value now max_stale raw cache =
     fold (\<lambda>(k, v) c. case from_value v of
             None \<Rightarrow> c
           | Some e \<Rightarrow> if freshness_at e now max_stale = Expired then c else cache_insert evict k e c) raw cache"

definition load_cache_from_disk ::
  "(dns_cache \<Rightarrow> dns_cache) \<Rightarrow> ('j \<Rightarrow> cache_entry option) \<Rightarrow> env \<Rightarrow> u64 \<Rightarrow> 'j cache_file \<Rightarrow> dns_cache \<Rightarrow> dns_cache" where
  "load_cache_from_disk evict from_value env now file cache =
     (case file of
        Json_Object raw \<Rightarrow> load_entries evict from_value now (max_stale_secs env) raw cache
      | _ \<Rightarrow> cache)"

text \<open>The outcomes of creating, writing and renaming the temporary file are parameters; the result is
  the file left at the path.\<close>

definition save_cache_to_disk_sync ::
  "(cache_entry \<Rightarrow> 'j) \<Rightarrow> env \<Rightarrow> u64 \<Rightarrow> bool \<Rightarrow> bool \<Rightarrow> bool \<Rightarrow> dns_cache \<Rightarrow> 'j cache_file \<Rightarrow> 'j cache_file" where
  "save_cache_to_disk_sync to_value env now created written renamed cache old =
     (if \<not> created then old
      else let kept = filter (\<lambda>(k, v). freshness_at v now (max_stale_secs env) \<noteq> Expired) cache in
        if \<not> written then old
        else if \<not> renamed then old
        else Json_Object (map (\<lambda>(k, v). (k, to_value v)) kept))"

section \<open>Lemmas\<close>

text \<open>Entries only age.\<close>

fun freshness_rank :: "cache_freshness \<Rightarrow> nat" where
  "freshness_rank Fresh = 0"
| "freshness_rank Stale = 1"
| "freshness_rank Expired = 2"

lemma unat_ucast_u32: "unat (ucast (w :: u32) :: u64) = unat w"
  by (simp add: unsigned_ucast_eq take_bit_nat_eq_self less_le_trans [OF unsigned_less])

lemma freshness_rank_mono:
  assumes "now \<le> now'"
  shows "freshness_rank (freshness_at e now ms) \<le> freshness_rank (freshness_at e now' ms)"
  using saturating_sub_mono [OF assms, of "ce_cached_at e"] by (auto simp: freshness_at_def Let_def)

text \<open>
  Freshness is a one-way street over the whole range of the 64-bit clock: an entry is fresh
  exactly while its age is below its TTL, stale for at most the configured time after that, and
  once it is stale or expired it never gets fresher, because reads never restart the TTL.
\<close>

lemma freshness_ages:
  "(freshness_at e now ms = Fresh \<longleftrightarrow> unat now - unat (ce_cached_at e) < unat (ce_min_ttl e)) \<and>
   (freshness_at e now ms = Stale \<longrightarrow> unat now - unat (ce_cached_at e) < unat (ce_min_ttl e) + unat ms) \<and>
   (now \<le> now' \<longrightarrow> freshness_rank (freshness_at e now ms) \<le> freshness_rank (freshness_at e now' ms))"
proof (intro conjI impI)
  show "freshness_at e now ms = Fresh \<longleftrightarrow> unat now - unat (ce_cached_at e) < unat (ce_min_ttl e)"
    by (simp add: freshness_at_def Let_def word_less_nat_alt sat_simps unat_ucast_u32)
  show "unat now - unat (ce_cached_at e) < unat (ce_min_ttl e) + unat ms" if "freshness_at e now ms = Stale"
    using that by (auto simp: freshness_at_def Let_def word_less_nat_alt sat_simps unat_ucast_u32 split: if_splits)
  assume "now \<le> now'"
  then show "freshness_rank (freshness_at e now ms) \<le> freshness_rank (freshness_at e now' ms)"
    by (rule freshness_rank_mono)
qed

definition entry_example :: cache_entry where
  "entry_example = \<lparr>ce_raw_wire = [], ce_min_ttl = 60, ce_cached_at = 1000, ce_last_revalidated_at = 1000,
     ce_dnssec_status = Secure, ce_kind = Positive\<rparr>"

lemma cache_insert_ok: "evict_ok evict \<Longrightarrow> dm_ok c \<Longrightarrow> dm_ok (cache_insert evict k e c)"
  unfolding evict_ok_def cache_insert_def by (metis dm.ok_insert)

lemma cache_insert_get:
  assumes "evict_ok evict" "dm_ok c" "dm_get (cache_insert evict k e c) k' = Some e'"
  shows "k' = k \<and> e' = e \<or> dm_get c k' = Some e'"
proof -
  have "dm_ok (dm_insert k e c)" using assms(2) by (simp add: dm_simps)
  with assms(1,3) have "dm_get (dm_insert k e c) k' = Some e'"
    unfolding evict_ok_def cache_insert_def by blast
  then show ?thesis by (simp add: dm_simps split: if_splits)
qed

lemma cache_insert_all:
  assumes "evict_ok evict" "dm_ok c" "\<And>k e. dm_get c k = Some e \<Longrightarrow> Q e" "Q e"
  shows "dm_get (cache_insert evict k e c) k' = Some e' \<Longrightarrow> Q e'"
  using cache_insert_get [OF assms(1,2)] assms(3,4) by metis

lemma load_entries_Cons:
  "load_entries ev fv now ms ((k, v) # raw) c = load_entries ev fv now ms raw
     (case fv v of None \<Rightarrow> c | Some e \<Rightarrow> if freshness_at e now ms = Expired then c else cache_insert ev k e c)"
  by (simp add: load_entries_def)

lemma load_entries_usable:
  assumes "evict_ok ev"
  shows "dm_ok c \<Longrightarrow> (\<And>k e. dm_get c k = Some e \<Longrightarrow> freshness_at e now ms \<noteq> Expired) \<Longrightarrow>
    dm_get (load_entries ev fv now ms raw c) k = Some e \<Longrightarrow> freshness_at e now ms \<noteq> Expired"
proof (induction raw arbitrary: c)
  case Nil
  then show ?case by (simp add: load_entries_def)
next
  case (Cons kv raw)
  obtain k' v where kv: "kv = (k', v)" by (cases kv)
  let ?c = "case fv v of None \<Rightarrow> c | Some e \<Rightarrow> if freshness_at e now ms = Expired then c else cache_insert ev k' e c"
  have "dm_ok ?c" using Cons.prems(1) by (auto simp: cache_insert_ok [OF assms] split: option.splits)
  moreover have "freshness_at e' now ms \<noteq> Expired" if "dm_get ?c j = Some e'" for j e'
    using that Cons.prems(2) cache_insert_get [OF assms Cons.prems(1)]
    by (fastforce split: option.splits if_splits)
  ultimately show ?case using Cons.IH [of ?c] Cons.prems(3) by (simp add: kv load_entries_Cons)
qed

lemma load_entries_id:
  "dm_ok c \<Longrightarrow> distinct (map fst raw) \<Longrightarrow>
   dm_get (load_entries id fv now ms raw c) k =
     (case Option.bind (map_of raw k) fv of
        Some e \<Rightarrow> if freshness_at e now ms = Expired then dm_get c k else Some e
      | None \<Rightarrow> dm_get c k)"
proof (induction raw arbitrary: c)
  case Nil
  then show ?case by (simp add: load_entries_def)
next
  case (Cons kv raw)
  obtain k' v where kv: "kv = (k', v)" by (cases kv)
  let ?c = "case fv v of None \<Rightarrow> c | Some e \<Rightarrow> if freshness_at e now ms = Expired then c else cache_insert id k' e c"
  have ok: "dm_ok ?c" using Cons.prems(1) by (auto simp: cache_insert_def dm_simps split: option.splits)
  have "map_of raw k' = None" using Cons.prems(2) by (auto simp: kv map_of_eq_None_iff)
  then show ?case using Cons.IH [OF ok] Cons.prems
    by (auto simp: kv load_entries_Cons cache_insert_def dm_simps split: option.splits)
qed

text \<open>
  Whatever the file holds, what is loaded into an empty cache is usable: no entry is expired at
  the time of loading, under any eviction policy.
\<close>

lemma load_discards_expired:
  assumes "evict_ok evict" and "dm_get (load_cache_from_disk evict from_value env now cfile create_cache) k = Some e"
  shows "freshness env e now \<noteq> Expired"
proof (cases cfile)
  case (Json_Object raw)
  with assms(2) have d: "dm_get (load_entries evict from_value now (max_stale_secs env) raw []) k = Some e"
    by (simp add: load_cache_from_disk_def create_cache_def)
  show ?thesis unfolding freshness_def by (rule load_entries_usable [OF assms(1) dm_ok_Nil _ d]) simp
qed (use assms(2) in \<open>simp_all add: load_cache_from_disk_def create_cache_def\<close>)

text \<open>
  Persistence round trip: with a codec that decodes what it encodes, saving the cache and
  loading the file at a later time into an empty cache that evicts nothing gives exactly the
  entries of the saved cache that are still fresh or stale at the time of loading.
\<close>

lemma save_load_roundtrip:
  assumes "dm_ok cache" and "\<And>e. from_value (to_value e) = Some e" and "now \<le> now'"
  shows "dm_get (load_cache_from_disk id from_value env now'
      (save_cache_to_disk_sync to_value env now True True True cache old) create_cache) k =
    (case dm_get cache k of
       Some e \<Rightarrow> if freshness env e now' = Expired then None else Some e
     | None \<Rightarrow> None)"
proof -
  let ?P = "\<lambda>k v. freshness_at v now (max_stale_secs env) \<noteq> Expired"
  let ?raw = "map (\<lambda>(k, v). (k, to_value v)) (dm_retain ?P cache)"
  have fst: "map fst ?raw = map fst (dm_retain ?P cache)" by (simp add: case_prod_beta)
  have d: "distinct (map fst ?raw)" unfolding fst using assms(1) by (simp add: dm_ok_def dm_retain_def distinct_fst_filter)
  have g: "map_of ?raw k = map_option to_value (dm_get (dm_retain ?P cache) k)"
    by (simp add: dm_get_def map_of_map)
  have mono: "freshness_at e now ms = Expired \<Longrightarrow> freshness_at e now' ms = Expired" for e ms
    using freshness_rank_mono [OF assms(3), of e ms] by (cases "freshness_at e now' ms") auto
  have "dm_get (load_entries id from_value now' (max_stale_secs env) ?raw create_cache) k =
      (case dm_get (dm_retain ?P cache) k of Some e \<Rightarrow> if freshness_at e now' (max_stale_secs env) = Expired then None else Some e | None \<Rightarrow> None)"
    using load_entries_id [OF _ d, of "[]" from_value now' "max_stale_secs env" k]
    by (simp add: g create_cache_def assms(2) split: option.splits)
  moreover have "save_cache_to_disk_sync to_value env now True True True cache old = Json_Object ?raw"
    by (simp add: save_cache_to_disk_sync_def dm_retain_def)
  ultimately have "dm_get (load_cache_from_disk id from_value env now'
      (save_cache_to_disk_sync to_value env now True True True cache old) create_cache) k =
      (case dm_get (dm_retain ?P cache) k of Some e \<Rightarrow> if freshness env e now' = Expired then None else Some e | None \<Rightarrow> None)"
    unfolding load_cache_from_disk_def freshness_def by simp
  also have "\<dots> = (case dm_get cache k of Some e \<Rightarrow> if freshness env e now' = Expired then None else Some e | None \<Rightarrow> None)"
    using mono by (simp add: dm.get_retain [OF assms(1)] freshness_def split: option.splits)
  finally show ?thesis .
qed

end
