(* ===== verification/Response.thy ===== *)
theory Response
  imports Cache Delegation
begin

text \<open>
  \<open>src/engine/query.rs\<close>, \<open>src/engine/response.rs\<close> and \<open>src/engine/limits.rs\<close>:
  reading a client's query and building the answer for it from a validated message.

  Lemmas: what an accepted query is; ECS masking; the cache lifetime of a response; every field
  of a client response, in particular the AD bit.
\<close>

section \<open>Limits\<close>

definition MIN_DNS_MSG_SIZE :: nat where "MIN_DNS_MSG_SIZE = 12"
definition MAX_UDP_QUERY_SIZE :: nat where "MAX_UDP_QUERY_SIZE = 4096"
definition MAX_UDP_USER_BUF :: nat where "MAX_UDP_USER_BUF = 65535"
definition MAX_TCP_MSG_SIZE :: nat where "MAX_TCP_MSG_SIZE = 65535"
definition MAX_DOH_PAYLOAD :: nat where "MAX_DOH_PAYLOAD = 4096"

section \<open>Queries\<close>

record 'n parsed_query =
  pq_req_msg :: "'n message"
  pq_qname :: 'n
  pq_qtype :: rtype
  pq_client_max_payload :: nat
  pq_client_dnssec_ok :: bool
  pq_cache_key :: string
  pq_ecs_net :: "ip_addr option"

definition mask_v4 :: "u8 \<Rightarrow> u32" where
  "mask_v4 prefix = (if prefix = 32 then - 1 else NOT (push_bit (32 - unat prefix) 1 - 1))"

definition mask_v6 :: "u8 \<Rightarrow> u128" where
  "mask_v6 prefix = (if prefix = 128 then - 1 else NOT (push_bit (128 - unat prefix) 1 - 1))"

definition mask_addr :: "ip_addr \<Rightarrow> u8 \<Rightarrow> ip_addr option" where
  "mask_addr addr prefix =
     (case addr of
        V4 bits \<Rightarrow> if prefix = 0 \<or> prefix > 32 then None else Some (V4 (bits AND mask_v4 prefix))
      | V6 bits \<Rightarrow> if prefix = 0 \<or> prefix > 128 then None else Some (V6 (bits AND mask_v6 prefix)))"

definition extract_ecs_client_net :: "edns \<Rightarrow> ip_addr option" where
  "extract_ecs_client_net e =
     (case e_subnet e of Some (addr, prefix) \<Rightarrow> mask_addr addr prefix | None \<Rightarrow> None)"

definition canonical_cache_key :: "'n lib \<Rightarrow> 'n \<Rightarrow> rtype \<Rightarrow> string" where
  "canonical_cache_key L qname qtype = str_lowercase L (n_to_ascii L qname) @ '':'' @ rt_display L qtype @ '':IN''"

definition clamp :: "nat \<Rightarrow> nat \<Rightarrow> nat \<Rightarrow> nat" where
  "clamp lo hi x = (if x < lo then lo else if x > hi then hi else x)"

text \<open>\<open>None\<close> is the outcome \<open>Malformed\<close>, the only error of the function.\<close>

definition parse_and_validate_query :: "'n lib \<Rightarrow> bytes \<Rightarrow> 'n parsed_query option" where
  "parse_and_validate_query L req_wire =
     (case msg_read L req_wire of
        None \<Rightarrow> None
      | Some req_msg \<Rightarrow>
          (case m_queries req_msg of
             [q] \<Rightarrow>
               (let (payload, dnssec_ok, ecs) =
                  (case m_edns req_msg of
                     Some e \<Rightarrow> (clamp 512 1232 (unat (e_max_payload e)), e_dnssec_ok e, extract_ecs_client_net e)
                   | None \<Rightarrow> (512, False, None)) in
                Some \<lparr>pq_req_msg = req_msg, pq_qname = q_name q, pq_qtype = q_type q,
                      pq_client_max_payload = payload, pq_client_dnssec_ok = dnssec_ok,
                      pq_cache_key = canonical_cache_key L (q_name q) (q_type q), pq_ecs_net = ecs\<rparr>)
           | _ \<Rightarrow> None))"

text \<open>\<open>ProcessOutcome\<close> of \<open>src/engine/resolve.rs\<close>.\<close>

datatype process_outcome = Out_Success bytes | Out_ServFail bytes | Out_Truncated bytes | Out_Dropped | Out_Malformed

text \<open>
  The interface the transports rely on: a service that answers one query, and what stays true of
  its state over all of them.
\<close>

locale dns_service =
  fixes serve :: "bytes \<Rightarrow> string \<Rightarrow> ip_addr \<Rightarrow> 's \<Rightarrow> process_outcome \<times> 's"
    and inv :: "'s \<Rightarrow> bool"
  assumes serve_inv: "inv s \<Longrightarrow> serve wire protocol ip s = (out, s') \<Longrightarrow> inv s'"

section \<open>Responses\<close>

definition is_cacheable :: "'n message \<Rightarrow> bool" where
  "is_cacheable msg \<longleftrightarrow> m_rcode msg = NoError \<or> m_rcode msg = NXDomain"

definition is_cacheable_dnssec :: "dnssec_status \<Rightarrow> bool" where
  "is_cacheable_dnssec status \<longleftrightarrow> status = Secure \<or> status = InsecureUnsigned"

definition is_dnssec_record :: "rtype \<Rightarrow> bool" where
  "is_dnssec_record t \<longleftrightarrow> t = RT_RRSIG \<or> t = RT_NSEC \<or> t = RT_NSEC3"

text \<open>The minimum of the remaining validity over the signatures; \<open>None\<close> when one has expired.\<close>

fun min_rrsig_validity :: "u32 \<Rightarrow> 'n rr list \<Rightarrow> u32 \<Rightarrow> u32 option" where
  "min_rrsig_validity now [] m = Some m"
| "min_rrsig_validity now (r # rs) m =
     (case rr_data r of
        RD_RRSIG s \<Rightarrow>
          (let diff = sig_expiration s - now in
           if sint diff > 0 then min_rrsig_validity now rs (min m diff) else None)
      | _ \<Rightarrow> min_rrsig_validity now rs m)"

definition calculate_cache_ttl :: "'n message \<Rightarrow> dnssec_status \<Rightarrow> u64 \<Rightarrow> u32" where
  "calculate_cache_ttl msg status now =
     (let ttl = calculate_min_ttl msg in
      if status = Secure
      then (case min_rrsig_validity (now32 now) (m_answers msg @ m_ns msg) (- 1) of
              None \<Rightarrow> 0
            | Some v \<Rightarrow> if v \<noteq> - 1 then min ttl v else ttl)
      else ttl)"

definition compute_ttl :: "cache_freshness \<Rightarrow> u32 \<Rightarrow> u32 \<Rightarrow> u32" where
  "compute_ttl fresh age orig_ttl =
     (case fresh of Fresh \<Rightarrow> saturating_sub orig_ttl age | Stale \<Rightarrow> STALE_SERVE_TTL | Expired \<Rightarrow> 0)"

definition present_records ::
  "bool \<Rightarrow> rtype \<Rightarrow> cache_freshness \<Rightarrow> u32 \<Rightarrow> 'n rr list \<Rightarrow> 'n rr list" where
  "present_records dnssec_ok qtype fresh age rs =
     map (\<lambda>r. r\<lparr>rr_ttl := compute_ttl fresh age (rr_ttl r)\<rparr>)
       (filter (\<lambda>r. \<not> (\<not> dnssec_ok \<and> is_dnssec_record (rr_type r) \<and> rr_type r \<noteq> qtype)) rs)"

definition client_response_msg ::
  "'n lib \<Rightarrow> 'n message \<Rightarrow> rtype \<Rightarrow> dnssec_status \<Rightarrow> cache_freshness \<Rightarrow> u64 \<Rightarrow> 'n message \<Rightarrow> nat \<Rightarrow> bool \<Rightarrow> u64 \<Rightarrow> 'n message" where
  "client_response_msg L base qtype status fresh cached_at req payload dnssec_ok now =
     (let m = msg_new L; age = ucast (saturating_sub now cached_at);
          client_wants_ad = dnssec_ok \<or> m_ad req;
          ad = (status = Secure \<and> fresh = Fresh \<and> client_wants_ad \<and> \<not> m_cd req) in
      m\<lparr>m_id := m_id req, m_type := MT_Response, m_opcode := m_opcode req, m_aa := False, m_tc := False,
        m_ra := True, m_rd := m_rd req, m_cd := m_cd req, m_rcode := m_rcode base,
        m_queries := m_queries m @ m_queries req, m_ad := ad,
        m_answers := m_answers m @ present_records dnssec_ok qtype fresh age (m_answers base),
        m_ns := m_ns m @ present_records dnssec_ok qtype fresh age (m_ns base),
        m_add := m_add m @ present_records dnssec_ok qtype fresh age (filter (\<lambda>r. rr_type r \<noteq> RT_OPT) (m_add base)),
        m_edns := (if m_edns req \<noteq> None
          then Some ((edns_new L)\<lparr>e_max_payload := of_nat payload, e_dnssec_ok := dnssec_ok, e_version := 0\<rparr>)
          else m_edns m)\<rparr>)"

definition construct_client_response ::
  "'n lib \<Rightarrow> 'n message \<Rightarrow> rtype \<Rightarrow> dnssec_status \<Rightarrow> cache_freshness \<Rightarrow> u64 \<Rightarrow> 'n message \<Rightarrow> nat \<Rightarrow> bool \<Rightarrow> u64 \<Rightarrow> bytes option" where
  "construct_client_response L base qtype status fresh cached_at req payload dnssec_ok now =
     msg_to_bytes L (client_response_msg L base qtype status fresh cached_at req payload dnssec_ok now)"

definition truncated_msg :: "'n lib \<Rightarrow> u16 \<Rightarrow> 'n query option \<Rightarrow> 'n message" where
  "truncated_msg L id' query =
     (let m = msg_new L in m\<lparr>m_id := id', m_type := MT_Response, m_tc := True, m_ra := True, m_aa := False,
        m_queries := m_queries m @ (case query of Some q \<Rightarrow> [q] | None \<Rightarrow> [])\<rparr>)"

definition make_truncated_wire :: "'n lib \<Rightarrow> u16 \<Rightarrow> 'n query option \<Rightarrow> bytes" where
  "make_truncated_wire L id' query = (case msg_to_bytes L (truncated_msg L id' query) of Some b \<Rightarrow> b | None \<Rightarrow> [])"

definition servfail_msg :: "'n lib \<Rightarrow> u16 \<Rightarrow> 'n query option \<Rightarrow> 'n message" where
  "servfail_msg L id' query =
     (let m = msg_new L in m\<lparr>m_id := id', m_type := MT_Response, m_rcode := ServFail, m_ra := True, m_aa := False,
        m_queries := m_queries m @ (case query of Some q \<Rightarrow> [q] | None \<Rightarrow> [])\<rparr>)"

definition make_servfail_wire :: "'n lib \<Rightarrow> u16 \<Rightarrow> 'n query option \<Rightarrow> bytes" where
  "make_servfail_wire L id' query = (case msg_to_bytes L (servfail_msg L id' query) of Some b \<Rightarrow> b | None \<Rightarrow> [])"

section \<open>Queries and masking\<close>

lemma mask_bits:
  fixes w :: "'a::len word"
  assumes "n \<le> LENGTH('a)"
  shows "w AND NOT (push_bit n 1 - 1) = push_bit n (drop_bit n w)"
proof -
  have "(push_bit n 1 :: 'a word) - 1 = mask n" by (simp add: mask_eq_exp_minus_1 push_bit_eq_mult)
  then show ?thesis by (simp add: bit_eq_iff bit_simps) (auto simp: bit_simps)
qed

lemma push_drop_bits:
  fixes w :: "'a::len word"
  shows "drop_bit n (push_bit n (drop_bit n w)) = drop_bit n w" "take_bit n (push_bit n (drop_bit n w)) = 0"
  by (auto simp: bit_eq_iff bit_simps dest: bit_imp_le_length)

lemma mask_v4_eq: "prefix \<le> 32 \<Longrightarrow> a AND mask_v4 prefix = push_bit (32 - unat prefix) (drop_bit (32 - unat prefix) a)"
  using mask_bits [of "32 - unat prefix" a] by (auto simp: mask_v4_def)

lemma mask_v6_eq: "prefix \<le> 128 \<Longrightarrow> a AND mask_v6 prefix = push_bit (128 - unat prefix) (drop_bit (128 - unat prefix) a)"
  using mask_bits [of "128 - unat prefix" a] by (auto simp: mask_v6_def)

text \<open>
  The client subnet used for location lookups keeps exactly the announced prefix: the masked
  address agrees with the client's on the first \<open>prefix\<close> bits and has zeros after them, and
  it exists exactly for a prefix length from 1 to the address width; no shift is out of range.
\<close>

lemma mask_addr_prefix:
  "(case mask_addr (V4 a) prefix of
      Some ip \<Rightarrow> 0 < prefix \<and> prefix \<le> 32 \<and> (\<exists>a'. ip = V4 a' \<and>
        drop_bit (32 - unat prefix) a' = drop_bit (32 - unat prefix) a \<and> take_bit (32 - unat prefix) a' = 0)
    | None \<Rightarrow> prefix = 0 \<or> prefix > 32) \<and>
   (case mask_addr (V6 b) prefix of
      Some ip \<Rightarrow> 0 < prefix \<and> prefix \<le> 128 \<and> (\<exists>b'. ip = V6 b' \<and>
        drop_bit (128 - unat prefix) b' = drop_bit (128 - unat prefix) b \<and> take_bit (128 - unat prefix) b' = 0)
    | None \<Rightarrow> prefix = 0 \<or> prefix > 128)"
  by (auto simp: mask_addr_def mask_v4_eq mask_v6_eq push_drop_bits not_less word_neq_0_conv split: if_splits)

text \<open>
  A query is accepted only when it decodes and has exactly one question; the payload size
  granted to the client lies between 512 and 1232 bytes whatever it announced, DNSSEC data is
  sent only on request, and the cache key is the canonical one of its question.
\<close>

lemma parse_and_validate_query_sound:
  assumes "parse_and_validate_query L wire = Some pq"
  shows "msg_read L wire = Some (pq_req_msg pq) \<and>
    (\<exists>q. m_queries (pq_req_msg pq) = [q] \<and> pq_qname pq = q_name q \<and> pq_qtype pq = q_type q) \<and>
    512 \<le> pq_client_max_payload pq \<and> pq_client_max_payload pq \<le> 1232 \<and>
    (pq_client_dnssec_ok pq \<longrightarrow> (\<exists>e. m_edns (pq_req_msg pq) = Some e \<and> e_dnssec_ok e)) \<and>
    pq_cache_key pq = canonical_cache_key L (pq_qname pq) (pq_qtype pq)"
  using assms by (auto simp: parse_and_validate_query_def clamp_def split: option.splits list.splits if_splits)

section \<open>Cache lifetime\<close>

lemma min_rrsig_validity_bounds:
  "min_rrsig_validity now rs m = Some v \<Longrightarrow> v \<le> m \<and>
   (\<forall>r \<in> set rs. \<forall>s. rr_data r = RD_RRSIG s \<longrightarrow> sint (sig_expiration s - now) > 0 \<and> v \<le> sig_expiration s - now)"
proof (induction rs arbitrary: m)
  case (Cons r rs)
  show ?case
  proof (cases "rr_data r")
    case (RD_RRSIG s)
    with Cons.prems have p: "sint (sig_expiration s - now) > 0"
      and q: "min_rrsig_validity now rs (min m (sig_expiration s - now)) = Some v"
      by (auto simp: Let_def split: if_splits)
    from Cons.IH [OF q] p RD_RRSIG show ?thesis by auto
  qed (use Cons in auto)
qed simp

lemma sint_pos_u32:
  assumes "sint (w :: u32) > 0"
  shows "sint w = int (unat w)"
proof (cases "uint w < 2 ^ 31")
  case True
  moreover have "0 \<le> uint w" by simp
  ultimately have "signed_take_bit 31 (uint w) = uint w" by (intro signed_take_bit_int_eq_self) linarith+
  then show ?thesis by (simp add: sint_uint)
next
  case False
  have w: "uint w < 2 ^ 32" using unsigned_less [of w, where 'a = int] by simp
  have "take_bit (Suc 31) (uint w) = take_bit (Suc 31) (uint w - 2 ^ 32)"
    by (simp add: take_bit_eq_mod)
  then have "signed_take_bit 31 (uint w) = signed_take_bit 31 (uint w - 2 ^ 32)"
    by (simp add: signed_take_bit_eq_iff_take_bit_eq)
  also have "\<dots> = uint w - 2 ^ 32" using False w by (intro signed_take_bit_int_eq_self) simp_all
  finally have "sint w < 0" using w by (simp add: sint_uint)
  with assms show ?thesis by simp
qed

lemma calculate_cache_ttl_le: "calculate_cache_ttl msg status now \<le> calculate_min_ttl msg"
  by (auto simp: calculate_cache_ttl_def Let_def split: option.splits)

text \<open>
  C18. An answer is never cached beyond its lifetime: the cache TTL is at most the TTL of every
  record of the message; and for a Secure answer with a positive cache TTL, every RRSIG of the
  answer and authority sections has its expiration ahead, by at least the cache TTL.
\<close>

theorem calculate_cache_ttl_bounds:
  assumes "ttl = calculate_cache_ttl msg status now"
  shows "(\<forall>r \<in> set (m_answers msg @ m_ns msg @ m_add msg). ttl \<le> rr_ttl r) \<and> ttl \<le> 86400 \<and>
    (status = Secure \<and> ttl > 0 \<longrightarrow>
      (\<forall>r \<in> set (m_answers msg @ m_ns msg). \<forall>s. rr_data r = RD_RRSIG s \<longrightarrow>
         int (unat ttl) \<le> sint (sig_expiration s - now32 now)))"
proof -
  have le: "ttl \<le> calculate_min_ttl msg" using assms calculate_cache_ttl_le by simp
  moreover have "calculate_min_ttl msg \<le> 86400" by (auto simp: calculate_min_ttl_def Let_def)
  moreover have "int (unat ttl) \<le> sint (sig_expiration s - now32 now)"
    if sec: "status = Secure" "ttl > 0" and r: "r \<in> set (m_answers msg @ m_ns msg)" "rr_data r = RD_RRSIG s" for r s
  proof -
    from sec assms obtain v where v: "min_rrsig_validity (now32 now) (m_answers msg @ m_ns msg) (- 1) = Some v"
      and t: "ttl = (if v \<noteq> - 1 then min (calculate_min_ttl msg) v else calculate_min_ttl msg)"
      by (auto simp: calculate_cache_ttl_def Let_def split: option.splits)
    from min_rrsig_validity_bounds [OF v] r
    have pos: "sint (sig_expiration s - now32 now) > 0" and vd: "v \<le> sig_expiration s - now32 now" by auto
    have "ttl \<le> v" using t by (auto simp: word_n1_ge split: if_splits)
    from this vd have "ttl \<le> sig_expiration s - now32 now" by (rule order_trans)
    then have "unat ttl \<le> unat (sig_expiration s - now32 now)" by (simp only: word_le_nat_alt)
    then show ?thesis unfolding sint_pos_u32 [OF pos] by (simp only: of_nat_le_iff)
  qed
  ultimately show ?thesis using calculate_min_ttl_record by (blast intro: order_trans)
qed

theorem calculate_cache_ttl_bounds_witness:
  "calculate_cache_ttl (empty_msg\<lparr>m_answers := [rr_from_rdata lab_lib [] 60 (RD_A 1)]\<rparr>) Secure 1000 \<le> 60"
  using calculate_cache_ttl_bounds [OF refl, of "empty_msg\<lparr>m_answers := [rr_from_rdata lab_lib [] 60 (RD_A 1)]\<rparr>" Secure 1000]
  by (simp add: rr_from_rdata_def)

section \<open>Client responses\<close>

lemma compute_ttl_fresh: "compute_ttl Fresh age ttl \<le> ttl"
  by (simp add: compute_ttl_def)

text \<open>
  C17. What a client sees: the response repeats the id and the questions of the request and carries
  the response code of the answer; the AD bit is set exactly for a Secure, fresh answer to a
  client that asked for DNSSEC (DO or AD) and did not disable checking; every answer record
  comes from the base message with an aged TTL, which for a fresh answer is at most the original
  one and for a stale one the 30 seconds of RFC 8767; without DO no DNSSEC records are added
  beyond the type asked for; no OPT record is copied.
\<close>

theorem client_response_contract:
  fixes L :: "'n lib" and base qtype status fresh cached_at req payload dnssec_ok now
  assumes "fresh_message L"
  defines "m \<equiv> client_response_msg L base qtype status fresh cached_at req payload dnssec_ok now"
  shows "m_id m = m_id req \<and> m_queries m = m_queries req \<and> m_rcode m = m_rcode base \<and> \<not> m_aa m \<and> m_ra m \<and>
    (m_ad m \<longleftrightarrow> status = Secure \<and> fresh = Fresh \<and> (dnssec_ok \<or> m_ad req) \<and> \<not> m_cd req) \<and>
    (\<forall>r \<in> set (m_answers m). \<exists>r0 \<in> set (m_answers base). r = r0\<lparr>rr_ttl := rr_ttl r\<rparr> \<and>
       (fresh = Fresh \<longrightarrow> rr_ttl r \<le> rr_ttl r0) \<and> (fresh = Stale \<longrightarrow> rr_ttl r = 30)) \<and>
    (\<not> dnssec_ok \<longrightarrow> (\<forall>r \<in> set (m_answers m @ m_ns m @ m_add m). rr_type r \<in> {RT_RRSIG, RT_NSEC, RT_NSEC3} \<longrightarrow> rr_type r = qtype)) \<and>
    (\<forall>r \<in> set (m_add m). rr_type r \<noteq> RT_OPT)"
proof -
  let ?age = "ucast (saturating_sub now cached_at) :: u32"
  let ?p = "present_records dnssec_ok qtype fresh ?age"
  from assms have sel: "m_id m = m_id req" "m_queries m = m_queries req" "m_rcode m = m_rcode base" "\<not> m_aa m" "m_ra m"
    "m_ad m \<longleftrightarrow> status = Secure \<and> fresh = Fresh \<and> (dnssec_ok \<or> m_ad req) \<and> \<not> m_cd req"
    "m_answers m = ?p (m_answers base)" "m_ns m = ?p (m_ns base)"
    "m_add m = ?p (filter (\<lambda>r. rr_type r \<noteq> RT_OPT) (m_add base))"
    by (simp_all add: client_response_msg_def fresh_message_def Let_def)
  have p1: "\<exists>r0 \<in> set rs. r = r0\<lparr>rr_ttl := rr_ttl r\<rparr> \<and> (fresh = Fresh \<longrightarrow> rr_ttl r \<le> rr_ttl r0) \<and> (fresh = Stale \<longrightarrow> rr_ttl r = 30)"
    if "r \<in> set (?p rs)" for r rs
    using that compute_ttl_fresh by (auto simp: present_records_def compute_ttl_def STALE_SERVE_TTL_def intro: bexI)
  have p2: "rr_type r \<in> {RT_RRSIG, RT_NSEC, RT_NSEC3} \<longrightarrow> rr_type r = qtype" if "\<not> dnssec_ok" "r \<in> set (?p rs)" for r rs
    using that by (auto simp: present_records_def is_dnssec_record_def)
  have p3: "rr_type r \<noteq> RT_OPT" if "r \<in> set (?p (filter (\<lambda>r. rr_type r \<noteq> RT_OPT) rs))" for r rs
    using that by (auto simp: present_records_def)
  show ?thesis unfolding sel(7-9) set_append using sel(1-6) p1 p2 p3 by blast
qed

theorem client_response_contract_witness:
  "m_ad (client_response_msg lab_lib (empty_msg :: bytes list message) RT_A Secure Fresh 0 (empty_msg\<lparr>m_ad := True\<rparr>) 1232 False 5)"
  using client_response_contract [OF lab_fresh_message, of "empty_msg :: bytes list message" RT_A Secure Fresh 0 "empty_msg\<lparr>m_ad := True\<rparr>" 1232 False 5]
  by (simp add: empty_msg_def)

end
