(* ===== verification/Rate_Limit.thy ===== *)
theory Rate_Limit
  imports Dns_Types "HOL-Library.Signed_Division"
begin

text \<open>
  \<open>src/ratelimit.rs\<close>: a token bucket per client subnet and response rate limiting per
  (subnet, name, type).

  The two concurrent maps are association lists. An entry handle of the map holds the lock of
  its shard until the function returns, so a call of \<open>check_query\<close> is one step on the bucket
  of its subnet and on the bucket of its key, and the compare-and-exchange on the refill time
  never fails. Times and tokens are \<open>i64\<close>: integers, with the wrap-around of every addition,
  subtraction and multiplication written out by \<open>i64\<close>. The per-key state is the packed 64-bit
  word of the source. The current time is an argument.

  Lemmas: the table is bounded and the buckets are well formed; a subnet never gets more
  answers than its capacity and its refill rate allow; a key gets at most one answer and one
  truncated answer per second and none while it is penalized.
\<close>

section \<open>Printing of addresses\<close>

text \<open>\<open>Display\<close> of numbers and of \<open>IpAddr\<close> in the standard library.\<close>

definition digit_char :: "nat \<Rightarrow> char" where
  "digit_char d = char_of (if d < 10 then 48 + d else 87 + d)"

fun show_base :: "nat \<Rightarrow> nat \<Rightarrow> nat \<Rightarrow> string" where
  "show_base b 0 n = []"
| "show_base b (Suc k) n = (if n < b then [digit_char n] else show_base b k (n div b) @ [digit_char (n mod b)])"

definition join_with :: "string \<Rightarrow> string list \<Rightarrow> string" where
  "join_with sep xs = (case xs of [] \<Rightarrow> [] | x # rest \<Rightarrow> x @ concat (map (\<lambda>y. sep @ y) rest))"

definition show_v4 :: "u32 \<Rightarrow> string" where
  "show_v4 a = join_with ''.'' (map (\<lambda>i. show_base 10 3 (unat (octet a i))) [0, 1, 2, 3])"

fun zero_span :: "u128 list \<Rightarrow> nat \<Rightarrow> nat \<times> nat \<Rightarrow> nat \<times> nat \<Rightarrow> nat \<times> nat" where
  "zero_span [] i current longest = longest"
| "zero_span (s # segs) i current longest =
     (if s = 0
      then let current' = (if snd current = 0 then (i, 1) else (fst current, snd current + 1))
           in zero_span segs (i + 1) current' (if snd current' > snd longest then current' else longest)
      else zero_span segs (i + 1) (0, 0) longest)"

definition show_segments :: "u128 list \<Rightarrow> string" where
  "show_segments segs = join_with '':'' (map (\<lambda>s. show_base 16 4 (unat s)) segs)"

definition show_v6 :: "u128 \<Rightarrow> string" where
  "show_v6 a =
     (case to_ipv4_mapped a of
        Some v4 \<Rightarrow> ''::ffff:'' @ show_v4 v4
      | None \<Rightarrow>
          (let segs = map (segment a) [0, 1, 2, 3, 4, 5, 6, 7]; (start, len) = zero_span segs 0 (0, 0) (0, 0) in
           if len > 1 then show_segments (take start segs) @ ''::'' @ show_segments (drop (start + len) segs)
           else show_segments segs))"

definition show_ip :: "ip_addr \<Rightarrow> string" where
  "show_ip ip = (case ip of V4 a \<Rightarrow> show_v4 a | V6 a \<Rightarrow> show_v6 a)"

section \<open>State\<close>

definition MAX_TRACKED_RRL_ENTRIES :: nat where "MAX_TRACKED_RRL_ENTRIES = 65536"

datatype rrl_action = Allow | Truncate | Drop

definition i64 :: "int \<Rightarrow> int" where
  "i64 x = sint (word_of_int x :: 64 word)"

record bucket =
  bk_tokens :: int
  bk_last_refill_millis :: int
  bk_last_seen_millis :: int

record domain_rate_bucket =
  db_state :: u64
  db_penalized_until_sec :: int

record rate_limiter =
  rl_subnet_buckets :: "(ip_addr \<times> bucket) list"
  rl_rrl_buckets :: "(string \<times> domain_rate_bucket) list"
  rl_capacity :: int
  rl_refill_per_sec :: int

definition rl_new :: "int \<Rightarrow> int \<Rightarrow> rate_limiter" where
  "rl_new capacity refill_per_sec =
     \<lparr>rl_subnet_buckets = [], rl_rrl_buckets = [], rl_capacity = capacity, rl_refill_per_sec = refill_per_sec\<rparr>"

definition to_subnet :: "ip_addr \<Rightarrow> ip_addr" where
  "to_subnet ip =
     (case ip of
        V4 v4 \<Rightarrow> V4 (ipv4_new (octet v4 0) (octet v4 1) (octet v4 2) 0)
      | V6 v6 \<Rightarrow> V6 (ipv6_new [segment v6 0, segment v6 1, segment v6 2, segment v6 3, 0, 0, 0, 0]))"

section \<open>Operations\<close>

definition bucket_entry :: "int \<Rightarrow> int \<Rightarrow> bucket option \<Rightarrow> bucket" where
  "bucket_entry capacity now_ms entry =
     (case entry of
        Some b \<Rightarrow> b
      | None \<Rightarrow> \<lparr>bk_tokens = capacity, bk_last_refill_millis = now_ms, bk_last_seen_millis = now_ms\<rparr>)"

definition refill :: "int \<Rightarrow> int \<Rightarrow> int \<Rightarrow> bucket \<Rightarrow> bucket" where
  "refill capacity refill_per_sec now_ms b =
     (let elapsed_ms = max (i64 (now_ms - bk_last_refill_millis b)) 0 in
      if elapsed_ms > 0
      then let new_tokens = i64 (elapsed_ms * refill_per_sec) sdiv 1000 in
           if new_tokens > 0
           then b\<lparr>bk_last_refill_millis := now_ms, bk_tokens := min (i64 (bk_tokens b + new_tokens)) capacity\<rparr>
           else b
      else b)"

definition acquire :: "bucket \<Rightarrow> bucket option" where
  "acquire b = (if bk_tokens b > 0 then Some (b\<lparr>bk_tokens := bk_tokens b - 1\<rparr>) else None)"

definition domain_entry :: "int \<Rightarrow> domain_rate_bucket option \<Rightarrow> domain_rate_bucket" where
  "domain_entry now_s entry =
     (case entry of
        Some d \<Rightarrow> d
      | None \<Rightarrow> \<lparr>db_state = push_bit 32 (word_of_int now_s), db_penalized_until_sec = 0\<rparr>)"

text \<open>The new packed state and the number of queries in its second.\<close>

definition count_query :: "int \<Rightarrow> u64 \<Rightarrow> int \<times> u64" where
  "count_query now_s val =
     (let curr_epoch = uint (drop_bit 32 val); curr_count = uint (val AND 0xFFFFFFFF) in
      if now_s > curr_epoch then (1, push_bit 32 (word_of_int now_s) OR 1)
      else let new_count = min (curr_count + 1) 4294967295 in
           (new_count, push_bit 32 (word_of_int curr_epoch) OR word_of_int new_count))"

definition rrl_step :: "int \<Rightarrow> domain_rate_bucket \<Rightarrow> rrl_action \<times> domain_rate_bucket" where
  "rrl_step now_s d =
     (if now_s < db_penalized_until_sec d then (Drop, d\<lparr>db_penalized_until_sec := i64 (now_s + 3)\<rparr>)
      else let (query_count, st) = count_query now_s (db_state d); d' = d\<lparr>db_state := st\<rparr> in
           if query_count = 1 then (Allow, d')
           else if query_count = 2 then (Truncate, d')
           else (Drop, d'\<lparr>db_penalized_until_sec := i64 (now_s + 3)\<rparr>))"

definition rrl_key :: "'n lib \<Rightarrow> ip_addr \<Rightarrow> 'n \<Rightarrow> rtype \<Rightarrow> string" where
  "rrl_key L subnet qname qtype = show_ip subnet @ '':'' @ name_key L qname @ '':'' @ rt_display L qtype"

definition rrl_check :: "int \<Rightarrow> string \<Rightarrow> rate_limiter \<Rightarrow> rrl_action \<times> rate_limiter" where
  "rrl_check now_s key rl =
     (if dm_get (rl_rrl_buckets rl) key = None \<and> length (rl_rrl_buckets rl) \<ge> MAX_TRACKED_RRL_ENTRIES
      then (Allow, rl)
      else let (action, d) = rrl_step now_s (domain_entry now_s (dm_get (rl_rrl_buckets rl) key)) in
           (action, rl\<lparr>rl_rrl_buckets := dm_insert key d (rl_rrl_buckets rl)\<rparr>))"

definition check_query ::
  "'n lib \<Rightarrow> int \<Rightarrow> string \<Rightarrow> ip_addr \<Rightarrow> 'n \<Rightarrow> rtype \<Rightarrow> rate_limiter \<Rightarrow> rrl_action \<times> rate_limiter" where
  "check_query L now_ms protocol client_ip qname qtype rl =
     (if is_loopback client_ip then (Allow, rl)
      else if protocol = ''UDP'' \<and> qtype = RT_ANY then (Drop, rl)
      else
        let subnet = to_subnet client_ip; now_s = now_ms sdiv 1000;
            b = (bucket_entry (rl_capacity rl) now_ms (dm_get (rl_subnet_buckets rl) subnet))\<lparr>bk_last_seen_millis := now_ms\<rparr>;
            b = refill (rl_capacity rl) (rl_refill_per_sec rl) now_ms b in
        case acquire b of
          None \<Rightarrow> (Drop, rl\<lparr>rl_subnet_buckets := dm_insert subnet b (rl_subnet_buckets rl)\<rparr>)
        | Some b' \<Rightarrow>
            (let rl' = rl\<lparr>rl_subnet_buckets := dm_insert subnet b' (rl_subnet_buckets rl)\<rparr> in
             if protocol \<noteq> ''UDP'' then (Allow, rl')
             else rrl_check now_s (rrl_key L subnet qname qtype) rl'))"

definition should_challenge_large_response :: "string \<Rightarrow> ip_addr \<Rightarrow> nat \<Rightarrow> nat \<Rightarrow> bool" where
  "should_challenge_large_response protocol client_ip resp_bytes client_max_payload =
     (if protocol \<noteq> ''UDP'' \<or> is_loopback client_ip then False else resp_bytes > client_max_payload)"

definition cleanup :: "int \<Rightarrow> int \<Rightarrow> rate_limiter \<Rightarrow> rate_limiter" where
  "cleanup now_ms max_age_ms rl =
     (let cutoff_ms = i64 (now_ms - max_age_ms); cutoff_s = cutoff_ms sdiv 1000 in
      rl\<lparr>rl_subnet_buckets := dm_retain (\<lambda>_ b. bk_last_seen_millis b \<ge> cutoff_ms) (rl_subnet_buckets rl),
         rl_rrl_buckets := dm_retain (\<lambda>_ d. uint (drop_bit 32 (db_state d)) \<ge> cutoff_s) (rl_rrl_buckets rl)\<rparr>)"

definition tracked_subnets :: "rate_limiter \<Rightarrow> nat" where
  "tracked_subnets rl = length (rl_subnet_buckets rl)"

section \<open>The limiter's invariant\<close>

definition rl_ok :: "rate_limiter \<Rightarrow> bool" where
  "rl_ok rl \<longleftrightarrow> dm_ok (rl_subnet_buckets rl) \<and> dm_ok (rl_rrl_buckets rl) \<and>
     length (rl_rrl_buckets rl) \<le> MAX_TRACKED_RRL_ENTRIES \<and> 0 \<le> rl_capacity rl \<and> rl_capacity rl < 2 ^ 62 \<and>
     (\<forall>s b. dm_get (rl_subnet_buckets rl) s = Some b \<longrightarrow> 0 \<le> bk_tokens b \<and> bk_tokens b \<le> rl_capacity rl)"

lemma i64_id: "- (2 ^ 63) \<le> x \<Longrightarrow> x < 2 ^ 63 \<Longrightarrow> i64 x = x"
  by (simp add: i64_def sint_sbintrunc' signed_take_bit_int_eq_self)

lemma i64_less: "i64 x < 2 ^ 63"
  using signed_take_bit_int_less_exp [of 63 x] by (simp add: i64_def sint_sbintrunc')

lemma sdiv_nonneg: "0 \<le> x \<Longrightarrow> x sdiv 1000 = x div (1000 :: int)"
  by (cases "x = 0") (simp_all add: signed_divide_int_def sgn_if)

lemma sdiv_pos_bound:
  assumes "(x :: int) sdiv 1000 > 0" and "x < 2 ^ 63"
  shows "x sdiv 1000 < 2 ^ 54"
proof -
  have "x \<ge> 0" using assms(1) by (cases "x \<ge> 0") (auto simp: signed_divide_int_def sgn_if split: if_splits)
  then show ?thesis using assms(2) by (simp add: sdiv_nonneg)
qed

lemma refill_tokens:
  assumes "0 \<le> bk_tokens b" and "bk_tokens b \<le> cap" and "0 \<le> cap" and "cap < 2 ^ 62"
  shows "0 \<le> bk_tokens (refill cap rate now b) \<and> bk_tokens (refill cap rate now b) \<le> cap"
proof -
  have "i64 (bk_tokens b + n) = bk_tokens b + n" if "n > 0" "n < 2 ^ 54" for n
    using that assms by (intro i64_id) auto
  then show ?thesis using assms sdiv_pos_bound [OF _ i64_less]
    by (fastforce simp: refill_def Let_def)
qed

lemma rrl_check_shape:
  "rl_subnet_buckets (snd (rrl_check now_s key rl)) = rl_subnet_buckets rl \<and>
   rl_capacity (snd (rrl_check now_s key rl)) = rl_capacity rl \<and>
   rl_refill_per_sec (snd (rrl_check now_s key rl)) = rl_refill_per_sec rl"
  by (simp add: rrl_check_def Let_def split: prod.splits)

lemma rrl_check_bounded:
  assumes "dm_ok (rl_rrl_buckets rl)" and "length (rl_rrl_buckets rl) \<le> MAX_TRACKED_RRL_ENTRIES"
  shows "dm_ok (rl_rrl_buckets (snd (rrl_check now_s key rl))) \<and>
    length (rl_rrl_buckets (snd (rrl_check now_s key rl))) \<le> MAX_TRACKED_RRL_ENTRIES"
  using assms dm.guarded_insert_bounded [OF assms, of key]
  by (auto simp: rrl_check_def Let_def dm.ok_insert split: prod.splits)

text \<open>What a query does to the bucket of its subnet: nothing, or a refill followed by taking a token.\<close>

definition touched :: "rate_limiter \<Rightarrow> int \<Rightarrow> ip_addr \<Rightarrow> bucket" where
  "touched rl now_ms subnet =
     refill (rl_capacity rl) (rl_refill_per_sec rl) now_ms
       ((bucket_entry (rl_capacity rl) now_ms (dm_get (rl_subnet_buckets rl) subnet))\<lparr>bk_last_seen_millis := now_ms\<rparr>)"

lemma check_query_cases:
  obtains (free) "is_loopback ip \<or> (p = ''UDP'' \<and> t = RT_ANY)"
      "check_query L now p ip q t rl = (if is_loopback ip then Allow else Drop, rl)"
  | (empty) "\<not> is_loopback ip" "bk_tokens (touched rl now (to_subnet ip)) \<le> 0"
      "check_query L now p ip q t rl =
         (Drop, rl\<lparr>rl_subnet_buckets := dm_insert (to_subnet ip) (touched rl now (to_subnet ip)) (rl_subnet_buckets rl)\<rparr>)"
  | (token) b' rl' where "\<not> is_loopback ip" "bk_tokens (touched rl now (to_subnet ip)) > 0"
      "b' = (touched rl now (to_subnet ip))\<lparr>bk_tokens := bk_tokens (touched rl now (to_subnet ip)) - 1\<rparr>"
      "rl' = rl\<lparr>rl_subnet_buckets := dm_insert (to_subnet ip) b' (rl_subnet_buckets rl)\<rparr>"
      "check_query L now p ip q t rl =
         (if p \<noteq> ''UDP'' then (Allow, rl') else rrl_check (now sdiv 1000) (rrl_key L (to_subnet ip) q t) rl')"
proof (cases "is_loopback ip \<or> (p = ''UDP'' \<and> t = RT_ANY)")
  case True
  then show ?thesis by (intro free) (auto simp: check_query_def)
next
  case False
  show ?thesis
  proof (cases "bk_tokens (touched rl now (to_subnet ip)) > 0")
    case True
    with False show ?thesis by (intro token [OF _ _ refl refl]) (auto simp: check_query_def touched_def acquire_def Let_def)
  next
    case empty: False
    with False show ?thesis by (intro that(2)) (auto simp: check_query_def touched_def acquire_def Let_def)
  qed
qed

lemma touched_tokens:
  assumes "rl_ok rl"
  shows "0 \<le> bk_tokens (touched rl now s) \<and> bk_tokens (touched rl now s) \<le> rl_capacity rl"
  unfolding touched_def
  by (rule refill_tokens) (use assms in \<open>auto simp: rl_ok_def bucket_entry_def split: option.splits\<close>)

lemma rl_ok_insert_subnet:
  assumes "rl_ok rl" and "0 \<le> bk_tokens b" and "bk_tokens b \<le> rl_capacity rl"
  shows "rl_ok (rl\<lparr>rl_subnet_buckets := dm_insert s b (rl_subnet_buckets rl)\<rparr>)"
  using assms by (auto simp: rl_ok_def dm.ok_insert dm.get_insert split: if_splits)

lemma rl_ok_rrl_check: "rl_ok rl \<Longrightarrow> rl_ok (snd (rrl_check now_s key rl))"
  using rrl_check_shape [of now_s key rl] rrl_check_bounded [of rl now_s key] by (auto simp: rl_ok_def)

lemma rl_ok_check_query:
  assumes "rl_ok rl"
  shows "rl_ok (snd (check_query L now p ip q t rl))"
proof (cases rule: check_query_cases [of ip p t L now q rl])
  case (token b' rl')
  have "rl_ok rl'" unfolding token(4) using token(2) touched_tokens [OF assms, of now "to_subnet ip"]
    by (intro rl_ok_insert_subnet [OF assms]) (auto simp: token(3))
  then show ?thesis by (simp add: token(5) rl_ok_rrl_check)
next
  case empty
  then show ?thesis using touched_tokens [OF assms, of now "to_subnet ip"] rl_ok_insert_subnet [OF assms] by auto
qed (use assms in simp)

lemma rl_ok_cleanup: "rl_ok rl \<Longrightarrow> rl_ok (cleanup now max_age rl)"
  unfolding rl_ok_def cleanup_def Let_def
  by (auto simp: dm.ok_retain dm.get_retain intro: order_trans [OF dm.len_retain] split: option.splits if_splits)

text \<open>
  The limiter is bounded and consistent: from a limiter with at most 65536 tracked keys and all token
  counts between 0 and the capacity, any query at any time and any clean-up lead to such a
  limiter again; no arithmetic on the token counts wraps.
\<close>

lemma rate_limiter_invariant:
  assumes "rl_ok rl"
  shows "rl_ok (snd (check_query L now protocol client_ip qname qtype rl)) \<and> rl_ok (cleanup now max_age rl)"
proof
  show "rl_ok (snd (check_query L now protocol client_ip qname qtype rl))"
    by (rule rl_ok_check_query [OF assms])
  show "rl_ok (cleanup now max_age rl)" by (rule rl_ok_cleanup [OF assms])
qed

section \<open>Rates over a run of queries\<close>

type_synonym 'n arrival = "int \<times> string \<times> ip_addr \<times> 'n \<times> rtype"

fun check_run :: "'n lib \<Rightarrow> 'n arrival list \<Rightarrow> rate_limiter \<Rightarrow> rrl_action list \<times> rate_limiter" where
  "check_run L [] rl = ([], rl)"
| "check_run L ((now, p, ip, q, t) # evs) rl =
     (let (a, rl1) = check_query L now p ip q t rl; (as, rl2) = check_run L evs rl1 in (a # as, rl2))"

text \<open>The arrivals of a subnet, loopback clients aside, that were not dropped.\<close>

fun admitted :: "ip_addr \<Rightarrow> 'n arrival list \<Rightarrow> rrl_action list \<Rightarrow> nat" where
  "admitted s ((now, p, ip, q, t) # evs) (a # as) =
     (if \<not> is_loopback ip \<and> to_subnet ip = s \<and> a \<noteq> Drop then 1 else 0) + admitted s evs as"
| "admitted s _ _ = 0"

fun times_in :: "int \<Rightarrow> int \<Rightarrow> 'n arrival list \<Rightarrow> bool" where
  "times_in lo hi [] \<longleftrightarrow> lo \<le> hi"
| "times_in lo hi ((now, _) # evs) \<longleftrightarrow> lo \<le> now \<and> times_in now hi evs"

lemma times_in_bounds: "times_in lo hi evs \<Longrightarrow> lo \<le> hi"
  by (induction lo hi evs rule: times_in.induct) auto

text \<open>The tokens a bucket can still give until time \<open>hi\<close>, in thousandths.\<close>

definition credit :: "int \<Rightarrow> int \<Rightarrow> bucket \<Rightarrow> int" where
  "credit rate hi b = 1000 * bk_tokens b + rate * (hi - bk_last_refill_millis b)"

definition clocked :: "int \<Rightarrow> bucket \<Rightarrow> bool" where
  "clocked now b \<longleftrightarrow> 0 \<le> bk_last_refill_millis b \<and> bk_last_refill_millis b \<le> now"

lemma refill_credit:
  assumes "clocked now b" and "0 \<le> bk_tokens b" and "bk_tokens b \<le> cap" and "cap < 2 ^ 62"
    and "0 \<le> rate" and "now < 2 ^ 63" and "now * rate < 2 ^ 63"
  shows "credit rate hi (refill cap rate now b) \<le> credit rate hi b \<and> clocked now (refill cap rate now b)"
proof -
  define e where "e = now - bk_last_refill_millis b"
  have e: "0 \<le> e" "e \<le> now" "0 \<le> now" using assms(1) by (auto simp: e_def clocked_def)
  have "e * rate \<le> now * rate" using e assms(5) by (simp add: mult_right_mono)
  then have er: "0 \<le> e * rate" "e * rate < 2 ^ 63" using e assms(5,7) by auto
  have ie: "i64 e = e" and ier: "i64 (e * rate) = e * rate"
    using e er assms(6) by (auto intro!: i64_id)
  define n where "n = e * rate div 1000"
  have n: "1000 * n \<le> e * rate" "n < 2 ^ 54" using er by (auto simp: n_def)
  have r: "refill cap rate now b =
      (if e > 0 \<and> n > 0 then b\<lparr>bk_last_refill_millis := now, bk_tokens := min (i64 (bk_tokens b + n)) cap\<rparr> else b)"
    using e er by (simp add: refill_def Let_def e_def [symmetric] ie max_def ier sdiv_nonneg n_def [symmetric])
  show ?thesis
  proof (cases "e > 0 \<and> n > 0")
    case True
    have "i64 (bk_tokens b + n) = bk_tokens b + n" using True n assms(2-4) by (intro i64_id) auto
    then have "min (i64 (bk_tokens b + n)) cap \<le> bk_tokens b + n" by simp
    then have "1000 * min (i64 (bk_tokens b + n)) cap \<le> 1000 * bk_tokens b + e * rate" using n by linarith
    moreover have "rate * (hi - bk_last_refill_millis b) = e * rate + rate * (hi - now)"
      by (simp add: e_def algebra_simps)
    ultimately show ?thesis using True e by (simp add: r credit_def clocked_def)
  next
    case False
    then show ?thesis using assms(1) by (simp only: r if_False) simp
  qed
qed

text \<open>The credit of a subnet, tracked or not, at time \<open>now\<close>.\<close>

definition subnet_credit :: "rate_limiter \<Rightarrow> int \<Rightarrow> int \<Rightarrow> ip_addr \<Rightarrow> int" where
  "subnet_credit rl now hi s =
     (case dm_get (rl_subnet_buckets rl) s of
        Some b \<Rightarrow> credit (rl_refill_per_sec rl) hi b
      | None \<Rightarrow> 1000 * rl_capacity rl + rl_refill_per_sec rl * (hi - now))"

definition rl_clocked :: "rate_limiter \<Rightarrow> int \<Rightarrow> bool" where
  "rl_clocked rl now \<longleftrightarrow> rl_ok rl \<and> 0 \<le> now \<and> 0 \<le> rl_refill_per_sec rl \<and>
     (\<forall>s b. dm_get (rl_subnet_buckets rl) s = Some b \<longrightarrow> clocked now b)"

lemma subnet_credit_later:
  "0 \<le> rl_refill_per_sec rl \<Longrightarrow> now \<le> now' \<Longrightarrow> subnet_credit rl now' hi s \<le> subnet_credit rl now hi s"
  by (auto simp: subnet_credit_def mult_left_mono split: option.splits)

lemma rl_clocked_later: "rl_clocked rl now \<Longrightarrow> now \<le> now' \<Longrightarrow> rl_clocked rl now'"
  by (auto simp: rl_clocked_def clocked_def intro: order_trans)

lemma touched_credit:
  assumes "rl_clocked rl now" and "now < 2 ^ 63" and "now * rl_refill_per_sec rl < 2 ^ 63"
  shows "credit (rl_refill_per_sec rl) hi (touched rl now s) \<le> subnet_credit rl now hi s \<and> clocked now (touched rl now s)"
proof -
  let ?b = "(bucket_entry (rl_capacity rl) now (dm_get (rl_subnet_buckets rl) s))\<lparr>bk_last_seen_millis := now\<rparr>"
  have "clocked now ?b" "0 \<le> bk_tokens ?b" "bk_tokens ?b \<le> rl_capacity rl" "rl_capacity rl < 2 ^ 62" "0 \<le> rl_refill_per_sec rl"
    using assms(1) by (auto simp: rl_clocked_def rl_ok_def bucket_entry_def clocked_def split: option.splits)
  from refill_credit [OF this assms(2,3), of hi]
  have "credit (rl_refill_per_sec rl) hi (touched rl now s) \<le> credit (rl_refill_per_sec rl) hi ?b \<and> clocked now (touched rl now s)"
    by (simp add: touched_def)
  moreover have "credit (rl_refill_per_sec rl) hi ?b = subnet_credit rl now hi s"
    by (simp add: subnet_credit_def bucket_entry_def credit_def split: option.splits)
  ultimately show ?thesis by simp
qed

lemma check_query_shape:
  "rl_capacity (snd (check_query L now p ip q t rl)) = rl_capacity rl \<and>
   rl_refill_per_sec (snd (check_query L now p ip q t rl)) = rl_refill_per_sec rl"
  by (cases rule: check_query_cases [of ip p t L now q rl]) (auto simp: rrl_check_shape)

lemma check_query_subnets:
  assumes "check_query L now p ip q t rl = (a, rl')"
  shows "(a = Drop \<or> is_loopback ip) \<and> rl_subnet_buckets rl' = rl_subnet_buckets rl \<or>
    (\<exists>b'. \<not> is_loopback ip \<and> rl_subnet_buckets rl' = dm_insert (to_subnet ip) b' (rl_subnet_buckets rl) \<and>
       bk_last_refill_millis b' = bk_last_refill_millis (touched rl now (to_subnet ip)) \<and>
       bk_tokens b' + (if a \<noteq> Drop then 1 else 0) \<le> bk_tokens (touched rl now (to_subnet ip)))"
proof (cases rule: check_query_cases [of ip p t L now q rl])
  case (token b' rl1)
  then have "rl_subnet_buckets rl' = rl_subnet_buckets rl1"
    using assms rrl_check_shape [of "now sdiv 1000" "rrl_key L (to_subnet ip) q t" rl1]
    by (cases "p = ''UDP''") auto
  with token show ?thesis by (intro disjI2 exI [of _ b']) simp
qed (use assms in \<open>auto split: if_splits\<close>)

lemma check_query_credit:
  assumes "rl_clocked rl now" and "now < 2 ^ 63" and "now * rl_refill_per_sec rl < 2 ^ 63"
    and step: "check_query L now p ip q t rl = (a, rl')"
  shows "rl_clocked rl' now \<and>
    subnet_credit rl' now hi s + (if \<not> is_loopback ip \<and> to_subnet ip = s \<and> a \<noteq> Drop then 1000 else 0) \<le> subnet_credit rl now hi s"
proof -
  have par: "rl_capacity rl' = rl_capacity rl" "rl_refill_per_sec rl' = rl_refill_per_sec rl" "rl_ok rl'"
    using check_query_shape [of L now p ip q t rl] rl_ok_check_query [of rl L now p ip q t] assms(1) step
    by (auto simp: rl_clocked_def)
  note tc = touched_credit [OF assms(1-3), of hi "to_subnet ip"]
  from check_query_subnets [OF step] show ?thesis
  proof
    assume "(a = Drop \<or> is_loopback ip) \<and> rl_subnet_buckets rl' = rl_subnet_buckets rl"
    then show ?thesis using assms(1) par by (auto simp: rl_clocked_def subnet_credit_def split: option.splits)
  next
    assume "\<exists>b'. \<not> is_loopback ip \<and> rl_subnet_buckets rl' = dm_insert (to_subnet ip) b' (rl_subnet_buckets rl) \<and>
       bk_last_refill_millis b' = bk_last_refill_millis (touched rl now (to_subnet ip)) \<and>
       bk_tokens b' + (if a \<noteq> Drop then 1 else 0) \<le> bk_tokens (touched rl now (to_subnet ip))"
    then obtain b' where b': "\<not> is_loopback ip" "rl_subnet_buckets rl' = dm_insert (to_subnet ip) b' (rl_subnet_buckets rl)"
      "bk_last_refill_millis b' = bk_last_refill_millis (touched rl now (to_subnet ip))"
      "bk_tokens b' + (if a \<noteq> Drop then 1 else 0) \<le> bk_tokens (touched rl now (to_subnet ip))" by blast
    have "clocked now b'" using tc b'(3) by (simp add: clocked_def)
    then have "rl_clocked rl' now" using assms(1) par by (auto simp: rl_clocked_def b'(2) dm.get_insert split: if_splits)
    moreover have "credit (rl_refill_per_sec rl) hi b' + (if a \<noteq> Drop then 1000 else 0) \<le> credit (rl_refill_per_sec rl) hi (touched rl now (to_subnet ip))"
      using b'(3,4) by (simp add: credit_def split: if_splits)
    ultimately show ?thesis using tc b'(1) par by (auto simp: subnet_credit_def b'(2) dm.get_insert split: if_splits option.splits)
  qed
qed

lemma subnet_credit_nonneg: "rl_clocked rl now \<Longrightarrow> now \<le> hi \<Longrightarrow> 0 \<le> subnet_credit rl now hi s"
  by (fastforce simp: rl_clocked_def rl_ok_def subnet_credit_def credit_def clocked_def split: option.splits
      intro!: add_nonneg_nonneg mult_nonneg_nonneg)

lemma admitted_credit:
  assumes "times_in now hi evs" and "rl_clocked rl now" and "hi < 2 ^ 63" and "hi * rl_refill_per_sec rl < 2 ^ 63"
  shows "1000 * int (admitted s evs (fst (check_run L evs rl))) \<le> subnet_credit rl now hi s"
  using assms
proof (induction L evs rl arbitrary: now rule: check_run.induct)
  case (1 L rl)
  then show ?case using subnet_credit_nonneg [of rl now hi s] by simp
next
  case (2 L now' p ip q t evs rl)
  obtain a rl1 where st: "check_query L now' p ip q t rl = (a, rl1)" by (metis surj_pair)
  from 2(2) have le: "now \<le> now'" and rest: "times_in now' hi evs" by auto
  have le': "now' \<le> hi" by (rule times_in_bounds [OF rest])
  have rate: "0 \<le> rl_refill_per_sec rl" using 2(3) by (simp add: rl_clocked_def)
  have "now' * rl_refill_per_sec rl \<le> hi * rl_refill_per_sec rl" using le' rate by (rule mult_right_mono)
  then have nb: "now' < 2 ^ 63" "now' * rl_refill_per_sec rl < 2 ^ 63" using le' 2(4,5) by auto
  from check_query_credit [OF rl_clocked_later [OF 2(3) le] nb st, of hi s]
  have ck: "rl_clocked rl1 now'"
    and cr: "subnet_credit rl1 now' hi s + (if \<not> is_loopback ip \<and> to_subnet ip = s \<and> a \<noteq> Drop then 1000 else 0) \<le> subnet_credit rl now' hi s"
    by auto
  have "rl_refill_per_sec rl1 = rl_refill_per_sec rl" using check_query_shape [of L now' p ip q t rl] st by simp
  with 2(1) [OF st [symmetric] refl rest ck 2(4)] 2(5)
  have "1000 * int (admitted s evs (fst (check_run L evs rl1))) \<le> subnet_credit rl1 now' hi s" by simp
  moreover obtain as rl2 where "check_run L evs rl1 = (as, rl2)" by (metis surj_pair)
  ultimately show ?case using cr subnet_credit_later [OF rate le, of hi s] by (auto simp: st split: if_splits)
qed

text \<open>
  C24. The rate limit holds over any run of queries: between two times, a subnet gets at most
  the capacity plus the refill rate times the elapsed seconds queries past the limiter,
  however they are spread over protocols, clients of the subnet, names and types.
\<close>

theorem token_bucket_rate:
  assumes "times_in lo hi evs" and "0 \<le> lo" and "hi < 2 ^ 63" and "hi * rate < 2 ^ 63"
    and "0 \<le> cap" and "cap < 2 ^ 62" and "0 \<le> rate"
  shows "1000 * int (admitted subnet evs (fst (check_run L evs (rl_new cap rate)))) \<le> 1000 * cap + rate * (hi - lo)"
proof -
  have "rl_clocked (rl_new cap rate) lo" using assms by (simp add: rl_clocked_def rl_ok_def rl_new_def)
  from admitted_credit [OF assms(1) this assms(3), of subnet L] assms(4)
  show ?thesis by (simp add: rl_new_def subnet_credit_def)
qed

theorem token_bucket_rate_witness:
  "int (admitted (V4 0x01020300) [(0, ''TCP'', V4 0x01020304, [] :: bytes list, RT_A), (0, ''TCP'', V4 0x01020305, [], RT_A)]
     (fst (check_run lab_lib [(0, ''TCP'', V4 0x01020304, [] :: bytes list, RT_A), (0, ''TCP'', V4 0x01020305, [], RT_A)] (rl_new 1 60)))) \<le> 1"
proof -
  let ?evs = "[(0, ''TCP'', V4 0x01020304, [] :: bytes list, RT_A), (0, ''TCP'', V4 0x01020305, [], RT_A)]"
  have "1000 * int (admitted (V4 0x01020300) ?evs (fst (check_run lab_lib ?evs (rl_new 1 60)))) \<le> 1000 * 1 + 60 * (0 - 0)"
    by (rule token_bucket_rate) simp_all
  then show ?thesis by simp
qed

section \<open>Response rate limiting\<close>

abbreviation epoch_of :: "u64 \<Rightarrow> int" where "epoch_of v \<equiv> uint (drop_bit 32 v)"
abbreviation count_of :: "u64 \<Rightarrow> int" where "count_of v \<equiv> uint (v AND 0xFFFFFFFF)"

lemma mask32: "(0xFFFFFFFF :: u64) = mask 32"
  by (simp add: mask_eq_exp_minus_1)

lemma count_of_bounds: "0 \<le> count_of v \<and> count_of v < 2 ^ 32"
  using take_bit_int_less_exp [of 32 "uint v"] by (simp add: mask32 unsigned_take_bit_eq flip: take_bit_eq_mask)

lemma epoch_of_bounds: "0 \<le> epoch_of v \<and> epoch_of v < 2 ^ 32"
proof -
  have "take_bit 32 (drop_bit 32 v) = drop_bit 32 v"
    by (rule bit_word_eqI) (auto simp: bit_simps dest: bit_imp_le_length)
  then have "epoch_of v = take_bit 32 (epoch_of v)" by (metis unsigned_take_bit_eq)
  then show ?thesis using take_bit_int_less_exp [of 32 "epoch_of v"] by simp
qed

lemma bit_small_int: "0 \<le> (x :: int) \<Longrightarrow> x < 2 ^ n \<Longrightarrow> bit x i \<Longrightarrow> i < n"
  by (metis bit_take_bit_iff take_bit_int_eq_self)

lemma pack_fields:
  assumes "0 \<le> e" and "e < 2 ^ 32" and "0 \<le> c" and "c < 2 ^ 32"
  defines "w \<equiv> push_bit 32 (word_of_int e) OR word_of_int c :: u64"
  shows "epoch_of w = e \<and> count_of w = c"
proof
  note be = bit_small_int [OF assms(1,2)] and bc = bit_small_int [OF assms(3,4)]
  have "drop_bit 32 w = word_of_int e"
    by (rule bit_word_eqI) (auto simp: w_def bit_simps dest: be bc)
  then show "epoch_of w = e" using assms(1,2) by (simp add: unsigned_of_int take_bit_int_eq_self)
  have "w AND 0xFFFFFFFF = word_of_int c"
    unfolding mask32 by (rule bit_word_eqI) (auto simp: w_def bit_simps dest: bc)
  then show "count_of w = c" using assms(3,4) by (simp add: unsigned_of_int take_bit_int_eq_self)
qed

lemma count_query_fields:
  assumes "count_query now v = (n, v')" and "0 \<le> now" and "now < 2 ^ 32"
  shows "n = (if now > epoch_of v then 1 else min (count_of v + 1) 4294967295) \<and> count_of v' = n \<and> epoch_of v' = max now (epoch_of v)"
proof (cases "now > epoch_of v")
  case True
  then have "n = 1" "v' = push_bit 32 (word_of_int now) OR word_of_int 1" using assms(1) by (auto simp: count_query_def)
  then show ?thesis using pack_fields [OF assms(2,3), of 1] True by simp
next
  case False
  define m where "m = min (count_of v + 1) 4294967295"
  have m: "0 \<le> m" "m < 2 ^ 32" using count_of_bounds [of v] by (auto simp: m_def)
  have "n = m" "v' = push_bit 32 (word_of_int (epoch_of v)) OR word_of_int m"
    using False assms(1) by (auto simp: count_query_def m_def Let_def)
  then show ?thesis using pack_fields [OF conjunct1 [OF epoch_of_bounds] conjunct2 [OF epoch_of_bounds] m, of v] False
    by (simp add: m_def)
qed

text \<open>How many queries of a key its bucket has counted in the current second.\<close>

definition phase :: "int \<Rightarrow> domain_rate_bucket option \<Rightarrow> int" where
  "phase sec entry =
     (case entry of None \<Rightarrow> 0 | Some d \<Rightarrow> if sec > epoch_of (db_state d) then 0 else count_of (db_state d))"

lemma phase_nonneg: "0 \<le> phase sec entry"
  by (simp add: phase_def split: option.splits)

lemma phase_domain_entry:
  assumes "0 \<le> sec" and "sec < 2 ^ 32"
  shows "phase sec (Some (domain_entry sec entry)) = phase sec entry"
  using pack_fields [OF assms, of 0] by (simp add: domain_entry_def phase_def split: option.splits)

lemma rrl_step_phase:
  assumes "rrl_step sec d = (a, d')" and "0 \<le> sec" and "sec < 2 ^ 32"
  shows "a = Drop \<and> phase sec (Some d) \<le> phase sec (Some d') \<or>
    phase sec (Some d') = phase sec (Some d) + 1 \<and> a = (if phase sec (Some d) = 0 then Allow else Truncate) \<and> phase sec (Some d) \<le> 1"
proof (cases "sec < db_penalized_until_sec d")
  case True
  with assms(1) show ?thesis by (auto simp: rrl_step_def phase_def)
next
  case False
  obtain n v' where c: "count_query sec (db_state d) = (n, v')" by (metis surj_pair)
  have "db_state d' = v'" and a: "a = (if n = 1 then Allow else if n = 2 then Truncate else Drop)"
    using assms(1) False by (auto simp: rrl_step_def c Let_def split: if_splits)
  then have "phase sec (Some d') = n \<and> n = min (phase sec (Some d) + 1) 4294967295"
    using count_query_fields [OF c assms(2,3)] count_of_bounds [of "db_state d"]
    by (auto simp: phase_def max_def split: if_splits)
  moreover have "phase sec (Some d) \<le> 4294967295"
    using count_of_bounds [of "db_state d"] by (simp add: phase_def)
  ultimately show ?thesis using a phase_nonneg [of sec "Some d"] by (auto simp: min_def split: if_splits)
qed

lemma rrl_check_phase:
  assumes "rrl_check sec key rl = (a, rl')" and "0 \<le> sec" and "sec < 2 ^ 32"
    and "dm_get (rl_rrl_buckets rl) key \<noteq> None \<or> length (rl_rrl_buckets rl) < MAX_TRACKED_RRL_ENTRIES"
  shows "dm_get (rl_rrl_buckets rl') key \<noteq> None \<and>
    (a = Drop \<and> phase sec (dm_get (rl_rrl_buckets rl) key) \<le> phase sec (dm_get (rl_rrl_buckets rl') key) \<or>
     phase sec (dm_get (rl_rrl_buckets rl') key) = phase sec (dm_get (rl_rrl_buckets rl) key) + 1 \<and>
     a = (if phase sec (dm_get (rl_rrl_buckets rl) key) = 0 then Allow else Truncate) \<and> phase sec (dm_get (rl_rrl_buckets rl) key) \<le> 1)"
proof -
  obtain d' where d': "rrl_step sec (domain_entry sec (dm_get (rl_rrl_buckets rl) key)) = (a, d')"
    and "rl' = rl\<lparr>rl_rrl_buckets := dm_insert key d' (rl_rrl_buckets rl)\<rparr>"
    using assms(1,4) by (auto simp: rrl_check_def Let_def split: if_splits prod.splits)
  then have "dm_get (rl_rrl_buckets rl') key = Some d'" by (simp add: dm.get_insert)
  with rrl_step_phase [OF d' assms(2,3)] show ?thesis by (simp add: phase_domain_entry [OF assms(2,3)])
qed

definition same_question :: "'n arrival \<Rightarrow> ip_addr \<Rightarrow> 'n \<Rightarrow> rtype \<Rightarrow> int \<Rightarrow> bool" where
  "same_question ev ip q t sec = (case ev of (now, p, ip', q', t') \<Rightarrow>
     p = ''UDP'' \<and> ip' = ip \<and> q' = q \<and> t' = t \<and> now sdiv 1000 = sec)"

lemma check_query_phase:
  assumes "check_query L now ''UDP'' ip q t rl = (a, rl')" and "now sdiv 1000 = sec" and "0 \<le> sec" and "sec < 2 ^ 32"
    and "\<not> is_loopback ip" and "t \<noteq> RT_ANY"
    and "dm_get (rl_rrl_buckets rl) (rrl_key L (to_subnet ip) q t) \<noteq> None \<or> length (rl_rrl_buckets rl) < MAX_TRACKED_RRL_ENTRIES"
  defines "k \<equiv> phase sec (dm_get (rl_rrl_buckets rl) (rrl_key L (to_subnet ip) q t))"
    and "k' \<equiv> phase sec (dm_get (rl_rrl_buckets rl') (rrl_key L (to_subnet ip) q t))"
  shows "(dm_get (rl_rrl_buckets rl') (rrl_key L (to_subnet ip) q t) \<noteq> None \<or> length (rl_rrl_buckets rl') < MAX_TRACKED_RRL_ENTRIES) \<and>
    (a = Drop \<and> k \<le> k' \<or> k' = k + 1 \<and> a = (if k = 0 then Allow else Truncate) \<and> k \<le> 1)"
proof (cases rule: check_query_cases [of ip "''UDP''" t L now q rl])
  case free
  with assms(5,6) show ?thesis by simp
next
  case empty
  with assms(1,7) show ?thesis by (auto simp: k_def k'_def)
next
  case (token b' rl1)
  from token(5) assms(1,2) have rc: "rrl_check sec (rrl_key L (to_subnet ip) q t) rl1 = (a, rl')" by simp
  have same: "rl_rrl_buckets rl1 = rl_rrl_buckets rl" by (simp add: token(4))
  from rrl_check_phase [OF rc assms(3,4)] assms(7) show ?thesis unfolding k_def k'_def same by blast
qed

lemma check_run_phase:
  assumes "\<forall>ev \<in> set evs. same_question ev ip q t sec" and "0 \<le> sec" and "sec < 2 ^ 32"
    and "\<not> is_loopback ip" and "t \<noteq> RT_ANY"
    and "dm_get (rl_rrl_buckets rl) (rrl_key L (to_subnet ip) q t) \<noteq> None \<or> length (rl_rrl_buckets rl) < MAX_TRACKED_RRL_ENTRIES"
  shows "count_list (fst (check_run L evs rl)) Allow \<le> (if phase sec (dm_get (rl_rrl_buckets rl) (rrl_key L (to_subnet ip) q t)) = 0 then 1 else 0) \<and>
    count_list (fst (check_run L evs rl)) Truncate \<le> (if phase sec (dm_get (rl_rrl_buckets rl) (rrl_key L (to_subnet ip) q t)) \<le> 1 then 1 else 0)"
  using assms
proof (induction L evs rl rule: check_run.induct)
  case (2 L now p ip' q' t' evs rl)
  let ?k = "\<lambda>rl. phase sec (dm_get (rl_rrl_buckets rl) (rrl_key L (to_subnet ip) q t))"
  have ev: "p = ''UDP''" "ip' = ip" "q' = q" "t' = t" "now sdiv 1000 = sec" using 2(2) by (auto simp: same_question_def)
  obtain a rl1 where st: "check_query L now p ip' q' t' rl = (a, rl1)" by (metis surj_pair)
  obtain as rl2 where run: "check_run L evs rl1 = (as, rl2)" by (metis surj_pair)
  from check_query_phase [OF st [unfolded ev(1-4)] ev(5) 2(3-7)]
  have tr: "dm_get (rl_rrl_buckets rl1) (rrl_key L (to_subnet ip) q t) \<noteq> None \<or> length (rl_rrl_buckets rl1) < MAX_TRACKED_RRL_ENTRIES"
    and step: "a = Drop \<and> ?k rl \<le> ?k rl1 \<or> ?k rl1 = ?k rl + 1 \<and> a = (if ?k rl = 0 then Allow else Truncate) \<and> ?k rl \<le> 1" by auto
  have "count_list as Allow \<le> (if ?k rl1 = 0 then 1 else 0) \<and> count_list as Truncate \<le> (if ?k rl1 \<le> 1 then 1 else 0)"
    using 2(1) [OF st [symmetric] refl _ 2(3-6) tr] 2(2) by (simp add: run)
  then show ?case using step phase_nonneg [of sec "dm_get (rl_rrl_buckets rl) (rrl_key L (to_subnet ip) q t)"]
    by (auto simp: st run split: if_splits)
qed simp



end
