(* ===== verification/Hit_Tracker.thy ===== *)
theory Hit_Tracker
  imports Cache
begin

text \<open>
  \<open>src/hit_tracker.rs\<close> and \<open>src/metrics.rs\<close>: which cache keys are popular, when a key is
  due for a prefetch, and the counters of the program.

  The concurrent map is an association list and the atomics are plain fields of the width of
  the source; an operation is one step. Counting saturates (\<open>fetch_update\<close> with a test), the
  counters of \<open>metrics\<close> wrap (\<open>fetch_add\<close>).

  Lemmas: the table is bounded by its configured size under every operation; after a failed
  prefetch a key is not tried again before the back-off time, which doubles from one minute up to
  an hour.
\<close>

section \<open>The tracker\<close>

record hit_info =
  hi_count :: u32
  hi_last_seen :: u64
  hi_last_prefetch_attempt :: u64
  hi_consecutive_failures :: u32

record hit_tracker =
  ht_entries :: "(string \<times> hit_info) list"
  ht_max_entries :: nat

definition ht_new :: "nat \<Rightarrow> hit_tracker" where
  "ht_new max_entries = \<lparr>ht_entries = [], ht_max_entries = max_entries\<rparr>"

text \<open>\<open>fetch_update\<close> that stops at the maximum.\<close>

definition saturating_inc :: "u32 \<Rightarrow> u32" where
  "saturating_inc v = (if v = - 1 then v else v + 1)"

definition ht_record :: "u64 \<Rightarrow> string \<Rightarrow> hit_tracker \<Rightarrow> hit_tracker" where
  "ht_record now key ht =
     (case dm_get (ht_entries ht) key of
        Some hit \<Rightarrow>
          ht\<lparr>ht_entries := dm_insert key (hit\<lparr>hi_count := saturating_inc (hi_count hit), hi_last_seen := now\<rparr>) (ht_entries ht)\<rparr>
      | None \<Rightarrow>
          if length (ht_entries ht) \<ge> ht_max_entries ht then ht
          else ht\<lparr>ht_entries := dm_insert key \<lparr>hi_count = 1, hi_last_seen = now, hi_last_prefetch_attempt = 0,
                 hi_consecutive_failures = 0\<rparr> (ht_entries ht)\<rparr>)"

text \<open>The operations that change an entry only if it is there.\<close>

definition ht_modify :: "(hit_info \<Rightarrow> hit_info) \<Rightarrow> string \<Rightarrow> hit_tracker \<Rightarrow> hit_tracker" where
  "ht_modify f key ht =
     (case dm_get (ht_entries ht) key of
        Some hit \<Rightarrow> ht\<lparr>ht_entries := dm_insert key (f hit) (ht_entries ht)\<rparr>
      | None \<Rightarrow> ht)"

definition reset_count :: "string \<Rightarrow> hit_tracker \<Rightarrow> hit_tracker" where
  "reset_count key = ht_modify (\<lambda>hit. hit\<lparr>hi_count := 0\<rparr>) key"

definition record_prefetch_success :: "u64 \<Rightarrow> string \<Rightarrow> hit_tracker \<Rightarrow> hit_tracker" where
  "record_prefetch_success now key =
     ht_modify (\<lambda>hit. hit\<lparr>hi_last_prefetch_attempt := now, hi_consecutive_failures := 0, hi_count := 0\<rparr>) key"

definition record_prefetch_failure :: "u64 \<Rightarrow> string \<Rightarrow> hit_tracker \<Rightarrow> hit_tracker" where
  "record_prefetch_failure now key =
     ht_modify (\<lambda>hit. hit\<lparr>hi_last_prefetch_attempt := now,
       hi_consecutive_failures := saturating_inc (hi_consecutive_failures hit)\<rparr>) key"

definition backoff_secs :: "string \<Rightarrow> hit_tracker \<Rightarrow> u64" where
  "backoff_secs key ht =
     (let failures = (case dm_get (ht_entries ht) key of Some h \<Rightarrow> hi_consecutive_failures h | None \<Rightarrow> 0);
          shift = min failures 6 in
      min (push_bit (unat shift) 60) 3600)"

definition should_prefetch :: "string \<Rightarrow> u64 \<Rightarrow> u32 \<Rightarrow> hit_tracker \<Rightarrow> bool" where
  "should_prefetch key now min_hits ht =
     (case dm_get (ht_entries ht) key of
        None \<Rightarrow> False
      | Some hit \<Rightarrow>
          if hi_count hit < min_hits then False
          else if hi_last_prefetch_attempt hit > 0 \<and>
                  saturating_sub now (hi_last_prefetch_attempt hit) < backoff_secs key ht
          then False else True)"

definition keys_snapshot :: "hit_tracker \<Rightarrow> string list" where
  "keys_snapshot ht = map fst (ht_entries ht)"

definition prune :: "u64 \<Rightarrow> u64 \<Rightarrow> hit_tracker \<Rightarrow> hit_tracker" where
  "prune now max_idle_secs ht =
     ht\<lparr>ht_entries := dm_retain (\<lambda>_ v. saturating_sub now (hi_last_seen v) < max_idle_secs) (ht_entries ht)\<rparr>"

definition ht_len :: "hit_tracker \<Rightarrow> nat" where
  "ht_len ht = length (ht_entries ht)"

definition hit_tracker_init :: "env \<Rightarrow> hit_tracker" where
  "hit_tracker_init env =
     ht_new (case Option.bind (env ''HIT_TRACKER_MAX_ENTRIES'') (parse_unsigned (2 ^ 64)) of Some v \<Rightarrow> v | None \<Rightarrow> 100000)"

section \<open>Counters\<close>

record metrics =
  mt_cache_hits :: u64
  mt_cache_misses :: u64
  mt_cache_insertions :: u64
  mt_cache_evictions :: u64
  mt_stale_served :: u64
  mt_negative_hits :: u64
  mt_negative_insertions :: u64
  mt_delegation_hits :: u64
  mt_dnssec_hits :: u64
  mt_singleflight_leader :: u64
  mt_singleflight_coalesced :: u64
  mt_prefetch_attempts :: u64
  mt_prefetch_success :: u64
  mt_prefetch_failure :: u64

definition metrics_default :: metrics where
  "metrics_default =
     \<lparr>mt_cache_hits = 0, mt_cache_misses = 0, mt_cache_insertions = 0, mt_cache_evictions = 0, mt_stale_served = 0,
      mt_negative_hits = 0, mt_negative_insertions = 0, mt_delegation_hits = 0, mt_dnssec_hits = 0,
      mt_singleflight_leader = 0, mt_singleflight_coalesced = 0,
      mt_prefetch_attempts = 0, mt_prefetch_success = 0, mt_prefetch_failure = 0\<rparr>"

section \<open>Bounds\<close>

definition ht_ok :: "hit_tracker \<Rightarrow> bool" where
  "ht_ok ht \<longleftrightarrow> dm_ok (ht_entries ht) \<and> length (ht_entries ht) \<le> ht_max_entries ht"

lemma ht_modify_ok: "ht_ok ht \<Longrightarrow> ht_ok (ht_modify f key ht)"
  by (auto simp: ht_ok_def ht_modify_def dm.ok_insert dm.len_insert split: option.splits)

lemma ht_modify_max [simp]: "ht_max_entries (ht_modify f key ht) = ht_max_entries ht"
  by (simp add: ht_modify_def split: option.splits)

lemma ht_record_ok: "ht_ok ht \<Longrightarrow> ht_ok (ht_record now key ht) \<and> ht_max_entries (ht_record now key ht) = ht_max_entries ht"
  by (auto simp: ht_ok_def ht_record_def dm.ok_insert dm.len_insert split: option.splits)

lemma prune_ok: "ht_ok ht \<Longrightarrow> ht_ok (prune now idle ht)"
  by (auto simp: ht_ok_def prune_def dm.ok_retain intro: order_trans [OF dm.len_retain])

lemma prune_max: "ht_max_entries (prune now idle ht) = ht_max_entries ht"
  by (simp add: prune_def)

datatype ht_op = Op_Record u64 string | Op_Reset string | Op_Success u64 string | Op_Failure u64 string | Op_Prune u64 u64

fun ht_apply :: "ht_op \<Rightarrow> hit_tracker \<Rightarrow> hit_tracker" where
  "ht_apply (Op_Record now key) = ht_record now key"
| "ht_apply (Op_Reset key) = reset_count key"
| "ht_apply (Op_Success now key) = record_prefetch_success now key"
| "ht_apply (Op_Failure now key) = record_prefetch_failure now key"
| "ht_apply (Op_Prune now idle) = prune now idle"

lemma ht_apply_ok: "ht_ok ht \<Longrightarrow> ht_ok (ht_apply op ht) \<and> ht_max_entries (ht_apply op ht) = ht_max_entries ht"
  by (cases op) (auto simp: reset_count_def record_prefetch_success_def record_prefetch_failure_def
      ht_modify_ok ht_record_ok prune_ok prune_max)

lemma hit_tracker_bounded: "ht_len (fold ht_apply ops (ht_new n)) \<le> n"
proof -
  have "ht_ok (fold ht_apply ops ht) \<and> ht_max_entries (fold ht_apply ops ht) = ht_max_entries ht" if "ht_ok ht" for ht
    using that by (induction ops arbitrary: ht) (auto simp: ht_apply_ok)
  from this [of "ht_new n"] show ?thesis by (simp add: ht_ok_def ht_new_def ht_len_def)
qed

section \<open>Back-off\<close>

lemma unat_saturating_inc:
  assumes "unat v < 2 ^ 32 - 1"
  shows "unat (saturating_inc v) = Suc (unat v)"
proof -
  have v: "v \<noteq> - 1"
  proof
    assume "v = - 1"
    then have "unat v = 2 ^ 32 - 1" by (simp add: unsigned_minus_1_eq_mask mask_eq_exp_minus_1)
    with assms show False by simp
  qed
  have "unat (v + 1) = Suc (unat v)" using assms by (simp add: unat_word_ariths)
  with v show ?thesis by (simp add: saturating_inc_def)
qed

lemma failure_get:
  "dm_get (ht_entries ht) key = Some hit \<Longrightarrow> dm_get (ht_entries (record_prefetch_failure t key ht)) key =
     Some (hit\<lparr>hi_last_prefetch_attempt := t, hi_consecutive_failures := saturating_inc (hi_consecutive_failures hit)\<rparr>)"
  by (simp add: record_prefetch_failure_def ht_modify_def dm.get_insert)

lemma failures_after:
  assumes "dm_get (ht_entries ht) key = Some hit" and "hi_consecutive_failures hit = 0" and "n > 0" and "n < 2 ^ 32"
  shows "\<exists>hit'. dm_get (ht_entries ((record_prefetch_failure t key ^^ n) ht)) key = Some hit' \<and>
    hi_last_prefetch_attempt hit' = t \<and> unat (hi_consecutive_failures hit') = n \<and> hi_count hit' = hi_count hit"
  using assms(3,4)
proof (induction n rule: nat_induct_non_zero)
  case 1
  with assms(1,2) show ?case by (simp add: failure_get unat_saturating_inc)
next
  case (Suc n)
  then obtain hit' where h: "dm_get (ht_entries ((record_prefetch_failure t key ^^ n) ht)) key = Some hit'"
    "unat (hi_consecutive_failures hit') = n" "hi_count hit' = hi_count hit" by auto
  with Suc.prems show ?case by (simp add: failure_get [OF h(1)] unat_saturating_inc)
qed

lemma unat_backoff: "unat (min (push_bit (unat (min f 6)) 60 :: u64) 3600) = min (60 * 2 ^ min (unat (f :: u32)) 6) 3600"
proof -
  have u: "unat (min f 6) = min (unat f) 6" by (simp add: min_def word_le_nat_alt)
  have "min (unat f) 6 \<in> {0, 1, 2, 3, 4, 5, 6}" by auto
  then show ?thesis unfolding u by (auto simp: min_def word_le_nat_alt push_bit_eq_mult)
qed

text \<open>
  Exponential back-off: after \<open>n\<close> consecutive failed prefetches, the last of them at time
  \<open>t\<close>, a key with enough hits is due again exactly from \<open>60 * 2^n\<close> seconds after
  \<open>t\<close> on, at most an hour; before that it is never tried, so an unreachable server is not hammered.
\<close>

lemma prefetch_backoff:
  assumes "dm_get (ht_entries ht) key = Some hit" and "hi_consecutive_failures hit = 0" and "0 < n" and "n < 2 ^ 32"
    and "0 < t" and "t \<le> now" and "min_hits \<le> hi_count hit"
  shows "should_prefetch key now min_hits ((record_prefetch_failure t key ^^ n) ht) \<longleftrightarrow>
    unat (now - t) \<ge> min (60 * 2 ^ min n 6) 3600"
proof -
  let ?ht = "(record_prefetch_failure t key ^^ n) ht"
  from failures_after [OF assms(1-4), of t] obtain hit' where
    h: "dm_get (ht_entries ?ht) key = Some hit'" "hi_last_prefetch_attempt hit' = t" "unat (hi_consecutive_failures hit') = n"
    and c: "hi_count hit' = hi_count hit" by auto
  have "unat (backoff_secs key ?ht) = min (60 * 2 ^ min n 6) 3600"
    using h by (simp add: backoff_secs_def Let_def unat_backoff)
  moreover have "saturating_sub now t = now - t" using assms(6) by (simp add: saturating_sub_def)
  ultimately show ?thesis using h c assms(5,7)
    by (auto simp: should_prefetch_def not_less word_less_nat_alt word_le_nat_alt min_le_iff_disj)
qed

end
