(* ===== verification/Geo_Health.thy ===== *)
theory Geo_Health
  imports Cache Crypto
begin

text \<open>
  \<open>src/geo/health.rs\<close> and \<open>src/geo/peer.rs\<close>: the health of the nodes of the geo-routing
  layer, by local probes and by signed heartbeats of the peers.

  The atomics of a node are fields of the width of the source. The prober handles a node by one
  task at a time and waits for all of them, so a probe result is one step on the node's record;
  the outcome of a probe (the round-trip time or nothing) is a parameter. HMAC-SHA256 is the
  parameter record \<open>hmac\<close>.

  Lemmas: the exact thresholds of the state machine, with its hysteresis; what a heartbeat
  signature proves.
\<close>

section \<open>Nodes\<close>

record 'f geo_node =
  gn_name :: string
  gn_ipv4 :: "u32 option"
  gn_ipv6 :: "u128 option"
  gn_lat :: "'f option"
  gn_lon :: "'f option"
  gn_enabled :: bool
  gn_location :: "string option"
  gn_doh_url :: "string option"

datatype health_state = HS_Unknown | Healthy | Degraded | Unhealthy

fun health_u8 :: "health_state \<Rightarrow> u8" where
  "health_u8 HS_Unknown = 0"
| "health_u8 Healthy = 1"
| "health_u8 Degraded = 2"
| "health_u8 Unhealthy = 3"

definition health_from_u8 :: "u8 \<Rightarrow> health_state" where
  "health_from_u8 v = (if v = 1 then Healthy else if v = 2 then Degraded else if v = 3 then Unhealthy else HS_Unknown)"

record node_health =
  nh_state :: u8
  nh_consecutive_success :: u32
  nh_consecutive_failure :: u32
  nh_last_rtt_us :: u64
  nh_last_check_at :: u64
  nh_total_success :: u64
  nh_total_failure :: u64
  nh_peer_last_heartbeat_at :: u64
  nh_registered_at :: u64
  nh_peer_reported_healthy :: u8

definition node_health_default :: "u64 \<Rightarrow> node_health" where
  "node_health_default now =
     \<lparr>nh_state = health_u8 HS_Unknown, nh_consecutive_success = 0, nh_consecutive_failure = 0, nh_last_rtt_us = 0,
      nh_last_check_at = 0, nh_total_success = 0, nh_total_failure = 0, nh_peer_last_heartbeat_at = 0,
      nh_registered_at = now, nh_peer_reported_healthy = 1\<rparr>"

definition nh_current :: "node_health \<Rightarrow> health_state" where
  "nh_current h = health_from_u8 (nh_state h)"

section \<open>Probe results\<close>

definition after_success :: "health_state \<Rightarrow> u32 \<Rightarrow> health_state" where
  "after_success current succ =
     (if (current = HS_Unknown \<or> current = Degraded) \<and> succ \<ge> 2 then Healthy
      else if current = Unhealthy \<and> succ \<ge> 3 then Degraded
      else current)"

definition record_success :: "u64 \<Rightarrow> u64 \<Rightarrow> node_health \<Rightarrow> node_health" where
  "record_success now rtt_us h =
     (let succ = nh_consecutive_success h + 1 in
      h\<lparr>nh_consecutive_failure := 0, nh_consecutive_success := succ, nh_total_success := nh_total_success h + 1,
        nh_last_rtt_us := rtt_us, nh_last_check_at := now, nh_state := health_u8 (after_success (nh_current h) succ)\<rparr>)"

definition after_failure :: "health_state \<Rightarrow> u32 \<Rightarrow> health_state" where
  "after_failure current fails =
     (if (current = HS_Unknown \<or> current = Healthy) \<and> fails \<ge> 3 then Degraded
      else if current = Degraded \<and> fails \<ge> 5 then Unhealthy
      else if current = HS_Unknown \<and> fails \<ge> 5 then Unhealthy
      else current)"

definition record_failure :: "u64 \<Rightarrow> node_health \<Rightarrow> node_health" where
  "record_failure now h =
     (let fails = nh_consecutive_failure h + 1 in
      h\<lparr>nh_consecutive_success := 0, nh_consecutive_failure := fails, nh_total_failure := nh_total_failure h + 1,
        nh_last_check_at := now, nh_state := health_u8 (after_failure (nh_current h) fails)\<rparr>)"

definition nh_apply_peer_heartbeat :: "u64 \<Rightarrow> bool \<Rightarrow> node_health \<Rightarrow> node_health" where
  "nh_apply_peer_heartbeat now reported_healthy h =
     h\<lparr>nh_peer_last_heartbeat_at := now, nh_peer_reported_healthy := (if reported_healthy then 1 else 0)\<rparr>"

definition excluded_by_peer_mesh :: "u64 \<Rightarrow> u64 \<Rightarrow> node_health \<Rightarrow> bool" where
  "excluded_by_peer_mesh now heartbeat_interval_secs h =
     (let grace = saturating_mul heartbeat_interval_secs 5; last = nh_peer_last_heartbeat_at h in
      if last = 0 then saturating_sub now (nh_registered_at h) > grace
      else if saturating_sub now last > grace then True
      else nh_peer_reported_healthy h = 0)"

section \<open>The registry and the probe loop\<close>

type_synonym health_registry = "(string \<times> node_health) list"

definition registry_new :: "u64 \<Rightarrow> 'f geo_node list \<Rightarrow> health_registry" where
  "registry_new now nodes = map (\<lambda>n. (gn_name n, node_health_default now)) nodes"

definition registry_get :: "health_registry \<Rightarrow> string \<Rightarrow> node_health option" where
  "registry_get reg name = map_of reg name"

text \<open>A change through the shared pointer that \<open>get\<close> returns.\<close>

fun registry_update :: "string \<Rightarrow> (node_health \<Rightarrow> node_health) \<Rightarrow> health_registry \<Rightarrow> health_registry" where
  "registry_update name f [] = []"
| "registry_update name f ((n, h) # reg) = (if n = name then (n, f h) # reg else (n, h) # registry_update name f reg)"

text \<open>The address a probe goes to; \<open>None\<close> fails the probe.\<close>

definition probe_target :: "'f geo_node \<Rightarrow> ip_addr option" where
  "probe_target n = (case gn_ipv4 n of Some v4 \<Rightarrow> Some (V4 v4) | None \<Rightarrow> map_option V6 (gn_ipv6 n))"

definition HEALTH_QUERY :: bytes where
  "HEALTH_QUERY = [0x12, 0x34, 0x01, 0x00, 0x00, 0x01, 0x00, 0x00, 0x00, 0x00, 0x00, 0x00, 0x07, 0x65, 0x78, 0x61,
     0x6d, 0x70, 0x6c, 0x65, 0x03, 0x63, 0x6f, 0x6d, 0x00, 0x00, 0x01, 0x00, 0x01]"

definition check_node :: "(ip_addr \<Rightarrow> bytes \<Rightarrow> u64 option) \<Rightarrow> 'f geo_node \<Rightarrow> u64 option" where
  "check_node probe n = Option.bind (probe_target n) (\<lambda>addr. probe addr HEALTH_QUERY)"

definition probe_step :: "u64 \<Rightarrow> (ip_addr \<Rightarrow> bytes \<Rightarrow> u64 option) \<Rightarrow> 'f geo_node \<Rightarrow> health_registry \<Rightarrow> health_registry" where
  "probe_step now probe n reg =
     (if \<not> gn_enabled n then reg
      else registry_update (gn_name n)
             (case check_node probe n of Some d \<Rightarrow> record_success now d | None \<Rightarrow> record_failure now) reg)"

definition health_round :: "u64 \<Rightarrow> (ip_addr \<Rightarrow> bytes \<Rightarrow> u64 option) \<Rightarrow> 'f geo_node list \<Rightarrow> health_registry \<Rightarrow> health_registry" where
  "health_round now probe nodes reg = fold (probe_step now probe) nodes reg"

section \<open>Heartbeats\<close>

record hmac =
  hm_sign :: "bytes \<Rightarrow> bytes \<Rightarrow> bytes"
  hm_verify :: "bytes \<Rightarrow> bytes \<Rightarrow> bytes \<Rightarrow> bool"

definition hmac_laws :: "hmac \<Rightarrow> bool" where
  "hmac_laws H \<longleftrightarrow> (\<forall>k m t. hm_verify H k m t \<longleftrightarrow> t = hm_sign H k m)"

record heartbeat_payload =
  hb_node :: string
  hb_timestamp :: u64
  hb_healthy :: bool

definition peer_sign :: "hmac \<Rightarrow> bytes \<Rightarrow> bytes \<Rightarrow> string" where
  "peer_sign H secret payload = hex_encode (hm_sign H secret payload)"

definition peer_verify :: "hmac \<Rightarrow> bytes \<Rightarrow> bytes \<Rightarrow> string \<Rightarrow> bool" where
  "peer_verify H secret payload sig_hex =
     (case hex_decode sig_hex of None \<Rightarrow> False | Some sig_bytes \<Rightarrow> hm_verify H secret payload sig_bytes)"

definition compute_self_health :: "health_registry \<Rightarrow> string \<Rightarrow> bool" where
  "compute_self_health health self_name = True"

text \<open>One tick of the sender: what is posted where; \<open>None\<close> when the mesh is disabled or the payload does not serialize.\<close>

definition heartbeat_posts ::
  "hmac \<Rightarrow> (heartbeat_payload \<Rightarrow> bytes option) \<Rightarrow> u64 \<Rightarrow> string \<Rightarrow> bytes \<Rightarrow> (string \<times> string) list \<Rightarrow> health_registry \<Rightarrow>
   (string \<times> string \<times> bytes) list option" where
  "heartbeat_posts H to_json now self_name secret targets health =
     (if secret = [] \<or> targets = [] then None
      else case to_json \<lparr>hb_node = self_name, hb_timestamp = now, hb_healthy = compute_self_health health self_name\<rparr> of
             None \<Rightarrow> None
           | Some body \<Rightarrow>
               (let signature = peer_sign H secret body in
                Some (map (\<lambda>(name, base_url). (trim_end_matches (CHR ''/'') base_url @ ''/internal/peer-heartbeat'', signature, body)) targets)))"

text \<open>The sender: nothing without a secret, targets or an HTTP client; else one round per tick, at the times and with the health given.\<close>

definition run_heartbeat_loop ::
  "hmac \<Rightarrow> (heartbeat_payload \<Rightarrow> bytes option) \<Rightarrow> bool \<Rightarrow> string \<Rightarrow> bytes \<Rightarrow> (string \<times> string) list \<Rightarrow> (u64 \<times> health_registry) list \<Rightarrow>
   (string \<times> string \<times> bytes) list option list" where
  "run_heartbeat_loop H to_json client_built self_name secret targets ticks =
     (if secret = [] \<or> targets = [] then []
      else if \<not> client_built then []
      else map (\<lambda>(now, health). heartbeat_posts H to_json now self_name secret targets health) ticks)"

section \<open>The state machine of a node\<close>

lemma health_u8_inverse [simp]: "health_from_u8 (health_u8 s) = s"
  by (cases s) (simp_all add: health_from_u8_def)

text \<open>The thresholds in terms of the number of results in a row.\<close>

definition failing :: "nat \<Rightarrow> health_state" where
  "failing n = (if n < 3 then Healthy else if n < 5 then Degraded else Unhealthy)"

definition recovering :: "nat \<Rightarrow> health_state" where
  "recovering n = (if n < 3 then Unhealthy else if n = 3 then Degraded else Healthy)"

lemma counter_inc: "unat (c :: u32) = n \<Longrightarrow> Suc n < 2 ^ 32 \<Longrightarrow> unat (c + 1) = Suc n"
  by (simp add: unat_word_ariths)

lemma record_failure_step:
  assumes "nh_current h = failing n" and "unat (nh_consecutive_failure h) = n" and "Suc n < 2 ^ 32"
  shows "nh_current (record_failure t h) = failing (Suc n) \<and> unat (nh_consecutive_failure (record_failure t h)) = Suc n"
proof -
  have "after_failure (failing n) (nh_consecutive_failure h + 1) = failing (Suc n)"
    using counter_inc [OF assms(2,3)] by (auto simp: after_failure_def failing_def word_le_nat_alt)
  then show ?thesis using counter_inc [OF assms(2,3)] assms(1)
    by (simp add: record_failure_def Let_def nh_current_def [symmetric]) (simp add: nh_current_def)
qed

lemma record_success_step:
  assumes "nh_current h = recovering n" and "unat (nh_consecutive_success h) = n" and "Suc n < 2 ^ 32"
  shows "nh_current (record_success t rtt h) = recovering (Suc n) \<and> unat (nh_consecutive_success (record_success t rtt h)) = Suc n"
proof -
  have "after_success (recovering n) (nh_consecutive_success h + 1) = recovering (Suc n)"
    using counter_inc [OF assms(2,3)] by (auto simp: after_success_def recovering_def word_le_nat_alt)
  then show ?thesis using counter_inc [OF assms(2,3)] assms(1)
    by (simp add: record_success_def Let_def nh_current_def [symmetric]) (simp add: nh_current_def)
qed

lemma failing_run:
  assumes "nh_current h = Healthy" and "nh_consecutive_failure h = 0" and "length ts < 2 ^ 32"
  shows "nh_current (fold record_failure ts h) = failing (length ts) \<and> unat (nh_consecutive_failure (fold record_failure ts h)) = length ts"
  using assms(3)
proof (induction ts rule: rev_induct)
  case Nil
  with assms(1,2) show ?case by (simp add: failing_def)
next
  case (snoc t ts)
  then show ?case using record_failure_step [of "fold record_failure ts h" "length ts" t] by simp
qed

lemma recovering_run:
  assumes "nh_current h = Unhealthy" and "nh_consecutive_success h = 0" and "length rs < 2 ^ 32"
  shows "nh_current (fold (\<lambda>(t, rtt). record_success t rtt) rs h) = recovering (length rs) \<and>
    unat (nh_consecutive_success (fold (\<lambda>(t, rtt). record_success t rtt) rs h)) = length rs"
  using assms(3)
proof (induction rs rule: rev_induct)
  case Nil
  with assms(1,2) show ?case by (simp add: recovering_def)
next
  case (snoc r rs)
  obtain t rtt where "r = (t, rtt)" by (cases r)
  with snoc show ?case
    using record_success_step [of "fold (\<lambda>(t, rtt). record_success t rtt) rs h" "length rs" t rtt] by simp
qed

text \<open>
  Health has hysteresis with exact thresholds. A healthy node without a recent failure stays
  healthy for two failed probes in a row, is degraded from the third and unhealthy from the fifth on;
  an unhealthy node without a recent success stays so for two successful probes, is degraded at
  the third and healthy from the fourth on. A single lost or lucky probe never changes the
  state of either.
\<close>

lemma health_thresholds:
  assumes "length ts < 2 ^ 32" and "length rs < 2 ^ 32"
    and "nh_current up = Healthy" and "nh_consecutive_failure up = 0"
    and "nh_current down = Unhealthy" and "nh_consecutive_success down = 0"
  shows "nh_current (fold record_failure ts up) =
      (if length ts < 3 then Healthy else if length ts < 5 then Degraded else Unhealthy) \<and>
    nh_current (fold (\<lambda>(t, rtt). record_success t rtt) rs down) =
      (if length rs < 3 then Unhealthy else if length rs = 3 then Degraded else Healthy)"
  using failing_run [OF assms(3,4,1)] recovering_run [OF assms(5,6,2)] by (simp add: failing_def recovering_def)

section \<open>What the mesh excludes\<close>

lemma unat_saturating_mul: "unat (saturating_mul a (b :: u64)) = min (unat a * unat b) (2 ^ 64 - 1)"
proof (cases "unat a * unat b < 2 ^ 64")
  case True
  then show ?thesis by (simp add: saturating_mul_def unat_word_ariths)
next
  case False
  then show ?thesis by (simp add: saturating_mul_def unsigned_minus_1_eq_mask mask_eq_exp_minus_1)
qed

text \<open>A node that was heard from within five intervals is excluded exactly when it said it is unhealthy.\<close>

lemma excluded_after_heartbeat:
  assumes "t \<noteq> 0" and "t \<le> now" and "unat (now - t) \<le> 5 * unat interval"
  shows "excluded_by_peer_mesh now interval (nh_apply_peer_heartbeat t healthy h) \<longleftrightarrow> \<not> healthy"
proof -
  have "saturating_sub now t = now - t" using assms(2) by (simp add: saturating_sub_def)
  moreover have "unat (now - t) \<le> unat (saturating_mul interval 5)"
    using assms(3) unsigned_less [of "now - t", where 'a = nat] by (simp add: unat_saturating_mul)
  then have "\<not> now - t > saturating_mul interval 5" by (simp add: word_less_nat_alt)
  ultimately show ?thesis using assms(1) by (simp add: excluded_by_peer_mesh_def nh_apply_peer_heartbeat_def Let_def)
qed

lemma peer_sign_verify: "hmac_laws H \<Longrightarrow> peer_verify H secret payload sig \<longleftrightarrow> hex_decode sig = Some (hm_sign H secret payload)"
  by (auto simp: peer_verify_def hmac_laws_def split: option.splits)

text \<open>
  Every round reaches every peer once, with one body, and a peer that shares the secret accepts its signature.
\<close>

lemma heartbeat_rounds:
  assumes "hmac_laws H" and "Some posts \<in> set (run_heartbeat_loop H to_json client_built self_name secret targets ticks)"
  shows "length posts = length targets \<and> (\<exists>body. \<forall>(url, sig, b) \<in> set posts. b = body \<and> peer_verify H secret b sig)"
proof -
  obtain now health where "heartbeat_posts H to_json now self_name secret targets health = Some posts"
    using assms(2) by (auto simp: run_heartbeat_loop_def split: if_splits)
  then obtain body where "posts = map (\<lambda>(name, base_url). (trim_end_matches (CHR ''/'') base_url @ ''/internal/peer-heartbeat'', peer_sign H secret body, body)) targets"
    by (auto simp: heartbeat_posts_def Let_def split: if_splits option.splits)
  then show ?thesis by (auto simp: peer_sign_verify [OF assms(1)] peer_sign_def hex_decode_encode intro!: exI [of _ body])
qed

end
