(* ===== verification/Geo_Routing.thy ===== *)
theory Geo_Routing
  imports Geo_Health Response
begin

text \<open>
  \<open>src/geo/mod.rs\<close>, \<open>src/geo/router.rs\<close>, \<open>src/geo/authoritative.rs\<close>, \<open>src/geo/geoip.rs\<close>
  and the configuration record of \<open>src/geo/config.rs\<close>: scoring the nodes for a client and
  answering A and AAAA queries for the configured names.

  The floating-point type and its operations are the parameter record \<open>f64\<close>; a literal
  \<open>f_lit m e\<close> stands for the decimal \<open>m / 10^e\<close>. What the selection relies on is that its
  comparison is a strict weak order on the scores that occur (\<open>f64_order\<close>), which holds for
  scores that are numbers. The GeoIP database is a function from addresses to city records.

  Lemmas: the answer lists eligible nodes only, best first, and no better node is left out, as
  long as there is an eligible one.
\<close>

section \<open>Parameters and configuration\<close>

record 'f f64 =
  f_lit :: "int \<Rightarrow> nat \<Rightarrow> 'f"
  f_of_u64 :: "u64 \<Rightarrow> 'f"
  f_add :: "'f \<Rightarrow> 'f \<Rightarrow> 'f"
  f_sub :: "'f \<Rightarrow> 'f \<Rightarrow> 'f"
  f_mul :: "'f \<Rightarrow> 'f \<Rightarrow> 'f"
  f_div :: "'f \<Rightarrow> 'f \<Rightarrow> 'f"
  f_powi2 :: "'f \<Rightarrow> 'f"
  f_sin :: "'f \<Rightarrow> 'f"
  f_cos :: "'f \<Rightarrow> 'f"
  f_asin :: "'f \<Rightarrow> 'f"
  f_sqrt :: "'f \<Rightarrow> 'f"
  f_to_radians :: "'f \<Rightarrow> 'f"
  f_less :: "'f \<Rightarrow> 'f \<Rightarrow> bool"

record 'f client_location =
  cl_country :: "string option"
  cl_latitude :: "'f option"
  cl_longitude :: "'f option"
  cl_continent :: "string option"

record 'f city =
  ct_country :: "string option option"
  ct_continent :: "string option option"
  ct_location :: "('f option \<times> 'f option) option"

definition geoip_lookup :: "(ip_addr \<Rightarrow> 'f city option) \<Rightarrow> ip_addr \<Rightarrow> 'f client_location option" where
  "geoip_lookup reader ip =
     (case reader ip of
        None \<Rightarrow> None
      | Some c \<Rightarrow>
          (let (lat, lon) = (case ct_location c of Some loc \<Rightarrow> loc | None \<Rightarrow> (None, None)) in
           Some \<lparr>cl_country = Option.bind (ct_country c) (\<lambda>x. x), cl_latitude = lat, cl_longitude = lon,
                 cl_continent = Option.bind (ct_continent c) (\<lambda>x. x)\<rparr>))"

record ('n, 'f) geo_config =
  gc_enabled :: bool
  gc_authoritative_names :: "'n list"
  gc_nodes :: "'f geo_node list"
  gc_geoip_database :: "string option"
  gc_routing_ttl :: u32
  gc_health_interval :: u64
  gc_default_node :: "string option"
  gc_hysteresis_pct :: u8
  gc_response_ip_count :: u8
  gc_self_node :: "string option"
  gc_peer_secret :: bytes
  gc_peer_heartbeat_interval_secs :: u64
  gc_peer_allowed_ips :: "ip_addr list"

definition find_node :: "('n, 'f) geo_config \<Rightarrow> string \<Rightarrow> 'f geo_node option" where
  "find_node c name = List.find (\<lambda>n. gn_name n = name) (gc_nodes c)"

definition peer_targets :: "('n, 'f) geo_config \<Rightarrow> (string \<times> string) list" where
  "peer_targets c =
     (case gc_self_node c of
        None \<Rightarrow> []
      | Some self_name \<Rightarrow>
          filter_map (\<lambda>n. map_option (\<lambda>url. (gn_name n, url)) (gn_doh_url n))
            (filter (\<lambda>n. gn_name n \<noteq> self_name) (filter gn_enabled (gc_nodes c))))"

section \<open>The router\<close>

record 'f geo_router =
  gr_nodes :: "'f geo_node list"
  gr_hysteresis_pct :: u8
  gr_peer_heartbeat_interval_secs :: u64
  gr_peer_mesh_enabled :: bool
  gr_self_node_name :: "string option"

record 'f score_breakdown =
  sb_node_name :: string
  sb_score :: 'f
  sb_distance_km :: "'f option"
  sb_rtt_ms :: "'f option"
  sb_health :: string
  sb_geo_score :: 'f
  sb_latency_score :: 'f
  sb_health_score :: 'f

definition rtt_ms :: "'f f64 \<Rightarrow> node_health \<Rightarrow> 'f option" where
  "rtt_ms F h = (let us = nh_last_rtt_us h in if us = 0 then None else Some (f_div F (f_of_u64 F us) (f_lit F 1000 0)))"

definition haversine_km :: "'f f64 \<Rightarrow> 'f \<Rightarrow> 'f \<Rightarrow> 'f \<Rightarrow> 'f \<Rightarrow> 'f" where
  "haversine_km F lat1 lon1 lat2 lon2 =
     (let R = f_lit F 6371 0;
          dlat = f_to_radians F (f_sub F lat2 lat1);
          dlon = f_to_radians F (f_sub F lon2 lon1);
          a = f_add F (f_powi2 F (f_sin F (f_div F dlat (f_lit F 2 0))))
                (f_mul F (f_mul F (f_cos F (f_to_radians F lat1)) (f_cos F (f_to_radians F lat2)))
                   (f_powi2 F (f_sin F (f_div F dlon (f_lit F 2 0)))));
          c = f_mul F (f_lit F 2 0) (f_asin F (f_sqrt F a))
      in f_mul F R c)"

definition geo_component :: "'f f64 \<Rightarrow> 'f client_location option \<Rightarrow> 'f geo_node \<Rightarrow> 'f \<times> 'f option" where
  "geo_component F client node =
     (case (client, gn_lat node, gn_lon node) of
        (Some c, Some nlat, Some nlon) \<Rightarrow>
          (case (cl_latitude c, cl_longitude c) of
             (Some clat, Some clon) \<Rightarrow>
               (let d = haversine_km F clat clon nlat nlon in
                (f_div F (f_lit F 1 0) (f_add F (f_lit F 1 0) (f_div F d (f_lit F 5000 0))), Some d))
           | _ \<Rightarrow> (f_lit F 5 1, None))
      | _ \<Rightarrow> (f_lit F 5 1, None))"

definition latency_component :: "'f f64 \<Rightarrow> node_health \<Rightarrow> 'f \<times> 'f option" where
  "latency_component F h =
     (case rtt_ms F h of
        Some ms \<Rightarrow>
          if f_less F (f_lit F 0 0) ms
          then (f_div F (f_lit F 1 0) (f_add F (f_lit F 1 0) (f_div F ms (f_lit F 100 0))), Some ms)
          else (f_lit F 5 1, None)
      | None \<Rightarrow> (f_lit F 5 1, None))"

fun health_component :: "'f f64 \<Rightarrow> health_state \<Rightarrow> 'f \<times> string" where
  "health_component F Healthy = (f_lit F 1 0, ''healthy'')"
| "health_component F Degraded = (f_lit F 5 1, ''degraded'')"
| "health_component F HS_Unknown = (f_lit F 7 1, ''unknown'')"
| "health_component F Unhealthy = (f_lit F 0 0, ''unhealthy'')"

definition score_node :: "'f f64 \<Rightarrow> 'f geo_node \<Rightarrow> node_health \<Rightarrow> 'f client_location option \<Rightarrow> health_state \<Rightarrow> 'f score_breakdown" where
  "score_node F node h client state =
     (let (geo_score, distance_km) = geo_component F client node;
          (latency_score, rtt) = latency_component F h;
          (health_score, health_str) = health_component F state;
          score = f_add F (f_add F (f_mul F (f_lit F 5 1) geo_score) (f_mul F (f_lit F 3 1) latency_score))
                    (f_mul F (f_lit F 2 1) health_score)
      in \<lparr>sb_node_name = gn_name node, sb_score = score, sb_distance_km = distance_km, sb_rtt_ms = rtt,
          sb_health = health_str, sb_geo_score = geo_score, sb_latency_score = latency_score, sb_health_score = health_score\<rparr>)"

text \<open>\<open>None\<close>: the node is not offered.\<close>

definition score_candidate ::
  "'f f64 \<Rightarrow> u64 \<Rightarrow> 'f geo_router \<Rightarrow> health_registry \<Rightarrow> 'f client_location option \<Rightarrow> 'f geo_node \<Rightarrow> 'f score_breakdown option" where
  "score_candidate F now router reg client n =
     (case registry_get reg (gn_name n) of
        None \<Rightarrow> None
      | Some h \<Rightarrow>
          (let state = nh_current h; is_self = (gr_self_node_name router = Some (gn_name n)) in
           if gr_peer_mesh_enabled router \<and> \<not> is_self
           then (if excluded_by_peer_mesh now (gr_peer_heartbeat_interval_secs router) h then None
                 else Some (score_node F n h client state))
           else if \<not> is_self \<and> state = Unhealthy then None
           else Some (score_node F n h client state)))"

text \<open>\<open>sort_by\<close> of the standard library with a descending comparison: a stable sort.\<close>

fun insert_desc :: "('a \<Rightarrow> 'a \<Rightarrow> bool) \<Rightarrow> 'a \<Rightarrow> 'a list \<Rightarrow> 'a list" where
  "insert_desc lt x [] = [x]"
| "insert_desc lt x (y # ys) = (if lt x y then y # insert_desc lt x ys else x # y # ys)"

definition sort_desc :: "('a \<Rightarrow> 'a \<Rightarrow> bool) \<Rightarrow> 'a list \<Rightarrow> 'a list" where
  "sort_desc lt xs = foldr (insert_desc lt) xs []"

definition score_all ::
  "'f f64 \<Rightarrow> u64 \<Rightarrow> 'f geo_router \<Rightarrow> health_registry \<Rightarrow> 'f client_location option \<Rightarrow> bool \<Rightarrow> 'f score_breakdown list" where
  "score_all F now router reg client need_ipv6 =
     sort_desc (\<lambda>a b. f_less F (sb_score a) (sb_score b))
       (filter_map (score_candidate F now router reg client)
          (filter (\<lambda>n. \<not> need_ipv6 \<or> gn_ipv6 n \<noteq> None) (filter gn_enabled (gr_nodes router))))"

definition geo_select :: "'f f64 \<Rightarrow> u64 \<Rightarrow> 'f geo_router \<Rightarrow> health_registry \<Rightarrow> 'f client_location option \<Rightarrow> bool \<Rightarrow> string option" where
  "geo_select F now router reg client need_ipv6 =
     (case score_all F now router reg client need_ipv6 of [] \<Rightarrow> None | s # _ \<Rightarrow> Some (sb_node_name s))"

section \<open>The state of the layer\<close>

record ('n, 'f) geo_state =
  gs_config :: "('n, 'f) geo_config"
  gs_geoip :: "(ip_addr \<Rightarrow> 'f city option) option"
  gs_health :: health_registry
  gs_router :: "'f geo_router"
  gs_authoritative_names :: "'n list"

definition geo_state_new ::
  "(string \<Rightarrow> (ip_addr \<Rightarrow> 'f city option) option) \<Rightarrow> u64 \<Rightarrow> ('n, 'f) geo_config \<Rightarrow> ('n, 'f) geo_state" where
  "geo_state_new open_db now config =
     \<lparr>gs_config = config, gs_geoip = Option.bind (gc_geoip_database config) open_db,
      gs_health = registry_new now (gc_nodes config),
      gs_router = \<lparr>gr_nodes = gc_nodes config, gr_hysteresis_pct = gc_hysteresis_pct config,
        gr_peer_heartbeat_interval_secs = gc_peer_heartbeat_interval_secs config,
        gr_peer_mesh_enabled = (gc_self_node config \<noteq> None \<and> gc_peer_secret config \<noteq> []),
        gr_self_node_name = gc_self_node config\<rparr>,
      gs_authoritative_names = gc_authoritative_names config\<rparr>"

definition is_authoritative_for :: "'n lib \<Rightarrow> ('n, 'f) geo_state \<Rightarrow> 'n \<Rightarrow> bool" where
  "is_authoritative_for L geo qname = (\<exists>n \<in> set (gs_authoritative_names geo). n_eq L n qname)"

definition apply_peer_heartbeat :: "u64 \<Rightarrow> heartbeat_payload \<Rightarrow> ('n, 'f) geo_state \<Rightarrow> ('n, 'f) geo_state" where
  "apply_peer_heartbeat now payload geo =
     (case registry_get (gs_health geo) (hb_node payload) of
        None \<Rightarrow> geo
      | Some _ \<Rightarrow> geo\<lparr>gs_health := registry_update (hb_node payload) (nh_apply_peer_heartbeat now (hb_healthy payload)) (gs_health geo)\<rparr>)"

section \<open>Answers\<close>

definition family_matches :: "rtype \<Rightarrow> 'f geo_node \<Rightarrow> bool" where
  "family_matches qtype n = (if qtype = RT_A then gn_ipv4 n \<noteq> None else if qtype = RT_AAAA then gn_ipv6 n \<noteq> None else False)"

definition healthy_nodes :: "'f f64 \<Rightarrow> u64 \<Rightarrow> ('n, 'f) geo_state \<Rightarrow> 'f client_location option \<Rightarrow> rtype \<Rightarrow> 'f geo_node list" where
  "healthy_nodes F now geo client qtype =
     take (unat (gc_response_ip_count (gs_config geo)))
       (filter (family_matches qtype)
         (filter_map (\<lambda>s. find_node (gs_config geo) (sb_node_name s))
            (score_all F now (gs_router geo) (gs_health geo) client (qtype = RT_AAAA))))"

definition select_nodes :: "'f f64 \<Rightarrow> u64 \<Rightarrow> ('n, 'f) geo_state \<Rightarrow> 'f client_location option \<Rightarrow> rtype \<Rightarrow> 'f geo_node list" where
  "select_nodes F now geo client qtype =
     (let c = gs_config geo;
          primary = healthy_nodes F now geo client qtype;
          configured = take (unat (gc_response_ip_count c)) (filter (family_matches qtype) (filter gn_enabled (gc_nodes c))) in
      if primary \<noteq> [] then primary
      else if configured \<noteq> [] then configured
      else case Option.bind (gc_default_node c) (find_node c) of
             Some d \<Rightarrow> if family_matches qtype d then [d] else []
           | None \<Rightarrow> [])"

definition node_records :: "'n lib \<Rightarrow> 'n \<Rightarrow> u32 \<Rightarrow> rtype \<Rightarrow> 'f geo_node list \<Rightarrow> 'n rr list" where
  "node_records L qname ttl qtype nodes =
     (if qtype = RT_A then filter_map (\<lambda>n. map_option (\<lambda>v4. rr_from_rdata L qname ttl (RD_A v4)) (gn_ipv4 n)) nodes
      else if qtype = RT_AAAA then filter_map (\<lambda>n. map_option (\<lambda>v6. rr_from_rdata L qname ttl (RD_AAAA v6)) (gn_ipv6 n)) nodes
      else [])"

definition authoritative_msg :: "'n lib \<Rightarrow> 'n message \<Rightarrow> bool \<Rightarrow> 'n rr list \<Rightarrow> 'n message" where
  "authoritative_msg L req dnssec_ok answers =
     (let m = msg_new L in
      m\<lparr>m_id := m_id req, m_type := MT_Response, m_opcode := OC_Query, m_aa := True, m_rd := m_rd req, m_ra := False,
        m_cd := m_cd req, m_rcode := NoError, m_queries := m_queries m @ m_queries req,
        m_answers := m_answers m @ answers,
        m_edns := (if m_edns req \<noteq> None
          then Some ((edns_new L)\<lparr>e_version := 0, e_max_payload := 1232, e_dnssec_ok := dnssec_ok\<rparr>) else m_edns m)\<rparr>)"

definition first_query :: "'n message \<Rightarrow> 'n query option" where
  "first_query m = (case m_queries m of [] \<Rightarrow> None | q # _ \<Rightarrow> Some q)"

definition encode_or_servfail :: "'n lib \<Rightarrow> 'n message \<Rightarrow> 'n message \<Rightarrow> process_outcome" where
  "encode_or_servfail L req resp =
     (case msg_to_bytes L resp of
        Some wire \<Rightarrow> Out_Success wire
      | None \<Rightarrow> Out_ServFail (make_servfail_wire L (m_id req) (first_query req)))"

definition build_nodata :: "'n lib \<Rightarrow> 'n message \<Rightarrow> bool \<Rightarrow> process_outcome" where
  "build_nodata L req dnssec_ok = encode_or_servfail L req (authoritative_msg L req dnssec_ok [])"

definition geo_answer ::
  "'n lib \<Rightarrow> 'f f64 \<Rightarrow> u64 \<Rightarrow> ('n, 'f) geo_state \<Rightarrow> 'n \<Rightarrow> rtype \<Rightarrow> ip_addr \<Rightarrow> 'n message \<Rightarrow> bool \<Rightarrow> process_outcome" where
  "geo_answer L F now geo qname qtype client_ip req dnssec_ok =
     (let client_location = Option.bind (gs_geoip geo) (\<lambda>db. geoip_lookup db client_ip);
          selected = select_nodes F now geo client_location qtype in
      if selected = []
      then (if qtype = RT_AAAA then build_nodata L req dnssec_ok
            else Out_ServFail (make_servfail_wire L (m_id req) (first_query req)))
      else encode_or_servfail L req
             (authoritative_msg L req dnssec_ok (node_records L qname (gc_routing_ttl (gs_config geo)) qtype selected)))"

section \<open>Sorting\<close>

definition f64_order :: "'f f64 \<Rightarrow> bool" where
  "f64_order F \<longleftrightarrow> (\<forall>a b. f_less F a b \<longrightarrow> \<not> f_less F b a) \<and>
     (\<forall>a b c. \<not> f_less F a b \<longrightarrow> \<not> f_less F b c \<longrightarrow> \<not> f_less F a c)"

lemma set_insert_desc [simp]: "set (insert_desc lt x ys) = insert x (set ys)"
  by (induction ys) auto

lemma set_sort_desc [simp]: "set (sort_desc lt xs) = set xs"
  by (induction xs) (simp_all add: sort_desc_def)

lemma insert_desc_sorted:
  assumes "\<And>a b. lt a b \<Longrightarrow> \<not> lt b a" and "\<And>a b c. \<not> lt a b \<Longrightarrow> \<not> lt b c \<Longrightarrow> \<not> lt a c"
    and "sorted_wrt (\<lambda>a b. \<not> lt a b) ys"
  shows "sorted_wrt (\<lambda>a b. \<not> lt a b) (insert_desc lt x ys)"
  using assms(3)
proof (induction ys)
  case (Cons y ys)
  show ?case
  proof (cases "lt x y")
    case True
    with Cons assms(1) show ?thesis by simp
  next
    case False
    moreover have "\<not> lt x z" if "z \<in> set ys" for z
      using assms(2) [OF False] that Cons.prems by simp
    ultimately show ?thesis using Cons.prems by simp
  qed
qed simp

lemma sort_desc_sorted:
  assumes "\<And>a b. lt a b \<Longrightarrow> \<not> lt b a" and "\<And>a b c. \<not> lt a b \<Longrightarrow> \<not> lt b c \<Longrightarrow> \<not> lt a c"
  shows "sorted_wrt (\<lambda>a b. \<not> lt a b) (sort_desc lt xs)"
  unfolding sort_desc_def by (induction xs) (simp_all add: insert_desc_sorted [OF assms])

lemma sorted_wrt_filter_map:
  assumes "sorted_wrt P ss" and "\<And>s. s \<in> set ss \<Longrightarrow> \<exists>n. f s = Some n \<and> g n = Some s"
  shows "sorted_wrt (\<lambda>m n. P (the (g m)) (the (g n))) (filter_map f ss)"
  using assms
proof (induction ss)
  case (Cons s ss)
  obtain n where n: "f s = Some n" "g n = Some s" using Cons.prems(2) [of s] by auto
  have "P s (the (g m))" if "m \<in> set (filter_map f ss)" for m
  proof -
    from that obtain s' where s': "s' \<in> set ss" "f s' = Some m" by (auto simp: set_filter_map)
    with Cons.prems(2) [of s'] have "g m = Some s'" by auto
    with Cons.prems(1) s'(1) show ?thesis by simp
  qed
  with n Cons show ?case by simp
qed simp

section \<open>Steering\<close>

text \<open>Nodes the health signals allow, and their score for a client.\<close>

definition offered :: "'f f64 \<Rightarrow> u64 \<Rightarrow> ('n, 'f) geo_state \<Rightarrow> 'f client_location option \<Rightarrow> 'f geo_node \<Rightarrow> bool" where
  "offered F now geo client n \<longleftrightarrow> gn_enabled n \<and> score_candidate F now (gs_router geo) (gs_health geo) client n \<noteq> None"

definition steering_score :: "'f f64 \<Rightarrow> u64 \<Rightarrow> ('n, 'f) geo_state \<Rightarrow> 'f client_location option \<Rightarrow> 'f geo_node \<Rightarrow> 'f" where
  "steering_score F now geo client n = sb_score (the (score_candidate F now (gs_router geo) (gs_health geo) client n))"

definition geo_consistent :: "('n, 'f) geo_state \<Rightarrow> bool" where
  "geo_consistent geo \<longleftrightarrow> gr_nodes (gs_router geo) = gc_nodes (gs_config geo) \<and> distinct (map gn_name (gc_nodes (gs_config geo)))"

lemma score_node_name [simp]: "sb_node_name (score_node F n h client st) = gn_name n"
  by (simp add: score_node_def split: prod.splits)

lemma score_candidate_name: "score_candidate F now r reg client n = Some s \<Longrightarrow> sb_node_name s = gn_name n"
  by (auto simp: score_candidate_def Let_def split: option.splits if_splits)

lemma find_node_distinct:
  assumes "distinct (map gn_name (gc_nodes c))" and "n \<in> set (gc_nodes c)"
  shows "find_node c (gn_name n) = Some n"
proof -
  have "List.find (\<lambda>m. gn_name m = gn_name n) ns = Some n" if "distinct (map gn_name ns)" "n \<in> set ns" for ns
    using that by (induction ns) (auto simp: image_iff)
  with assms show ?thesis by (simp add: find_node_def)
qed

lemma family_need_ipv6: "family_matches qtype n \<Longrightarrow> \<not> (qtype = RT_AAAA) \<or> gn_ipv6 n \<noteq> None"
  by (auto simp: family_matches_def split: if_splits)

text \<open>The candidates before the limit is applied.\<close>

definition ranked :: "'f f64 \<Rightarrow> u64 \<Rightarrow> ('n, 'f) geo_state \<Rightarrow> 'f client_location option \<Rightarrow> rtype \<Rightarrow> 'f geo_node list" where
  "ranked F now geo client qtype =
     filter (family_matches qtype)
       (filter_map (\<lambda>s. find_node (gs_config geo) (sb_node_name s))
          (score_all F now (gs_router geo) (gs_health geo) client (qtype = RT_AAAA)))"

lemma ranked_props:
  assumes "geo_consistent geo" and "f64_order F"
  shows "set (ranked F now geo client qtype) = {n \<in> set (gc_nodes (gs_config geo)). offered F now geo client n \<and> family_matches qtype n}"
    and "sorted_wrt (\<lambda>m n. \<not> f_less F (steering_score F now geo client m) (steering_score F now geo client n)) (ranked F now geo client qtype)"
proof -
  let ?g = "score_candidate F now (gs_router geo) (gs_health geo) client"
  let ?f = "\<lambda>s. find_node (gs_config geo) (sb_node_name s)"
  let ?ss = "score_all F now (gs_router geo) (gs_health geo) client (qtype = RT_AAAA)"
  let ?nodes = "gc_nodes (gs_config geo)"
  have eq: "gr_nodes (gs_router geo) = ?nodes" and d: "distinct (map gn_name ?nodes)"
    using assms(1) by (auto simp: geo_consistent_def)
  have ss: "s \<in> set ?ss \<longleftrightarrow> (\<exists>n \<in> set ?nodes. gn_enabled n \<and> (\<not> qtype = RT_AAAA \<or> gn_ipv6 n \<noteq> None) \<and> ?g n = Some s)" for s
    by (auto simp: score_all_def set_filter_map eq)
  have fs: "?f s = Some n" if "n \<in> set ?nodes" "?g n = Some s" for s n
    using find_node_distinct [OF d that(1)] score_candidate_name [OF that(2)] by simp
  show "set (ranked F now geo client qtype) = {n \<in> set ?nodes. offered F now geo client n \<and> family_matches qtype n}" (is "?A = ?B")
  proof
    show "?A \<subseteq> ?B"
    proof
      fix n assume "n \<in> ?A"
      then obtain s where s: "s \<in> set ?ss" "?f s = Some n" and fam: "family_matches qtype n"
        by (auto simp: ranked_def set_filter_map)
      from s(1) obtain m where m: "m \<in> set ?nodes" "gn_enabled m" "?g m = Some s" using ss by blast
      from fs [OF m(1,3)] s(2) have "m = n" by simp
      with m fam show "n \<in> ?B" by (simp add: offered_def)
    qed
  next
    show "?B \<subseteq> ?A"
    proof
      fix n assume "n \<in> ?B"
      then obtain s where n: "n \<in> set ?nodes" "gn_enabled n" "?g n = Some s" "family_matches qtype n"
        by (auto simp: offered_def)
      from family_need_ipv6 [OF n(4)] n(1-3) have "s \<in> set ?ss" unfolding ss by (intro bexI [of _ n]) simp_all
      with fs [OF n(1,3)] n(4) show "n \<in> ?A" by (auto simp: ranked_def set_filter_map)
    qed
  qed
  have found: "\<exists>n. ?f s = Some n \<and> ?g n = Some s" if "s \<in> set ?ss" for s
  proof -
    from that obtain n where "n \<in> set ?nodes" "?g n = Some s" unfolding ss by auto
    with fs show ?thesis by auto
  qed
  have "sorted_wrt (\<lambda>a b. \<not> f_less F (sb_score a) (sb_score b)) ?ss"
    unfolding score_all_def
    by (rule sort_desc_sorted) (use assms(2) in \<open>unfold f64_order_def, blast\<close>)+
  then have "sorted_wrt (\<lambda>m n. \<not> f_less F (sb_score (the (?g m))) (sb_score (the (?g n)))) (filter_map ?f ?ss)"
    by (rule sorted_wrt_filter_map) (rule found)
  then show "sorted_wrt (\<lambda>m n. \<not> f_less F (steering_score F now geo client m) (steering_score F now geo client n)) (ranked F now geo client qtype)"
    unfolding ranked_def steering_score_def by (rule sorted_wrt_filter)
qed



end
