(* ===== verification/Singleflight.thy ===== *)
theory Singleflight
  imports Prelude
begin

text \<open>
  \<open>src/singleflight.rs\<close>: coalescing of concurrent identical cache misses.

  The callers of \<open>run\<close> interleave. A caller enters (the lookup in \<open>flights\<close>), then awaits
  \<open>cell.get_or_init(f)\<close>, in which it may become the one that evaluates \<open>f\<close>, and returns the
  value and whether it is the leader; its future may be dropped at any await, which drops its
  guard. Each of these is an event of a labelled transition system. The cells are shared
  pointers, so the state keeps a heap of them. \<open>OnceCell\<close> is a third-party type: its operations
  are the parameter \<open>once_cell\<close>, and \<open>once_cell_laws\<close> is its documented behaviour (one
  initialiser at a time, the value is set once, a dropped initialiser lets another one start).

  Lemmas: the table of flights holds exactly the flights of live leaders, so guards never remove
  the flight of another leader; everyone on a cell returns the same value; without dropped
  callers at most one caller evaluates for a key at a time, with them two can; the callers that
  are there always finish, in a bounded number of events, and leave no flight behind.
\<close>

section \<open>State and operations\<close>

record ('c, 'v) once_cell =
  oc_new :: 'c
  oc_get :: "'c \<Rightarrow> 'v option"
  oc_acquire :: "'c \<Rightarrow> 'c option"
  oc_set :: "'c \<Rightarrow> 'v \<Rightarrow> 'c"
  oc_release :: "'c \<Rightarrow> 'c"

definition once_cell_laws :: "('c, 'v) once_cell \<Rightarrow> bool" where
  "once_cell_laws C \<longleftrightarrow>
     oc_get C (oc_new C) = None \<and> oc_acquire C (oc_new C) \<noteq> None \<and>
     (\<forall>c c'. oc_acquire C c = Some c' \<longrightarrow> oc_get C c = None \<and> oc_get C c' = None \<and> oc_acquire C c' = None) \<and>
     (\<forall>c v. oc_get C c = None \<and> oc_acquire C c = None \<longrightarrow> oc_get C (oc_set C c v) = Some v) \<and>
     (\<forall>c. oc_get C c = None \<and> oc_acquire C c = None \<longrightarrow> oc_get C (oc_release C c) = None \<and> oc_acquire C (oc_release C c) \<noteq> None)"

datatype 'v phase = Waiting | Running | Returned 'v | Cancelled

record 'v caller =
  ca_key :: string
  ca_cell :: nat
  ca_leader :: bool
  ca_phase :: "'v phase"

record ('c, 'v) single_flight =
  sf_flights :: "(string \<times> nat) list"
  sf_cells :: "'c list"
  sf_callers :: "'v caller list"

definition sf_new :: "('c, 'v) single_flight" where
  "sf_new = \<lparr>sf_flights = [], sf_cells = [], sf_callers = []\<rparr>"

definition in_flight_count :: "('c, 'v) single_flight \<Rightarrow> nat" where
  "in_flight_count s = length (sf_flights s)"

text \<open>The match on \<open>flights.entry(key)\<close>.\<close>

definition sf_enter :: "('c, 'v) once_cell \<Rightarrow> string \<Rightarrow> ('c, 'v) single_flight \<Rightarrow> ('c, 'v) single_flight" where
  "sf_enter C key s =
     (case dm_get (sf_flights s) key of
        Some c \<Rightarrow> s\<lparr>sf_callers := sf_callers s @ [\<lparr>ca_key = key, ca_cell = c, ca_leader = False, ca_phase = Waiting\<rparr>]\<rparr>
      | None \<Rightarrow>
          (let c = length (sf_cells s) in
           s\<lparr>sf_flights := dm_insert key c (sf_flights s), sf_cells := sf_cells s @ [oc_new C],
             sf_callers := sf_callers s @ [\<lparr>ca_key = key, ca_cell = c, ca_leader = True, ca_phase = Waiting\<rparr>]\<rparr>))"

definition set_phase :: "nat \<Rightarrow> 'v phase \<Rightarrow> ('c, 'v) single_flight \<Rightarrow> ('c, 'v) single_flight" where
  "set_phase i p s = s\<lparr>sf_callers := (sf_callers s)[i := (sf_callers s ! i)\<lparr>ca_phase := p\<rparr>]\<rparr>"

text \<open>\<open>Drop for FlightGuard\<close>; only a leader holds a guard.\<close>

definition guard_drop :: "'v caller \<Rightarrow> ('c, 'v) single_flight \<Rightarrow> ('c, 'v) single_flight" where
  "guard_drop ca s = (if ca_leader ca then s\<lparr>sf_flights := dm_remove (ca_key ca) (sf_flights s)\<rparr> else s)"

text \<open>A caller leaves \<open>run\<close>, with a value or because its future is dropped.\<close>

definition leave :: "nat \<Rightarrow> 'v phase \<Rightarrow> ('c, 'v) single_flight \<Rightarrow> ('c, 'v) single_flight" where
  "leave i p s = guard_drop (sf_callers s ! i) (set_phase i p s)"

datatype 'v event = Enter string | Begin nat | Finish nat 'v | Observe nat | Cancel nat

fun sf_apply :: "('c, 'v) once_cell \<Rightarrow> 'v event \<Rightarrow> ('c, 'v) single_flight \<Rightarrow> ('c, 'v) single_flight option" where
  "sf_apply C (Enter key) s = Some (sf_enter C key s)"
| "sf_apply C (Begin i) s =
     (if i < length (sf_callers s) \<and> ca_phase (sf_callers s ! i) = Waiting
      then (let c = ca_cell (sf_callers s ! i) in
            case oc_acquire C (sf_cells s ! c) of
              Some cell \<Rightarrow> Some (set_phase i Running (s\<lparr>sf_cells := (sf_cells s)[c := cell]\<rparr>))
            | None \<Rightarrow> None)
      else None)"
| "sf_apply C (Finish i v) s =
     (if i < length (sf_callers s) \<and> ca_phase (sf_callers s ! i) = Running
      then (let c = ca_cell (sf_callers s ! i) in
            Some (leave i (Returned v) (s\<lparr>sf_cells := (sf_cells s)[c := oc_set C (sf_cells s ! c) v]\<rparr>)))
      else None)"
| "sf_apply C (Observe i) s =
     (if i < length (sf_callers s) \<and> ca_phase (sf_callers s ! i) = Waiting
      then (case oc_get C (sf_cells s ! ca_cell (sf_callers s ! i)) of
              Some v \<Rightarrow> Some (leave i (Returned v) s)
            | None \<Rightarrow> None)
      else None)"
| "sf_apply C (Cancel i) s =
     (if i < length (sf_callers s)
      then (case ca_phase (sf_callers s ! i) of
              Waiting \<Rightarrow> Some (leave i Cancelled s)
            | Running \<Rightarrow>
                (let c = ca_cell (sf_callers s ! i) in
                 Some (leave i Cancelled (s\<lparr>sf_cells := (sf_cells s)[c := oc_release C (sf_cells s ! c)]\<rparr>)))
            | _ \<Rightarrow> None)
      else None)"

inductive sf_step :: "('c, 'v) once_cell \<Rightarrow> ('v event \<Rightarrow> bool) \<Rightarrow> ('c, 'v) single_flight \<Rightarrow> ('c, 'v) single_flight \<Rightarrow> bool"
  for C :: "('c, 'v) once_cell" and P :: "'v event \<Rightarrow> bool" where
  sf_event: "P ev \<Longrightarrow> sf_apply C ev s = Some s' \<Longrightarrow> sf_step C P s s'"

inductive_cases sf_stepE: "sf_step C P s s'"

fun is_cancel :: "'v event \<Rightarrow> bool" where
  "is_cancel (Cancel i) = True"
| "is_cancel _ = False"

fun is_enter :: "'v event \<Rightarrow> bool" where
  "is_enter (Enter k) = True"
| "is_enter _ = False"

section \<open>Flights and leaders\<close>

abbreviation at :: "('c, 'v) single_flight \<Rightarrow> nat \<Rightarrow> 'v caller \<Rightarrow> bool" where
  "at s i ca \<equiv> i < length (sf_callers s) \<and> sf_callers s ! i = ca"

definition live :: "'v caller \<Rightarrow> bool" where
  "live ca \<longleftrightarrow> ca_phase ca = Waiting \<or> ca_phase ca = Running"

text \<open>The table holds the flights of the live leaders.\<close>

definition table_ok :: "('c, 'v) single_flight \<Rightarrow> bool" where
  "table_ok s \<longleftrightarrow> dm_ok (sf_flights s) \<and>
     (\<forall>k c. dm_get (sf_flights s) k = Some c \<longleftrightarrow>
        (\<exists>i < length (sf_callers s). live (sf_callers s ! i) \<and> ca_leader (sf_callers s ! i) \<and>
           ca_key (sf_callers s ! i) = k \<and> ca_cell (sf_callers s ! i) = c))"

text \<open>What a caller keeps for good: its key, its cell and whether it leads.\<close>

definition roles :: "('c, 'v) single_flight \<Rightarrow> (string \<times> nat \<times> bool) list" where
  "roles s = map (\<lambda>ca. (ca_key ca, ca_cell ca, ca_leader ca)) (sf_callers s)"

definition roles_ok :: "nat \<Rightarrow> (string \<times> nat \<times> bool) list \<Rightarrow> bool" where
  "roles_ok n rs \<longleftrightarrow> (\<forall>(k, c, l) \<in> set rs. c < n) \<and>
     (\<forall>i < length rs. \<forall>j < length rs. \<forall>k k' c. rs ! i = (k, c, True) \<and> rs ! j = (k', c, True) \<longrightarrow> i = j) \<and>
     (\<forall>k k' c l l'. (k, c, l) \<in> set rs \<and> (k', c, l') \<in> set rs \<longrightarrow> k = k')"

definition flights_ok :: "('c, 'v) single_flight \<Rightarrow> bool" where
  "flights_ok s \<longleftrightarrow> table_ok s \<and> roles_ok (length (sf_cells s)) (roles s)"

lemma table_okD:
  assumes "table_ok s"
  shows "dm_get (sf_flights s) k = Some c \<longleftrightarrow>
        (\<exists>i < length (sf_callers s). live (sf_callers s ! i) \<and> ca_leader (sf_callers s ! i) \<and>
           ca_key (sf_callers s ! i) = k \<and> ca_cell (sf_callers s ! i) = c)"
  using assms unfolding table_ok_def by blast

lemma roles_nth: "i < length (sf_callers s) \<Longrightarrow>
    roles s ! i = (ca_key (sf_callers s ! i), ca_cell (sf_callers s ! i), ca_leader (sf_callers s ! i))"
  by (simp add: roles_def)

lemma roles_mem: "i < length (sf_callers s) \<Longrightarrow>
    (ca_key (sf_callers s ! i), ca_cell (sf_callers s ! i), ca_leader (sf_callers s ! i)) \<in> set (roles s)"
  by (simp add: roles_def)

lemma cell_bound: "roles_ok n (roles s) \<Longrightarrow> i < length (sf_callers s) \<Longrightarrow> ca_cell (sf_callers s ! i) < n"
  using roles_mem [of i s] unfolding roles_ok_def by fast

lemma one_leader:
  assumes "roles_ok n (roles s)" and "i < length (sf_callers s)" and "j < length (sf_callers s)"
    and "ca_leader (sf_callers s ! i)" and "ca_leader (sf_callers s ! j)" and "ca_cell (sf_callers s ! i) = ca_cell (sf_callers s ! j)"
  shows "i = j"
proof -
  have "\<forall>i < length (roles s). \<forall>j < length (roles s). \<forall>k k' c. roles s ! i = (k, c, True) \<and> roles s ! j = (k', c, True) \<longrightarrow> i = j"
    using assms(1) unfolding roles_ok_def by (elim conjE)
  note u = this [THEN spec, THEN mp, THEN spec, THEN mp, THEN spec, THEN spec, THEN spec, THEN mp, OF _ _ conjI]
  show ?thesis
    by (rule u) (use assms(2-6) roles_nth [of i s] roles_nth [of j s] in \<open>simp_all add: roles_def\<close>)
qed

lemma cell_key:
  assumes "roles_ok n (roles s)" and "i < length (sf_callers s)" and "j < length (sf_callers s)"
    and "ca_cell (sf_callers s ! i) = ca_cell (sf_callers s ! j)"
  shows "ca_key (sf_callers s ! i) = ca_key (sf_callers s ! j)"
proof -
  have "\<forall>k k' c l l'. (k, c, l) \<in> set (roles s) \<and> (k', c, l') \<in> set (roles s) \<longrightarrow> k = k'"
    using assms(1) unfolding roles_ok_def by (elim conjE)
  note k = this [THEN spec, THEN spec, THEN spec, THEN spec, THEN spec, THEN mp, OF conjI]
  show ?thesis by (rule k) (use roles_mem [OF assms(2)] roles_mem [OF assms(3)] assms(4) in simp_all)
qed

lemma set_phase_sel [simp]:
  "sf_flights (set_phase i p s) = sf_flights s" "sf_cells (set_phase i p s) = sf_cells s"
  "length (sf_callers (set_phase i p s)) = length (sf_callers s)"
  by (simp_all add: set_phase_def)

lemma set_phase_nth:
  assumes "j < length (sf_callers s)"
  shows "sf_callers (set_phase i p s) ! j = (if i = j then (sf_callers s ! i)\<lparr>ca_phase := p\<rparr> else sf_callers s ! j)"
  using assms by (auto simp: set_phase_def)

lemma guard_drop_sel [simp]:
  "sf_cells (guard_drop ca s) = sf_cells s" "sf_callers (guard_drop ca s) = sf_callers s"
  "sf_flights (guard_drop ca s) = (if ca_leader ca then dm_remove (ca_key ca) (sf_flights s) else sf_flights s)"
  by (simp_all add: guard_drop_def)

lemma leave_sel [simp]:
  "sf_cells (leave i p s) = sf_cells s" "length (sf_callers (leave i p s)) = length (sf_callers s)"
  "sf_flights (leave i p s) = (if ca_leader (sf_callers s ! i) then dm_remove (ca_key (sf_callers s ! i)) (sf_flights s) else sf_flights s)"
  by (simp_all add: leave_def)

lemma leave_nth:
  assumes "j < length (sf_callers s)"
  shows "sf_callers (leave i p s) ! j = (if i = j then (sf_callers s ! i)\<lparr>ca_phase := p\<rparr> else sf_callers s ! j)"
  using set_phase_nth [OF assms] by (simp add: leave_def)

lemma caller_static [simp]:
  "j < length (sf_callers s) \<Longrightarrow> ca_key (sf_callers (leave i p s) ! j) = ca_key (sf_callers s ! j)"
  "j < length (sf_callers s) \<Longrightarrow> ca_cell (sf_callers (leave i p s) ! j) = ca_cell (sf_callers s ! j)"
  "j < length (sf_callers s) \<Longrightarrow> ca_leader (sf_callers (leave i p s) ! j) = ca_leader (sf_callers s ! j)"
  "j < length (sf_callers s) \<Longrightarrow> ca_key (sf_callers (set_phase i p s) ! j) = ca_key (sf_callers s ! j)"
  "j < length (sf_callers s) \<Longrightarrow> ca_cell (sf_callers (set_phase i p s) ! j) = ca_cell (sf_callers s ! j)"
  "j < length (sf_callers s) \<Longrightarrow> ca_leader (sf_callers (set_phase i p s) ! j) = ca_leader (sf_callers s ! j)"
  by (simp_all add: leave_nth set_phase_nth)

lemma roles_static [simp]: "roles (set_phase i p s) = roles s" "roles (leave i p s) = roles s"
proof -
  show "roles (set_phase i p s) = roles s"
    by (cases "i < length (sf_callers s)") (auto simp: roles_def set_phase_def map_update list_update_id intro!: nth_equalityI simp: nth_list_update)
  then show "roles (leave i p s) = roles s" by (simp add: leave_def roles_def)
qed

lemma flights_ok_set_phase:
  assumes "flights_ok s" and "live (sf_callers s ! i)" and "p = Waiting \<or> p = Running"
  shows "flights_ok (set_phase i p s)"
proof -
  have "live (sf_callers (set_phase i p s) ! j) = live (sf_callers s ! j)" if "j < length (sf_callers s)" for j
    using that assms(2,3) by (auto simp: set_phase_nth live_def)
  then have "table_ok (set_phase i p s) = table_ok s"
    unfolding table_ok_def by (simp cong: conj_cong)
  with assms(1) show ?thesis by (simp add: flights_ok_def)
qed

lemma live_leave:
  assumes "j < length (sf_callers s)" and "\<not> live ((sf_callers s ! i)\<lparr>ca_phase := p\<rparr>)"
  shows "live (sf_callers (leave i p s) ! j) \<longleftrightarrow> i \<noteq> j \<and> live (sf_callers s ! j)"
  using assms by (auto simp: leave_nth)

lemma flights_ok_leave:
  assumes ok: "flights_ok s" and i: "i < length (sf_callers s)" and l: "live (sf_callers s ! i)"
    and p: "\<not> live ((sf_callers s ! i)\<lparr>ca_phase := p\<rparr>)"
  shows "flights_ok (leave i p s)"
proof -
  let ?ca = "sf_callers s ! i"
  have tb: "table_ok s" and ro: "roles_ok (length (sf_cells s)) (roles s)" using ok by (simp_all add: flights_ok_def)
  have dm: "dm_ok (sf_flights s)" using tb by (simp add: table_ok_def)
  have uniq: "j = i" if "j < length (sf_callers s)" "live (sf_callers s ! j)" "ca_leader (sf_callers s ! j)"
    "ca_leader ?ca" "ca_key (sf_callers s ! j) = ca_key ?ca" for j
  proof -
    have "dm_get (sf_flights s) (ca_key ?ca) = Some (ca_cell ?ca)" "dm_get (sf_flights s) (ca_key ?ca) = Some (ca_cell (sf_callers s ! j))"
      unfolding table_okD [OF tb] using i l that by blast+
    then show ?thesis using one_leader [OF ro that(1) i that(3,4)] by simp
  qed
  have "dm_get (sf_flights (leave i p s)) k = Some c \<longleftrightarrow>
     (\<exists>j < length (sf_callers s). live (sf_callers (leave i p s) ! j) \<and> ca_leader (sf_callers s ! j) \<and>
        ca_key (sf_callers s ! j) = k \<and> ca_cell (sf_callers s ! j) = c)" (is "?L = ?R") for k c
  proof (cases "ca_leader ?ca \<and> k = ca_key ?ca")
    case True
    then have "\<not> ?L" by (simp add: dm.get_remove [OF dm])
    moreover have "\<not> ?R" using True uniq live_leave [OF _ p] by blast
    ultimately show ?thesis by blast
  next
    case False
    then have "dm_get (sf_flights (leave i p s)) k = dm_get (sf_flights s) k"
      by (auto simp: dm.get_remove [OF dm])
    then have "?L \<longleftrightarrow> (\<exists>j < length (sf_callers s). live (sf_callers s ! j) \<and> ca_leader (sf_callers s ! j) \<and>
        ca_key (sf_callers s ! j) = k \<and> ca_cell (sf_callers s ! j) = c)"
      using table_okD [OF tb] by simp
    also have "\<dots> \<longleftrightarrow> ?R" using False live_leave [OF _ p] by blast
    finally show ?thesis .
  qed
  moreover have "dm_ok (sf_flights (leave i p s))" using dm by (simp add: dm.ok_remove)
  ultimately have "table_ok (leave i p s)" unfolding table_ok_def by (simp cong: conj_cong)
  with ro show ?thesis by (simp add: flights_ok_def)
qed

lemma roles_ok_follower:
  assumes "roles_ok n rs" and "(key, c, l) \<in> set rs"
  shows "roles_ok n (rs @ [(key, c, False)])"
proof -
  have b: "\<forall>(k, c, l) \<in> set rs. c < n"
    and u: "\<And>i j k k' c. i < length rs \<Longrightarrow> j < length rs \<Longrightarrow> rs ! i = (k, c, True) \<Longrightarrow> rs ! j = (k', c, True) \<Longrightarrow> i = j"
    and k: "\<And>k k' c l l'. (k, c, l) \<in> set rs \<Longrightarrow> (k', c, l') \<in> set rs \<Longrightarrow> k = k'"
    using assms(1) unfolding roles_ok_def by blast+
  show ?thesis unfolding roles_ok_def
  proof (intro conjI allI impI)
    show "\<forall>(k, c, l) \<in> set (rs @ [(key, c, False)]). c < n" using b assms(2) by auto
  next
    fix i j k k' c' assume "i < length (rs @ [(key, c, False)])" "j < length (rs @ [(key, c, False)])"
      "(rs @ [(key, c, False)]) ! i = (k, c', True) \<and> (rs @ [(key, c, False)]) ! j = (k', c', True)"
    then show "i = j" using u by (auto simp: nth_append less_Suc_eq split: if_splits)
  next
    fix k k' c' l l'
    assume "(k, c', l) \<in> set (rs @ [(key, c, False)]) \<and> (k', c', l') \<in> set (rs @ [(key, c, False)])"
    then show "k = k'" using k assms(2) by auto
  qed
qed

lemma roles_ok_leader:
  assumes "roles_ok n rs"
  shows "roles_ok (Suc n) (rs @ [(key, n, True)])"
proof -
  have b: "\<And>k c l. (k, c, l) \<in> set rs \<Longrightarrow> c < n"
    and u: "\<And>i j k k' c. i < length rs \<Longrightarrow> j < length rs \<Longrightarrow> rs ! i = (k, c, True) \<Longrightarrow> rs ! j = (k', c, True) \<Longrightarrow> i = j"
    and k: "\<And>k k' c l l'. (k, c, l) \<in> set rs \<Longrightarrow> (k', c, l') \<in> set rs \<Longrightarrow> k = k'"
    using assms unfolding roles_ok_def by blast+
  have n: "rs ! i \<noteq> (k, n, l)" if "i < length rs" for i k l using b that by (metis less_irrefl nth_mem)
  have n': "(k, n, l) \<notin> set rs" for k l using b by blast
  show ?thesis unfolding roles_ok_def
  proof (intro conjI allI impI)
    show "\<forall>(k, c, l) \<in> set (rs @ [(key, n, True)]). c < Suc n" using b by (auto intro: less_SucI)
  next
    fix i j k k' c' assume "i < length (rs @ [(key, n, True)])" "j < length (rs @ [(key, n, True)])"
      "(rs @ [(key, n, True)]) ! i = (k, c', True) \<and> (rs @ [(key, n, True)]) ! j = (k', c', True)"
    then show "i = j" using u n by (auto simp: nth_append less_Suc_eq split: if_splits)
  next
    fix k k' c' l l'
    assume "(k, c', l) \<in> set (rs @ [(key, n, True)]) \<and> (k', c', l') \<in> set (rs @ [(key, n, True)])"
    then show "k = k'" using k n' by auto
  qed
qed

lemma flights_ok_enter:
  assumes ok: "flights_ok s"
  shows "flights_ok (sf_enter C key s)"
proof (cases "dm_get (sf_flights s) key")
  case (Some c)
  have tb: "table_ok s" and ro: "roles_ok (length (sf_cells s)) (roles s)" using ok by (simp_all add: flights_ok_def)
  from Some obtain l where l: "l < length (sf_callers s)" "ca_key (sf_callers s ! l) = key" "ca_cell (sf_callers s ! l) = c"
    unfolding table_okD [OF tb] by blast
  let ?new = "\<lparr>ca_key = key, ca_cell = c, ca_leader = False, ca_phase = Waiting\<rparr>"
  have s': "sf_enter C key s = s\<lparr>sf_callers := sf_callers s @ [?new]\<rparr>" using Some by (simp add: sf_enter_def)
  have "table_ok (sf_enter C key s)"
    using tb unfolding s' table_ok_def by (simp add: nth_append less_Suc_eq cong: conj_cong) auto
  moreover have "roles_ok (length (sf_cells s)) (roles s @ [(key, c, False)])"
    using roles_ok_follower [OF ro roles_mem [OF l(1)]] l(2,3) by simp
  ultimately show ?thesis by (simp add: flights_ok_def s' roles_def)
next
  case None
  have tb: "table_ok s" and ro: "roles_ok (length (sf_cells s)) (roles s)" using ok by (simp_all add: flights_ok_def)
  let ?c = "length (sf_cells s)"
  let ?new = "\<lparr>ca_key = key, ca_cell = ?c, ca_leader = True, ca_phase = Waiting\<rparr>"
  have s': "sf_enter C key s = s\<lparr>sf_flights := dm_insert key ?c (sf_flights s), sf_cells := sf_cells s @ [oc_new C],
      sf_callers := sf_callers s @ [?new]\<rparr>"
    using None by (simp add: sf_enter_def Let_def)
  have no: "\<not> (live (sf_callers s ! i) \<and> ca_leader (sf_callers s ! i) \<and> ca_key (sf_callers s ! i) = key)"
    if "i < length (sf_callers s)" for i
    using table_okD [OF tb, of key] None that by force
  have "dm_get (sf_flights (sf_enter C key s)) k = Some c \<longleftrightarrow>
        (\<exists>i < length (sf_callers (sf_enter C key s)). live (sf_callers (sf_enter C key s) ! i) \<and> ca_leader (sf_callers (sf_enter C key s) ! i) \<and>
           ca_key (sf_callers (sf_enter C key s) ! i) = k \<and> ca_cell (sf_callers (sf_enter C key s) ! i) = c)" for k c
  proof (cases "k = key")
    case True
    then show ?thesis using no unfolding s'
      by (simp add: dm.get_insert nth_append less_Suc_eq live_def cong: conj_cong) auto
  next
    case False
    then show ?thesis using table_okD [OF tb] unfolding s'
      by (simp add: dm.get_insert nth_append less_Suc_eq cong: conj_cong) auto
  qed
  then have "table_ok (sf_enter C key s)"
    using tb unfolding table_ok_def by (simp add: s' dm.ok_insert)
  moreover have "roles_ok (Suc ?c) (roles s @ [(key, ?c, True)])" by (rule roles_ok_leader [OF ro])
  ultimately show ?thesis by (simp add: flights_ok_def s' roles_def)
qed

section \<open>Cells\<close>

abbreviation busy :: "('c, 'v) once_cell \<Rightarrow> 'c \<Rightarrow> bool" where
  "busy C c \<equiv> oc_get C c = None \<and> oc_acquire C c = None"

definition cells_ok :: "('c, 'v) once_cell \<Rightarrow> ('c, 'v) single_flight \<Rightarrow> bool" where
  "cells_ok C s \<longleftrightarrow>
     (\<forall>i < length (sf_callers s). ca_phase (sf_callers s ! i) = Running \<longrightarrow> busy C (sf_cells s ! ca_cell (sf_callers s ! i))) \<and>
     (\<forall>i < length (sf_callers s). \<forall>j < length (sf_callers s). ca_phase (sf_callers s ! i) = Running \<longrightarrow>
        ca_phase (sf_callers s ! j) = Running \<longrightarrow> ca_cell (sf_callers s ! i) = ca_cell (sf_callers s ! j) \<longrightarrow> i = j) \<and>
     (\<forall>c < length (sf_cells s). busy C (sf_cells s ! c) \<longrightarrow>
        (\<exists>i < length (sf_callers s). ca_phase (sf_callers s ! i) = Running \<and> ca_cell (sf_callers s ! i) = c)) \<and>
     (\<forall>i < length (sf_callers s). \<forall>v. ca_phase (sf_callers s ! i) = Returned v \<longrightarrow> oc_get C (sf_cells s ! ca_cell (sf_callers s ! i)) = Some v)"

lemma cells_okD:
  assumes "cells_ok C s" and "i < length (sf_callers s)"
  shows "ca_phase (sf_callers s ! i) = Running \<Longrightarrow> busy C (sf_cells s ! ca_cell (sf_callers s ! i))"
    and "ca_phase (sf_callers s ! i) = Running \<Longrightarrow> j < length (sf_callers s) \<Longrightarrow> ca_phase (sf_callers s ! j) = Running \<Longrightarrow>
      ca_cell (sf_callers s ! i) = ca_cell (sf_callers s ! j) \<Longrightarrow> i = j"
    and "ca_phase (sf_callers s ! i) = Returned v \<Longrightarrow> oc_get C (sf_cells s ! ca_cell (sf_callers s ! i)) = Some v"
  using assms unfolding cells_ok_def by blast+

lemma cells_ok_busyD:
  assumes "cells_ok C s" and "c < length (sf_cells s)" and "busy C (sf_cells s ! c)"
  obtains i where "i < length (sf_callers s)" "ca_phase (sf_callers s ! i) = Running" "ca_cell (sf_callers s ! i) = c"
  using assms unfolding cells_ok_def by blast

text \<open>A caller moves on together with its cell.\<close>

lemma cells_ok_move:
  assumes ok: "cells_ok C s" and ro: "roles_ok (length (sf_cells s)) (roles s)"
    and i: "i < length (sf_callers s)" and c: "c = ca_cell (sf_callers s ! i)"
    and free: "oc_get C (sf_cells s ! c) = None" "\<And>j. j < length (sf_callers s) \<Longrightarrow> ca_phase (sf_callers s ! j) = Running \<Longrightarrow> ca_cell (sf_callers s ! j) = c \<Longrightarrow> j = i"
    and new: "p = Running \<longleftrightarrow> busy C x" "\<And>v. p = Returned v \<Longrightarrow> oc_get C x = Some v"
  shows "cells_ok C (set_phase i p (s\<lparr>sf_cells := (sf_cells s)[c := x]\<rparr>))"
proof -
  define t where "t = set_phase i p (s\<lparr>sf_cells := (sf_cells s)[c := x]\<rparr>)"
  have lc: "c < length (sf_cells s)" using cell_bound [OF ro i] c by simp
  have n: "length (sf_callers t) = length (sf_callers s)" "length (sf_cells t) = length (sf_cells s)" by (simp_all add: t_def)
  have ph: "ca_phase (sf_callers t ! j) = (if j = i then p else ca_phase (sf_callers s ! j))"
    "ca_cell (sf_callers t ! j) = ca_cell (sf_callers s ! j)" if "j < length (sf_callers s)" for j
    using that by (auto simp: t_def set_phase_nth)
  have ce: "sf_cells t ! d = (if d = c then x else sf_cells s ! d)" if "d < length (sf_cells s)" for d
    using that lc by (simp add: t_def)
  have "cells_ok C t" unfolding cells_ok_def n
  proof (intro conjI allI impI)
    fix j assume j: "j < length (sf_callers s)" and r: "ca_phase (sf_callers t ! j) = Running"
    show "oc_get C (sf_cells t ! ca_cell (sf_callers t ! j)) = None" "oc_acquire C (sf_cells t ! ca_cell (sf_callers t ! j)) = None"
      using r free(2) [OF j] new(1) cells_okD(1) [OF ok j] c by (auto simp: ph [OF j] ce [OF cell_bound [OF ro j]] split: if_splits)
  next
    fix j k assume j: "j < length (sf_callers s)" and k: "k < length (sf_callers s)"
      and r: "ca_phase (sf_callers t ! j) = Running" "ca_phase (sf_callers t ! k) = Running"
        "ca_cell (sf_callers t ! j) = ca_cell (sf_callers t ! k)"
    then show "j = k" using free(2) [OF j] free(2) [OF k] cells_okD(2) [OF ok j _ k] c
      by (auto simp: ph [OF j] ph [OF k] split: if_splits)
  next
    fix d assume d: "d < length (sf_cells s)" and b: "busy C (sf_cells t ! d)"
    show "\<exists>j < length (sf_callers s). ca_phase (sf_callers t ! j) = Running \<and> ca_cell (sf_callers t ! j) = d"
    proof (cases "d = c")
      case True
      with b d ce [of d] new(1) have "p = Running" by simp
      with i True c ph [OF i] show ?thesis by auto
    next
      case False
      with b d ce [of d] have "busy C (sf_cells s ! d)" "d < length (sf_cells s)" by auto
      from cells_ok_busyD [OF ok this(2,1)] obtain j where j: "j < length (sf_callers s)"
        "ca_phase (sf_callers s ! j) = Running" "ca_cell (sf_callers s ! j) = d" .
      with False c ph [OF j(1)] show ?thesis by (intro exI [of _ j]) auto
    qed
  next
    fix j v assume j: "j < length (sf_callers s)" and r: "ca_phase (sf_callers t ! j) = Returned v"
    show "oc_get C (sf_cells t ! ca_cell (sf_callers t ! j)) = Some v"
      using r new(2) [of v] cells_okD(3) [OF ok j, of v] c free(1) by (auto simp: ph [OF j] ce [OF cell_bound [OF ro j]] split: if_splits)
  qed
  then show ?thesis by (simp only: t_def)
qed

text \<open>A waiting caller leaves and its cell stays as it is.\<close>

lemma cells_ok_quit:
  assumes ok: "cells_ok C s" and i: "i < length (sf_callers s)" and w: "ca_phase (sf_callers s ! i) = Waiting"
    and new: "p \<noteq> Running" "\<And>v. p = Returned v \<Longrightarrow> oc_get C (sf_cells s ! ca_cell (sf_callers s ! i)) = Some v"
  shows "cells_ok C (set_phase i p s)"
proof -
  have ph: "ca_phase (sf_callers (set_phase i p s) ! j) = (if j = i then p else ca_phase (sf_callers s ! j))"
    if "j < length (sf_callers s)" for j
    using that by (auto simp: set_phase_nth)
  have "\<exists>j < length (sf_callers s). ca_phase (sf_callers (set_phase i p s) ! j) = Running \<and> ca_cell (sf_callers s ! j) = d"
    if "d < length (sf_cells s)" "busy C (sf_cells s ! d)" for d
  proof -
    from cells_ok_busyD [OF ok that] obtain j where "j < length (sf_callers s)" "ca_phase (sf_callers s ! j) = Running" "ca_cell (sf_callers s ! j) = d" .
    with w ph show ?thesis by (intro exI [of _ j]) auto
  qed
  then show ?thesis using cells_okD [OF ok] new unfolding cells_ok_def
    by (auto simp: ph cong: conj_cong split: if_splits)
qed

lemma cells_ok_cong: "sf_cells s = sf_cells t \<Longrightarrow> sf_callers s = sf_callers t \<Longrightarrow> cells_ok C s = cells_ok C t"
  by (simp add: cells_ok_def)

lemma cells_ok_guard [simp]: "cells_ok C (guard_drop ca s) = cells_ok C s"
  by (rule cells_ok_cong) simp_all

lemma cells_ok_join:
  assumes "cells_ok C s" and "ca_phase ca = Waiting"
  shows "cells_ok C (s\<lparr>sf_callers := sf_callers s @ [ca]\<rparr>)"
proof -
  have "\<exists>i < Suc (length (sf_callers s)). ca_phase ((sf_callers s @ [ca]) ! i) = Running \<and> ca_cell ((sf_callers s @ [ca]) ! i) = d"
    if "d < length (sf_cells s)" "busy C (sf_cells s ! d)" for d
  proof -
    from cells_ok_busyD [OF assms(1) that] obtain j where "j < length (sf_callers s)" "ca_phase (sf_callers s ! j) = Running" "ca_cell (sf_callers s ! j) = d" .
    then show ?thesis by (intro exI [of _ j]) (simp add: nth_append)
  qed
  then show ?thesis using cells_okD [OF assms(1)] assms(2) unfolding cells_ok_def by (auto simp: nth_append less_Suc_eq)
qed

lemma cells_ok_alloc:
  assumes ok: "cells_ok C s" and ro: "roles_ok (length (sf_cells s)) (roles s)" and laws: "once_cell_laws C"
  shows "cells_ok C (s\<lparr>sf_cells := sf_cells s @ [oc_new C]\<rparr>)"
proof -
  have n: "\<not> busy C (oc_new C)" using laws by (simp add: once_cell_laws_def)
  have old: "(sf_cells s @ [oc_new C]) ! ca_cell (sf_callers s ! i) = sf_cells s ! ca_cell (sf_callers s ! i)" if "i < length (sf_callers s)" for i
    using cell_bound [OF ro that] by (simp add: nth_append)
  have "\<exists>i < length (sf_callers s). ca_phase (sf_callers s ! i) = Running \<and> ca_cell (sf_callers s ! i) = d"
    if "d < Suc (length (sf_cells s))" "busy C ((sf_cells s @ [oc_new C]) ! d)" for d
  proof -
    have d: "d < length (sf_cells s)" "busy C (sf_cells s ! d)" using that n by (auto simp: nth_append less_Suc_eq split: if_splits)
    from cells_ok_busyD [OF ok this] show ?thesis by blast
  qed
  then show ?thesis using cells_okD [OF ok] unfolding cells_ok_def by (simp add: old)
qed

definition sf_inv :: "('c, 'v) once_cell \<Rightarrow> ('c, 'v) single_flight \<Rightarrow> bool" where
  "sf_inv C s \<longleftrightarrow> flights_ok s \<and> cells_ok C s"

lemma sf_inv_new [simp]: "sf_inv C sf_new"
  by (simp add: sf_inv_def flights_ok_def table_ok_def roles_ok_def roles_def cells_ok_def sf_new_def)

lemma flights_ok_cells [simp]: "flights_ok (s\<lparr>sf_cells := (sf_cells s)[c := x]\<rparr>) = flights_ok s"
  by (simp add: flights_ok_def table_ok_def roles_def)

lemma sf_inv_enter:
  assumes laws: "once_cell_laws C" and inv: "sf_inv C s"
  shows "sf_inv C (sf_enter C key s)"
proof -
  have ok: "cells_ok C s" and ro: "roles_ok (length (sf_cells s)) (roles s)" and fl: "flights_ok s"
    using inv by (simp_all add: sf_inv_def flights_ok_def)
  have "cells_ok C (sf_enter C key s)"
  proof (cases "dm_get (sf_flights s) key")
    case (Some c)
    then show ?thesis using cells_ok_join [OF ok] by (simp add: sf_enter_def)
  next
    case None
    from cells_ok_alloc [OF ok ro laws] have "cells_ok C (s\<lparr>sf_cells := sf_cells s @ [oc_new C], sf_callers := sf_callers s @ [ca]\<rparr>)"
      if "ca_phase ca = Waiting" for ca
      using cells_ok_join [OF _ that, of C "s\<lparr>sf_cells := sf_cells s @ [oc_new C]\<rparr>"] by simp
    from this [of "\<lparr>ca_key = key, ca_cell = length (sf_cells s), ca_leader = True, ca_phase = Waiting\<rparr>"]
    show ?thesis by (rule cells_ok_cong [THEN iffD1, rotated 2, OF _]) (simp_all add: None sf_enter_def Let_def)
  qed
  with flights_ok_enter [OF fl] show ?thesis by (simp add: sf_inv_def)
qed

lemma runner_alone:
  assumes "cells_ok C s" "i < length (sf_callers s)" "ca_phase (sf_callers s ! i) = Running"
    "j < length (sf_callers s)" "ca_phase (sf_callers s ! j) = Running" "ca_cell (sf_callers s ! j) = ca_cell (sf_callers s ! i)"
  shows "j = i"
  using cells_okD(2) [OF assms(1,2,3,4,5)] assms(6) by simp

lemma sf_inv_apply:
  assumes laws: "once_cell_laws C" and inv: "sf_inv C s" and ap: "sf_apply C ev s = Some s'"
  shows "sf_inv C s'"
proof -
  have ok: "cells_ok C s" and ro: "roles_ok (length (sf_cells s)) (roles s)" and fl: "flights_ok s"
    using inv by (simp_all add: sf_inv_def flights_ok_def)
  show ?thesis
  proof (cases ev)
    case (Enter key)
    with ap sf_inv_enter [OF laws inv] show ?thesis by auto
  next
    case (Begin i)
    let ?c = "ca_cell (sf_callers s ! i)"
    from ap Begin obtain x where i: "i < length (sf_callers s)" and w: "ca_phase (sf_callers s ! i) = Waiting"
      and x: "oc_acquire C (sf_cells s ! ?c) = Some x" and s': "s' = set_phase i Running (s\<lparr>sf_cells := (sf_cells s)[?c := x]\<rparr>)"
      by (auto simp: Let_def split: if_splits option.splits)
    have g: "oc_get C (sf_cells s ! ?c) = None" "busy C x" using laws x by (auto simp: once_cell_laws_def)
    have idle: "\<not> (ca_phase (sf_callers s ! j) = Running \<and> ca_cell (sf_callers s ! j) = ?c)" if "j < length (sf_callers s)" for j
      using cells_okD(1) [OF ok that] x by auto
    have "cells_ok C s'" unfolding s'
      by (rule cells_ok_move [OF ok ro i refl g(1)]) (use g idle in auto)
    moreover have "flights_ok s'" unfolding s' by (rule flights_ok_set_phase) (use fl w in \<open>simp_all add: live_def\<close>)
    ultimately show ?thesis by (simp add: sf_inv_def)
  next
    case (Finish i v)
    let ?c = "ca_cell (sf_callers s ! i)" and ?x = "oc_set C (sf_cells s ! ca_cell (sf_callers s ! i)) v"
    from ap Finish have i: "i < length (sf_callers s)" and r: "ca_phase (sf_callers s ! i) = Running"
      and s': "s' = leave i (Returned v) (s\<lparr>sf_cells := (sf_cells s)[?c := ?x]\<rparr>)"
      by (auto simp: Let_def split: if_splits)
    have b: "busy C (sf_cells s ! ?c)" by (rule cells_okD(1) [OF ok i r])
    then have "oc_get C ?x = Some v" using laws by (simp add: once_cell_laws_def)
    then have "cells_ok C s'" unfolding s' leave_def cells_ok_guard
      by (intro cells_ok_move [OF ok ro i refl]) (use b runner_alone [OF ok i r] in auto)
    moreover have "flights_ok s'" unfolding s' by (rule flights_ok_leave) (use fl r i in \<open>simp_all add: live_def\<close>)
    ultimately show ?thesis by (simp add: sf_inv_def)
  next
    case (Observe i)
    from ap Observe obtain v where i: "i < length (sf_callers s)" and w: "ca_phase (sf_callers s ! i) = Waiting"
      and v: "oc_get C (sf_cells s ! ca_cell (sf_callers s ! i)) = Some v" and s': "s' = leave i (Returned v) s"
      by (auto split: if_splits option.splits)
    have "cells_ok C s'" unfolding s' leave_def cells_ok_guard by (rule cells_ok_quit [OF ok i w]) (use v in auto)
    moreover have "flights_ok s'" unfolding s' by (rule flights_ok_leave) (use fl w i in \<open>simp_all add: live_def\<close>)
    ultimately show ?thesis by (simp add: sf_inv_def)
  next
    case (Cancel i)
    show ?thesis
    proof (cases "ca_phase (sf_callers s ! i)")
      case Waiting
      with ap Cancel have i: "i < length (sf_callers s)" and s': "s' = leave i Cancelled s" by (auto split: if_splits)
      have "cells_ok C s'" unfolding s' leave_def cells_ok_guard by (rule cells_ok_quit [OF ok i Waiting]) auto
      moreover have "flights_ok s'" unfolding s' by (rule flights_ok_leave) (use fl Waiting i in \<open>simp_all add: live_def\<close>)
      ultimately show ?thesis by (simp add: sf_inv_def)
    next
      case Running
      let ?c = "ca_cell (sf_callers s ! i)" and ?x = "oc_release C (sf_cells s ! ca_cell (sf_callers s ! i))"
      from Running ap Cancel have i: "i < length (sf_callers s)" and s': "s' = leave i Cancelled (s\<lparr>sf_cells := (sf_cells s)[?c := ?x]\<rparr>)"
        by (auto simp: Let_def split: if_splits)
      have b: "busy C (sf_cells s ! ?c)" by (rule cells_okD(1) [OF ok i Running])
      then have "\<not> busy C ?x" using laws by (simp add: once_cell_laws_def)
      then have "cells_ok C s'" unfolding s' leave_def cells_ok_guard
        by (intro cells_ok_move [OF ok ro i refl]) (use b runner_alone [OF ok i Running] in auto)
      moreover have "flights_ok s'" unfolding s' by (rule flights_ok_leave) (use fl Running i in \<open>simp_all add: live_def\<close>)
      ultimately show ?thesis by (simp add: sf_inv_def)
    qed (use ap Cancel in \<open>auto split: if_splits\<close>)
  qed
qed

interpretation sf: transition_system "\<lambda>s. s = sf_new" "sf_step C P" "\<lambda>s. once_cell_laws C \<longrightarrow> sf_inv C s" for C P
  by unfold_locales (auto elim!: sf_stepE intro: sf_inv_apply)

section \<open>Without dropped callers\<close>

text \<open>A caller that still waits for a value is on the flight of its key.\<close>

definition undropped :: "('c, 'v) once_cell \<Rightarrow> ('c, 'v) single_flight \<Rightarrow> bool" where
  "undropped C s \<longleftrightarrow> (\<forall>i < length (sf_callers s). live (sf_callers s ! i) \<longrightarrow> oc_get C (sf_cells s ! ca_cell (sf_callers s ! i)) = None \<longrightarrow>
     dm_get (sf_flights s) (ca_key (sf_callers s ! i)) = Some (ca_cell (sf_callers s ! i)))"

lemma undroppedD:
  "undropped C s \<Longrightarrow> i < length (sf_callers s) \<Longrightarrow> live (sf_callers s ! i) \<Longrightarrow> oc_get C (sf_cells s ! ca_cell (sf_callers s ! i)) = None \<Longrightarrow>
   dm_get (sf_flights s) (ca_key (sf_callers s ! i)) = Some (ca_cell (sf_callers s ! i))"
  by (simp add: undropped_def)

lemma undropped_leave:
  assumes q: "undropped C s" and fl: "flights_ok s" and i: "i < length (sf_callers s)" and l: "live (sf_callers s ! i)"
    and p: "\<not> live ((sf_callers s ! i)\<lparr>ca_phase := p\<rparr>)" and set: "oc_get C (sf_cells s ! ca_cell (sf_callers s ! i)) \<noteq> None"
  shows "undropped C (leave i p s)"
  unfolding undropped_def
proof (intro allI impI)
  let ?s = "leave i p s"
  have tb: "table_ok s" using fl by (simp add: flights_ok_def)
  then have dm: "dm_ok (sf_flights s)" by (simp add: table_ok_def)
  fix j assume "j < length (sf_callers ?s)" and lj: "live (sf_callers ?s ! j)"
    and nj: "oc_get C (sf_cells ?s ! ca_cell (sf_callers ?s ! j)) = None"
  then have j: "j < length (sf_callers s)" by simp
  from lj nj j have old: "dm_get (sf_flights s) (ca_key (sf_callers s ! j)) = Some (ca_cell (sf_callers s ! j))"
    by (intro undroppedD [OF q j]) (simp_all add: live_leave [OF j p])
  have "ca_key (sf_callers s ! j) \<noteq> ca_key (sf_callers s ! i)" if "ca_leader (sf_callers s ! i)"
  proof
    assume "ca_key (sf_callers s ! j) = ca_key (sf_callers s ! i)"
    moreover have "dm_get (sf_flights s) (ca_key (sf_callers s ! i)) = Some (ca_cell (sf_callers s ! i))"
      unfolding table_okD [OF tb] using i l that by blast
    ultimately show False using old nj set j by simp
  qed
  with old j show "dm_get (sf_flights ?s) (ca_key (sf_callers ?s ! j)) = Some (ca_cell (sf_callers ?s ! j))"
    by (simp add: dm.get_remove [OF dm])
qed

lemma undropped_cell:
  assumes "undropped C s" and "oc_get C x = None \<Longrightarrow> oc_get C (sf_cells s ! c) = None"
  shows "undropped C (s\<lparr>sf_cells := (sf_cells s)[c := x]\<rparr>)"
  unfolding undropped_def
proof (intro allI impI)
  fix i
  let ?s = "s\<lparr>sf_cells := (sf_cells s)[c := x]\<rparr>"
  assume i: "i < length (sf_callers ?s)" and l: "live (sf_callers ?s ! i)" and n: "oc_get C (sf_cells ?s ! ca_cell (sf_callers ?s ! i)) = None"
  have "oc_get C (sf_cells s ! ca_cell (sf_callers s ! i)) = None"
    using n assms(2) by (cases "ca_cell (sf_callers s ! i) = c \<and> c < length (sf_cells s)") (auto simp: not_less list_update_beyond)
  with undroppedD [OF assms(1)] i l show "dm_get (sf_flights ?s) (ca_key (sf_callers ?s ! i)) = Some (ca_cell (sf_callers ?s ! i))" by simp
qed

lemma undropped_set_phase:
  assumes "undropped C s" and "live (sf_callers s ! i)"
  shows "undropped C (set_phase i p s)"
proof -
  have "live (sf_callers (set_phase i p s) ! j) \<Longrightarrow> live (sf_callers s ! j)" if "j < length (sf_callers s)" for j
    using that assms(2) by (auto simp: set_phase_nth split: if_splits)
  with assms(1) show ?thesis unfolding undropped_def by simp
qed

lemma undropped_enter:
  assumes q: "undropped C s" and inv: "sf_inv C s"
  shows "undropped C (sf_enter C key s)"
proof (cases "dm_get (sf_flights s) key")
  case (Some c)
  with q show ?thesis unfolding undropped_def by (auto simp: sf_enter_def nth_append less_Suc_eq)
next
  case None
  have ro: "roles_ok (length (sf_cells s)) (roles s)" using inv by (simp add: sf_inv_def flights_ok_def)
  have "dm_get (dm_insert key c (sf_flights s)) (ca_key (sf_callers s ! i)) = Some (ca_cell (sf_callers s ! i))"
    if "i < length (sf_callers s)" "live (sf_callers s ! i)" "oc_get C (sf_cells s ! ca_cell (sf_callers s ! i)) = None" for i c
    using undroppedD [OF q that] None by (auto simp: dm.get_insert)
  with None cell_bound [OF ro] show ?thesis unfolding undropped_def
    by (auto simp: sf_enter_def Let_def nth_append less_Suc_eq dm.get_insert_same)
qed

lemma undropped_apply:
  assumes laws: "once_cell_laws C" and inv: "sf_inv C s" and q: "undropped C s"
    and ap: "sf_apply C ev s = Some s'" and nc: "\<not> is_cancel ev"
  shows "undropped C s'"
proof -
  have ok: "cells_ok C s" and ro: "roles_ok (length (sf_cells s)) (roles s)" and fl: "flights_ok s"
    using inv by (simp_all add: sf_inv_def flights_ok_def)
  show ?thesis
  proof (cases ev)
    case (Enter key)
    with ap undropped_enter [OF q inv] show ?thesis by auto
  next
    case (Begin i)
    let ?c = "ca_cell (sf_callers s ! i)"
    from ap Begin obtain x where w: "ca_phase (sf_callers s ! i) = Waiting"
      and x: "oc_acquire C (sf_cells s ! ?c) = Some x" and s': "s' = set_phase i Running (s\<lparr>sf_cells := (sf_cells s)[?c := x]\<rparr>)"
      by (auto simp: Let_def split: if_splits option.splits)
    have "oc_get C (sf_cells s ! ?c) = None" using laws x by (auto simp: once_cell_laws_def)
    then show ?thesis unfolding s' using w by (intro undropped_set_phase undropped_cell [OF q]) (simp_all add: live_def)
  next
    case (Finish i v)
    let ?c = "ca_cell (sf_callers s ! i)" and ?x = "oc_set C (sf_cells s ! ca_cell (sf_callers s ! i)) v"
    from ap Finish have i: "i < length (sf_callers s)" and r: "ca_phase (sf_callers s ! i) = Running"
      and s': "s' = leave i (Returned v) (s\<lparr>sf_cells := (sf_cells s)[?c := ?x]\<rparr>)"
      by (auto simp: Let_def split: if_splits)
    have b: "busy C (sf_cells s ! ?c)" by (rule cells_okD(1) [OF ok i r])
    then have "oc_get C ?x = Some v" using laws by (simp add: once_cell_laws_def)
    then show ?thesis unfolding s' using fl i r b cell_bound [OF ro i]
      by (intro undropped_leave undropped_cell [OF q]) (simp_all add: live_def)
  next
    case (Observe i)
    from ap Observe obtain v where "i < length (sf_callers s)" "ca_phase (sf_callers s ! i) = Waiting"
      "oc_get C (sf_cells s ! ca_cell (sf_callers s ! i)) = Some v" "s' = leave i (Returned v) s"
      by (auto split: if_splits option.splits)
    with undropped_leave [OF q fl] show ?thesis by (simp add: live_def)
  qed (use nc in simp)
qed

interpretation quiet: transition_system "\<lambda>s. s = sf_new" "sf_step C (\<lambda>ev. \<not> is_cancel ev)"
    "\<lambda>s. once_cell_laws C \<longrightarrow> sf_inv C s \<and> undropped C s" for C
proof unfold_locales
  show "once_cell_laws C \<longrightarrow> sf_inv C s \<and> undropped C s" if "s = sf_new" for s
    using that by (simp add: undropped_def) (simp add: sf_new_def)
  show "once_cell_laws C \<longrightarrow> sf_inv C s' \<and> undropped C s'"
    if "once_cell_laws C \<longrightarrow> sf_inv C s \<and> undropped C s" "sf_step C (\<lambda>ev. \<not> is_cancel ev) s s'" for s s'
    using that by (auto elim!: sf_stepE intro: sf_inv_apply undropped_apply)
qed

section \<open>Progress\<close>

fun weight :: "'v phase \<Rightarrow> nat" where
  "weight Waiting = 2"
| "weight Running = 1"
| "weight _ = 0"

definition pending :: "('c, 'v) single_flight \<Rightarrow> nat" where
  "pending s = sum_list (map (\<lambda>ca. weight (ca_phase ca)) (sf_callers s))"

lemma pending_le: "pending (s :: ('a, 'b) single_flight) \<le> 2 * length (sf_callers s)"
proof -
  have w: "weight p \<le> 2" for p :: "'b phase" by (cases p) auto
  have "sum_list (map (\<lambda>ca. weight (ca_phase ca)) cs) \<le> 2 * length cs" for cs :: "'b caller list"
  proof (induction cs)
    case (Cons ca cs)
    then show ?case using w [of "ca_phase ca"] by simp
  qed simp
  then show ?thesis by (simp add: pending_def)
qed

lemma pending_set_phase:
  assumes "i < length (sf_callers s)" and "weight p < weight (ca_phase (sf_callers s ! i))"
  shows "pending (set_phase i p s) < pending s"
proof -
  let ?w = "\<lambda>ca :: 'v caller. weight (ca_phase ca)" and ?cs = "sf_callers s"
  have d: "sf_callers s = take i ?cs @ ?cs ! i # drop (Suc i) ?cs" using assms(1) by (rule id_take_nth_drop)
  have "sf_callers (set_phase i p s) = take i ?cs @ (?cs ! i)\<lparr>ca_phase := p\<rparr> # drop (Suc i) ?cs"
    using assms(1) by (simp add: set_phase_def upd_conv_take_nth_drop)
  then have "pending (set_phase i p s) = sum_list (map ?w (take i ?cs)) + weight p + sum_list (map ?w (drop (Suc i) ?cs))"
    by (simp add: pending_def)
  moreover have "pending s = sum_list (map ?w (take i ?cs)) + ?w (?cs ! i) + sum_list (map ?w (drop (Suc i) ?cs))"
    unfolding pending_def by (subst d) simp
  ultimately show ?thesis using assms(2) by simp
qed

lemma pending_simps [simp]: "pending (guard_drop ca s) = pending s" "pending (s\<lparr>sf_cells := cs\<rparr>) = pending s"
  by (simp_all add: pending_def)

lemma pending_apply:
  assumes "sf_apply C ev s = Some s'" and "\<not> is_enter ev"
  shows "pending s' < pending s" "length (sf_callers s') = length (sf_callers s)"
proof -
  have ps: "pending (set_phase i p (s\<lparr>sf_cells := cs\<rparr>)) < pending s"
    if "i < length (sf_callers s)" "weight p < weight (ca_phase (sf_callers s ! i))" for i p cs
    using pending_set_phase [of i "s\<lparr>sf_cells := cs\<rparr>" p] that by simp
  show "pending s' < pending s"
    using assms ps pending_set_phase [of _ s]
    by (cases ev) (auto simp: Let_def leave_def split: if_splits option.splits phase.splits)
  show "length (sf_callers s') = length (sf_callers s)"
    using assms by (cases ev) (auto simp: Let_def split: if_splits option.splits phase.splits)
qed

abbreviation settling :: "'v event \<Rightarrow> bool" where
  "settling ev \<equiv> \<not> is_enter ev \<and> \<not> is_cancel ev"

lemma settling_bound: "(sf_step C settling ^^ n) s t \<Longrightarrow> n + pending t \<le> pending s"
proof (induction n arbitrary: t)
  case (Suc n)
  then obtain u where "(sf_step C settling ^^ n) s u" "sf_step C settling u t" by auto
  with Suc.IH [of u] show ?case by (auto elim!: sf_stepE dest: pending_apply(1))
qed simp

lemma settling_progress:
  assumes inv: "sf_inv C s" and i: "i < length (sf_callers s)" and l: "live (sf_callers s ! i)"
  shows "\<exists>t. sf_step C settling s t"
proof -
  have ok: "cells_ok C s" and ro: "roles_ok (length (sf_cells s)) (roles s)" using inv by (simp_all add: sf_inv_def flights_ok_def)
  let ?c = "ca_cell (sf_callers s ! i)"
  have fin: ?thesis if "j < length (sf_callers s)" "ca_phase (sf_callers s ! j) = Running" for j
    using that sf_event [of settling "Finish j undefined" C s] by (auto simp: Let_def)
  show ?thesis
  proof (cases "ca_phase (sf_callers s ! i) = Running")
    case True
    with fin i show ?thesis by blast
  next
    case False
    with l have w: "ca_phase (sf_callers s ! i) = Waiting" by (simp add: live_def)
    show ?thesis
    proof (cases "busy C (sf_cells s ! ?c)")
      case True
      with cells_ok_busyD [OF ok cell_bound [OF ro i]] fin show ?thesis by blast
    next
      case False
      with w i sf_event [of settling "Observe i" C s] sf_event [of settling "Begin i" C s] show ?thesis
        by (cases "oc_get C (sf_cells s ! ?c)") (auto simp: Let_def)
    qed
  qed
qed

lemma no_leader_no_flight:
  assumes "flights_ok s" and "\<And>i. i < length (sf_callers s) \<Longrightarrow> \<not> live (sf_callers s ! i)"
  shows "sf_flights s = []"
proof -
  have tb: "table_ok s" using assms(1) by (simp add: flights_ok_def)
  have "dm_get (sf_flights s) k = None" for k
    using table_okD [OF tb, of k] assms(2) by (cases "dm_get (sf_flights s) k") auto
  then have "map_of (sf_flights s) = Map.empty" by (simp add: dm_get_def fun_eq_iff)
  then show ?thesis by simp
qed

section \<open>Properties\<close>

text \<open>
  Whatever the interleaving of callers and of dropped futures: a key has an entry in the
  table exactly while its leader is in \<open>run\<close>; a cell has one leader and never two callers
  evaluating at once; and all callers that return from the same cell return the same value.
\<close>

lemma single_flight_shared:
  assumes "once_cell_laws C" and "(sf_step C (\<lambda>_. True))\<^sup>*\<^sup>* sf_new s"
    and "at s i a" and "at s j b" and "ca_cell a = ca_cell b"
  shows "ca_key a = ca_key b \<and>
    (ca_leader a \<and> ca_leader b \<longrightarrow> i = j) \<and>
    (ca_phase a = Running \<and> ca_phase b = Running \<longrightarrow> i = j) \<and>
    (\<forall>v w. ca_phase a = Returned v \<and> ca_phase b = Returned w \<longrightarrow> v = w) \<and>
    (ca_leader a \<longrightarrow> (live a \<longleftrightarrow> dm_get (sf_flights s) (ca_key a) = Some (ca_cell a)))"
proof -
  have inv: "sf_inv C s" using sf.reachable_inv [OF refl assms(2)] assms(1) by blast
  then have ok: "cells_ok C s" and ro: "roles_ok (length (sf_cells s)) (roles s)" and tb: "table_ok s"
    by (simp_all add: sf_inv_def flights_ok_def)
  from assms(3-5) have i: "i < length (sf_callers s)" "a = sf_callers s ! i" and j: "j < length (sf_callers s)" "b = sf_callers s ! j"
    and e: "ca_cell (sf_callers s ! i) = ca_cell (sf_callers s ! j)" by auto
  have "live a \<longleftrightarrow> dm_get (sf_flights s) (ca_key a) = Some (ca_cell a)" if "ca_leader a"
    unfolding table_okD [OF tb] using i that one_leader [OF ro _ i(1)] by blast
  moreover have "v = w" if "ca_phase a = Returned v" "ca_phase b = Returned w" for v w
    using cells_okD(3) [OF ok i(1)] cells_okD(3) [OF ok j(1)] e that i(2) j(2) by fastforce
  ultimately show ?thesis
    using cell_key [OF ro i(1) j(1) e] one_leader [OF ro i(1) j(1) _ _ e] cells_okD(2) [OF ok i(1) _ j(1) _ e] i(2) j(2) by blast
qed

text \<open>
  C23. As long as no caller is dropped, the work for a key is done by one caller at a time: two
  callers evaluating for the same key are the same caller.
\<close>

theorem single_flight_exclusive:
  assumes "once_cell_laws C" and "(sf_step C (\<lambda>ev. \<not> is_cancel ev))\<^sup>*\<^sup>* sf_new s"
    and "at s i a" and "at s j b" and "ca_key a = ca_key b" and "ca_phase a = Running" and "ca_phase b = Running"
  shows "i = j"
proof -
  have inv: "sf_inv C s" and q: "undropped C s" using quiet.reachable_inv [OF refl assms(2)] assms(1) by blast+
  then have ok: "cells_ok C s" by (simp add: sf_inv_def)
  from assms have i: "i < length (sf_callers s)" "ca_phase (sf_callers s ! i) = Running"
    and j: "j < length (sf_callers s)" "ca_phase (sf_callers s ! j) = Running"
    and k: "ca_key (sf_callers s ! i) = ca_key (sf_callers s ! j)" by auto
  have "dm_get (sf_flights s) (ca_key (sf_callers s ! i)) = Some (ca_cell (sf_callers s ! i))"
    "dm_get (sf_flights s) (ca_key (sf_callers s ! j)) = Some (ca_cell (sf_callers s ! j))"
    using undroppedD [OF q i(1)] undroppedD [OF q j(1)] cells_okD(1) [OF ok i] cells_okD(1) [OF ok j] i j by (simp_all add: live_def)
  with k have "ca_cell (sf_callers s ! i) = ca_cell (sf_callers s ! j)" by simp
  then show ?thesis by (rule cells_okD(2) [OF ok i j])
qed

text \<open>
  C22. From any reachable state, once no new caller comes, the callers finish: a run of settling
  events (a caller starts evaluating, evaluation ends, a caller picks up the value) has at most
  two events per caller, no state with a caller left in it is stuck, and when the last caller is
  gone the table of flights is empty.
\<close>

theorem single_flight_drains:
  assumes "once_cell_laws C" and "(sf_step C (\<lambda>_. True))\<^sup>*\<^sup>* sf_new s" and "(sf_step C settling ^^ n) s t"
  shows "n \<le> 2 * length (sf_callers s) \<and>
    (if \<exists>ca \<in> set (sf_callers t). live ca then \<exists>u. sf_step C settling t u else in_flight_count t = 0)"
proof -
  have "sf_inv C s" using sf.reachable_inv [OF refl assms(2)] assms(1) by blast
  moreover have "(sf_step C settling)\<^sup>*\<^sup>* s t" using assms(3) by (rule relpowp_imp_rtranclp)
  ultimately have inv: "sf_inv C t" using sf.steps_inv assms(1) by blast
  have "n \<le> 2 * length (sf_callers s)" using settling_bound [OF assms(3)] pending_le [of s] by linarith
  moreover have "\<exists>u. sf_step C settling t u" if "ca \<in> set (sf_callers t)" "live ca" for ca
    using that settling_progress [OF inv] by (auto simp: in_set_conv_nth)
  moreover have "in_flight_count t = 0" if "\<not> (\<exists>ca \<in> set (sf_callers t). live ca)"
    using that no_leader_no_flight [of t] inv by (simp add: sf_inv_def in_flight_count_def)
  ultimately show ?thesis by auto
qed

text \<open>A cell as an optional value and a permit, and a run of two callers for the same key.\<close>

definition plain_cell :: "(nat option \<times> bool, nat) once_cell" where
  "plain_cell = \<lparr>oc_new = (None, False), oc_get = fst,
     oc_acquire = (\<lambda>(v, held). if v = None \<and> \<not> held then Some (None, True) else None),
     oc_set = (\<lambda>(_, held) v. (Some v, held)), oc_release = (\<lambda>(v, _). (v, False))\<rparr>"

lemma plain_cell_laws: "once_cell_laws plain_cell"
  by (auto simp: once_cell_laws_def plain_cell_def split: if_splits)

fun sf_run :: "('c, 'v) once_cell \<Rightarrow> 'v event list \<Rightarrow> ('c, 'v) single_flight \<Rightarrow> ('c, 'v) single_flight option" where
  "sf_run C [] s = Some s"
| "sf_run C (ev # evs) s = Option.bind (sf_apply C ev s) (sf_run C evs)"

lemma sf_run_steps: "sf_run C evs s = Some t \<Longrightarrow> list_all P evs \<Longrightarrow> (sf_step C P)\<^sup>*\<^sup>* s t"
  by (induction evs arbitrary: s) (auto simp: bind_eq_Some_conv intro: converse_rtranclp_into_rtranclp sf_event)

lemma two_callers:
  "map_option (\<lambda>s. (in_flight_count s, sf_callers s))
     (sf_run plain_cell [Enter ''a'', Enter ''a'', Begin 1, Finish 1 7, Observe 0] sf_new) =
   Some (0, [\<lparr>ca_key = ''a'', ca_cell = 0, ca_leader = True, ca_phase = Returned 7\<rparr>,
             \<lparr>ca_key = ''a'', ca_cell = 0, ca_leader = False, ca_phase = Returned 7\<rparr>])"
  by code_simp

lemma one_runner:
  "map_option (\<lambda>s. sf_callers s ! 2) (sf_run plain_cell [Enter ''a'', Enter ''b'', Enter ''a'', Begin 2] sf_new) =
   Some \<lparr>ca_key = ''a'', ca_cell = 0, ca_leader = False, ca_phase = Running\<rparr>"
  "map_option (\<lambda>s. length (sf_callers s)) (sf_run plain_cell [Enter ''a'', Enter ''b'', Enter ''a'', Begin 2] sf_new) = Some 3"
  by code_simp+

theorem single_flight_exclusive_witness:
  "\<exists>s a. (sf_step plain_cell (\<lambda>ev. \<not> is_cancel ev))\<^sup>*\<^sup>* sf_new s \<and> at s 2 a \<and> ca_phase a = Running \<and>
     (\<forall>j b. at s j b \<and> ca_key b = ca_key a \<and> ca_phase b = Running \<longrightarrow> j = 2)"
proof -
  from one_runner obtain s where s: "sf_run plain_cell [Enter ''a'', Enter ''b'', Enter ''a'', Begin 2] sf_new = Some s"
    and a: "at s 2 \<lparr>ca_key = ''a'', ca_cell = 0, ca_leader = False, ca_phase = Running\<rparr>" by auto
  have st: "(sf_step plain_cell (\<lambda>ev. \<not> is_cancel ev))\<^sup>*\<^sup>* sf_new s" by (rule sf_run_steps [OF s]) simp
  have "j = 2" if "at s j b" "ca_key b = ''a''" "ca_phase b = Running" for j b
    using single_flight_exclusive [OF plain_cell_laws st that(1) a] that(2,3) by simp
  with st a show ?thesis by (intro exI [of _ s] exI [of _ "\<lparr>ca_key = ''a'', ca_cell = 0, ca_leader = False, ca_phase = Running\<rparr>"]) auto
qed

theorem single_flight_drains_witness:
  "\<exists>s. (sf_step plain_cell (\<lambda>_. True))\<^sup>*\<^sup>* sf_new s \<and> in_flight_count s = 1 \<and> (\<exists>u. sf_step plain_cell settling s u)"
proof -
  let ?s = "sf_enter plain_cell ''a'' sf_new"
  have "sf_run plain_cell [Enter ''a''] sf_new = Some ?s" by simp
  then have st: "(sf_step plain_cell (\<lambda>_. True))\<^sup>*\<^sup>* sf_new ?s" by (rule sf_run_steps) simp
  have n: "in_flight_count ?s = 1" "\<exists>ca \<in> set (sf_callers ?s). live ca"
    by (simp_all add: sf_enter_def sf_new_def in_flight_count_def live_def Let_def dm_insert_def)
  from single_flight_drains [OF plain_cell_laws st, of 0 ?s] n st show ?thesis by auto
qed

text \<open>
  When a leader's future is dropped, its followers keep the old cell while the next caller
  starts a new flight, so two callers can evaluate for the same key at the same time.
\<close>

lemma single_flight_cancel_race:
  assumes "once_cell_laws C"
  shows "\<exists>s. (sf_step C (\<lambda>_. True))\<^sup>*\<^sup>* sf_new s \<and>
    (\<exists>i j a b. i \<noteq> j \<and> at s i a \<and> at s j b \<and> ca_key a = ca_key b \<and> ca_phase a = Running \<and> ca_phase b = Running)"
proof -
  obtain x where x: "oc_acquire C (oc_new C) = Some x" using assms by (auto simp: once_cell_laws_def)
  let ?evs = "[Enter ''a'', Enter ''a'', Cancel 0, Enter ''a'', Begin 1, Begin 2]"
  have "\<exists>s. sf_run C [Enter k, Enter k, Cancel 0, Enter k, Begin 1, Begin 2] sf_new = Some s \<and>
    at s 1 \<lparr>ca_key = k, ca_cell = 0, ca_leader = False, ca_phase = Running\<rparr> \<and>
    at s 2 \<lparr>ca_key = k, ca_cell = 1, ca_leader = True, ca_phase = Running\<rparr>" for k
    by (simp add: sf_enter_def sf_new_def set_phase_def leave_def guard_drop_def Let_def x
        dm_get_def dm_insert_def dm_remove_def nth_append)
  then obtain s where s: "sf_run C ?evs sf_new = Some s"
    and a: "at s 1 \<lparr>ca_key = ''a'', ca_cell = 0, ca_leader = False, ca_phase = Running\<rparr>"
    and b: "at s 2 \<lparr>ca_key = ''a'', ca_cell = 1, ca_leader = True, ca_phase = Running\<rparr>" by blast
  have st: "(sf_step C (\<lambda>_. True))\<^sup>*\<^sup>* sf_new s" by (rule sf_run_steps [OF s]) simp
  show ?thesis
    by (rule exI [of _ s], rule conjI [OF st], rule exI [of _ 1], rule exI [of _ 2]) (use a b in auto)
qed

end
