(* ===== verification/Engine.thy ===== *)
theory Engine
  imports Validator Rate_Limit Hit_Tracker Geo_Routing
begin

text \<open>
  \<open>src/engine/resolve.rs\<close>, \<open>src/prefetch.rs\<close> and \<open>preload_domains\<close> of \<open>src/main.rs\<close>: what
  happens to a query between the transport and the recursor.

  \<open>app\<close> holds what stays fixed: the parameters of the other components, the clock of the rate
  limiter, the eviction policy of the cache, the environment and the enforcement flag. \<open>engine\<close>
  is the state: answer cache, rate limiter, hit tracker, counters, the gate of stale
  revalidations with the tasks spawned behind it, the prefetch tasks holding a permit, the geo
  layer, the values the cells of the single flight have received, and the state of the validator
  and the recursor below it.

  A handler runs as one step, a spawned task as one later step. What \<open>SingleFlight::run\<close>
  does for a caller (\<open>Singleflight\<close>) is the argument \<open>flight\<close>: the caller evaluates the closure
  itself, or it is handed the value of its cell. The steps are put together in \<open>engine_step\<close>.

  Lemmas: every state reachable has only validated, unexpired-at-insertion answers in its cache,
  one revalidation per key and at most 16 prefetches; the AD bit is sent only on validated data
  and Bogus data is withheld; a dropped query changes nothing but the rate limiter.
\<close>

section \<open>State\<close>

record ('n, 's, 'f) app =
  ap_lib :: "'n lib"
  ap_net :: "('n, 's) net"
  ap_f64 :: "'f f64"
  ap_env :: env
  ap_evict :: "dns_cache \<Rightarrow> dns_cache"
  ap_now_millis :: "'s \<Rightarrow> int"
  ap_rt_from_str :: "string \<Rightarrow> rtype option"
  ap_dnssec_enforce :: bool

record 'n resolved =
  rd_msg :: "'n message"
  rd_status :: dnssec_status
  rd_cached_at :: u64

record 'n task =
  tk_key :: string
  tk_name :: 'n
  tk_type :: rtype

record ('n, 's, 'f) engine =
  en_cache :: dns_cache
  en_limiter :: rate_limiter
  en_tracker :: hit_tracker
  en_metrics :: metrics
  en_geo :: "('n, 'f) geo_state option"
  en_in_flight :: "(string \<times> unit) list"
  en_revalidations :: "'n task list"
  en_prefetches :: "'n task list"
  en_cells :: "(string \<times> 'n resolved option) list"
  en_dns :: "'s rstate vstate"

datatype 'n flight = Evaluate bool | Share "'n resolved option" bool

definition now_of :: "('n, 's, 'f) app \<Rightarrow> ('n, 's, 'f) engine \<Rightarrow> u64" where
  "now_of A st = net_now (ap_net A) (rs_net (vs_net (en_dns st)))"

definition bump :: "(metrics \<Rightarrow> metrics) \<Rightarrow> ('n, 's, 'f) engine \<Rightarrow> ('n, 's, 'f) engine" where
  "bump f st = st\<lparr>en_metrics := f (en_metrics st)\<rparr>"

section \<open>Resolution and validation\<close>

definition resolve_name ::
  "('n, 's, 'f) app \<Rightarrow> 'n \<Rightarrow> rtype \<Rightarrow> ('n, 's, 'f) engine \<Rightarrow> (recursor_error + 'n message) \<times> ('n, 's, 'f) engine" where
  "resolve_name A qname qtype st =
     (case fetch (resolve (ap_lib A) (ap_net A)) qname qtype (en_dns st) of (r, d) \<Rightarrow> (r, st\<lparr>en_dns := d\<rparr>))"

definition validate ::
  "('n, 's, 'f) app \<Rightarrow> 'n message \<Rightarrow> 'n \<Rightarrow> rtype \<Rightarrow> ('n, 's, 'f) engine \<Rightarrow> dnssec_status \<times> ('n, 's, 'f) engine" where
  "validate A msg qname qtype st =
     (case validate_message (ap_lib A) (resolve (ap_lib A) (ap_net A)) (\<lambda>s. net_now (ap_net A) (rs_net s)) msg qname qtype (en_dns st)
      of (status, d) \<Rightarrow> (status, st\<lparr>en_dns := d\<rparr>))"

definition kind_of :: "'n message \<Rightarrow> entry_kind" where
  "kind_of msg = (if m_rcode msg = NXDomain \<or> (m_rcode msg = NoError \<and> m_answers msg = []) then Negative else Positive)"

definition store_entry :: "('n, 's, 'f) app \<Rightarrow> string \<Rightarrow> cache_entry \<Rightarrow> ('n, 's, 'f) engine \<Rightarrow> ('n, 's, 'f) engine" where
  "store_entry A key e st = st\<lparr>en_cache := cache_insert (ap_evict A) key e (en_cache st)\<rparr>"

definition entry_of :: "bytes \<Rightarrow> u32 \<Rightarrow> u64 \<Rightarrow> dnssec_status \<Rightarrow> entry_kind \<Rightarrow> cache_entry" where
  "entry_of wire ttl now status kind =
     \<lparr>ce_raw_wire = wire, ce_min_ttl = ttl, ce_cached_at = now, ce_last_revalidated_at = now, ce_dnssec_status = status, ce_kind = kind\<rparr>"

definition resolve_and_validate ::
  "('n, 's, 'f) app \<Rightarrow> 'n \<Rightarrow> rtype \<Rightarrow> ('n, 's, 'f) engine \<Rightarrow> (recursor_error + 'n resolved) \<times> ('n, 's, 'f) engine" where
  "resolve_and_validate A qname qtype st =
     (case resolve_name A qname qtype st of
        (Inl e, st) \<Rightarrow> (Inl e, st)
      | (Inr msg, st) \<Rightarrow>
          (case validate A msg qname qtype st of (status, st) \<Rightarrow>
             let L = ap_lib A;
                 msg = msg\<lparr>m_ad := (status = Secure), m_aa := False, m_ra := True\<rparr>;
                 now = now_of A st;
                 kind = kind_of msg;
                 ttl = calculate_cache_ttl msg status now;
                 st = (if cc_enabled (cache_config (ap_env A)) \<and> is_cacheable msg \<and> is_cacheable_dnssec status
                       then (case msg_to_bytes L msg of
                               None \<Rightarrow> st
                             | Some wire \<Rightarrow>
                                 if ttl > 0
                                 then (let st = bump (\<lambda>m. m\<lparr>mt_cache_insertions := mt_cache_insertions m + 1\<rparr>)
                                                  (store_entry A (canonical_cache_key L qname qtype) (entry_of wire ttl now status kind) st) in
                                       if kind = Negative
                                       then bump (\<lambda>m. m\<lparr>mt_negative_insertions := mt_negative_insertions m + 1\<rparr>) st else st)
                                 else st)
                       else st)
             in (Inr \<lparr>rd_msg = msg, rd_status = status, rd_cached_at = now\<rparr>, st)))"

section \<open>Stale revalidation\<close>

text \<open>The gate \<open>in_flight.insert(key)\<close>, with the task spawned when it was open.\<close>

definition spawn_revalidation :: "string \<Rightarrow> 'n \<Rightarrow> rtype \<Rightarrow> ('n, 's, 'f) engine \<Rightarrow> ('n, 's, 'f) engine" where
  "spawn_revalidation key qname qtype st =
     (let st' = st\<lparr>en_in_flight := dm_insert key () (en_in_flight st)\<rparr> in
      if dm_get (en_in_flight st) key = None
      then st'\<lparr>en_revalidations := en_revalidations st @ [\<lparr>tk_key = key, tk_name = qname, tk_type = qtype\<rparr>]\<rparr>
      else st')"

definition refresh_stale ::
  "('n, 's, 'f) app \<Rightarrow> 'n task \<Rightarrow> 'n message \<Rightarrow> dnssec_status \<Rightarrow> ('n, 's, 'f) engine \<Rightarrow> ('n, 's, 'f) engine" where
  "refresh_stale A t msg status st =
     (let L = ap_lib A; msg = msg\<lparr>m_ad := (status = Secure)\<rparr> in
      if is_cacheable msg \<and> is_cacheable_dnssec status
      then (let msg = msg\<lparr>m_aa := False, m_ra := True\<rparr> in
            case msg_to_bytes L msg of
              None \<Rightarrow> st
            | Some wire \<Rightarrow>
                (let now = now_of A st; ttl = calculate_cache_ttl msg status now in
                 if ttl > 0
                 then bump (\<lambda>m. m\<lparr>mt_cache_insertions := mt_cache_insertions m + 1\<rparr>)
                        (store_entry A (tk_key t) (entry_of wire ttl now status (kind_of msg)) st)
                 else st))
      else (case dm_get (en_cache st) (tk_key t) of
              Some existing \<Rightarrow> store_entry A (tk_key t) (existing\<lparr>ce_last_revalidated_at := now_of A st\<rparr>) st
            | None \<Rightarrow> st))"

definition revalidate :: "('n, 's, 'f) app \<Rightarrow> 'n task \<Rightarrow> ('n, 's, 'f) engine \<Rightarrow> ('n, 's, 'f) engine" where
  "revalidate A t st =
     (let st = (case resolve_name A (tk_name t) (tk_type t) st of
                  (Inl e, st) \<Rightarrow> st
                | (Inr msg, st) \<Rightarrow>
                    (case validate A msg (tk_name t) (tk_type t) st of (status, st) \<Rightarrow>
                       if status = Bogus then st else refresh_stale A t msg status st)) in
      st\<lparr>en_in_flight := dm_remove (tk_key t) (en_in_flight st)\<rparr>)"

section \<open>Queries\<close>

text \<open>The closure handed to the single flight; its value goes into the cell of the key.\<close>

definition evaluate_flight ::
  "('n, 's, 'f) app \<Rightarrow> string \<Rightarrow> 'n \<Rightarrow> rtype \<Rightarrow> ('n, 's, 'f) engine \<Rightarrow> 'n resolved option \<times> ('n, 's, 'f) engine" where
  "evaluate_flight A key qname qtype st =
     (case resolve_and_validate A qname qtype st of (r, st) \<Rightarrow>
        let v = (case r of Inr x \<Rightarrow> Some x | Inl _ \<Rightarrow> None) in (v, st\<lparr>en_cells := (key, v) # en_cells st\<rparr>))"

fun run_flight ::
  "('n, 's, 'f) app \<Rightarrow> 'n flight \<Rightarrow> string \<Rightarrow> 'n \<Rightarrow> rtype \<Rightarrow> ('n, 's, 'f) engine \<Rightarrow> ('n resolved option \<times> bool) \<times> ('n, 's, 'f) engine" where
  "run_flight A (Evaluate leader) key qname qtype st =
     (case evaluate_flight A key qname qtype st of (v, st) \<Rightarrow> ((v, leader), st))"
| "run_flight A (Share v leader) key qname qtype st = ((v, leader), st)"

definition servfail :: "('n, 's, 'f) app \<Rightarrow> 'n message \<Rightarrow> process_outcome" where
  "servfail A req = Out_ServFail (make_servfail_wire (ap_lib A) (m_id req) (first_query req))"

definition truncated :: "('n, 's, 'f) app \<Rightarrow> 'n message \<Rightarrow> process_outcome" where
  "truncated A req = Out_Truncated (make_truncated_wire (ap_lib A) (m_id req) (first_query req))"

definition challenge_or_send ::
  "('n, 's, 'f) app \<Rightarrow> 'n parsed_query \<Rightarrow> string \<Rightarrow> ip_addr \<Rightarrow> bytes \<Rightarrow> process_outcome" where
  "challenge_or_send A pq protocol client_ip wire =
     (if should_challenge_large_response protocol client_ip (length wire) (pq_client_max_payload pq)
      then truncated A (pq_req_msg pq) else Out_Success wire)"

definition respond ::
  "('n, 's, 'f) app \<Rightarrow> 'n parsed_query \<Rightarrow> 'n message \<Rightarrow> dnssec_status \<Rightarrow> cache_freshness \<Rightarrow> u64 \<Rightarrow> u64 \<Rightarrow> bytes option" where
  "respond A pq base status fresh cached_at now =
     construct_client_response (ap_lib A) base (pq_qtype pq) status fresh cached_at (pq_req_msg pq)
       (pq_client_max_payload pq) (pq_client_dnssec_ok pq) now"

text \<open>The cache hit path: the answer, or \<open>None\<close> when the query goes on as a miss.\<close>

definition serve_cached ::
  "('n, 's, 'f) app \<Rightarrow> 'n parsed_query \<Rightarrow> string \<Rightarrow> ip_addr \<Rightarrow> u64 \<Rightarrow> ('n, 's, 'f) engine \<Rightarrow> process_outcome option \<times> ('n, 's, 'f) engine" where
  "serve_cached A pq protocol client_ip now st =
     (let key = pq_cache_key pq; miss = bump (\<lambda>m. m\<lparr>mt_cache_misses := mt_cache_misses m + 1\<rparr>) in
      if \<not> cc_enabled (cache_config (ap_env A)) then (None, miss st)
      else case dm_get (en_cache st) key of
        None \<Rightarrow> (None, miss st)
      | Some entry \<Rightarrow>
          (let fresh = freshness (ap_env A) entry now in
           if fresh = Expired then (None, miss st)
           else
             let st = st\<lparr>en_tracker := ht_record now key (en_tracker st)\<rparr>;
                 st = bump (\<lambda>m. m\<lparr>mt_cache_hits := mt_cache_hits m + 1\<rparr>) st;
                 st = (if ce_kind entry = Negative then bump (\<lambda>m. m\<lparr>mt_negative_hits := mt_negative_hits m + 1\<rparr>) st else st);
                 st = (if fresh = Stale
                       then spawn_revalidation key (pq_qname pq) (pq_qtype pq)
                              (bump (\<lambda>m. m\<lparr>mt_stale_served := mt_stale_served m + 1\<rparr>) st)
                       else st) in
             case msg_read (ap_lib A) (ce_raw_wire entry) of
               None \<Rightarrow> (None, st)
             | Some cached_msg \<Rightarrow>
                 (case respond A pq cached_msg (ce_dnssec_status entry) fresh (ce_cached_at entry) now of
                    None \<Rightarrow> (None, st)
                  | Some wire \<Rightarrow> (Some (challenge_or_send A pq protocol client_ip wire), st))))"

text \<open>The miss path up to the resolution, through the single flight when the cache is enabled.\<close>

definition resolve_miss ::
  "('n, 's, 'f) app \<Rightarrow> 'n parsed_query \<Rightarrow> 'n flight \<Rightarrow> ('n, 's, 'f) engine \<Rightarrow> 'n resolved option \<times> ('n, 's, 'f) engine" where
  "resolve_miss A pq flight st =
     (if \<not> cc_enabled (cache_config (ap_env A))
      then (case resolve_and_validate A (pq_qname pq) (pq_qtype pq) st of
              (Inr r, st) \<Rightarrow> (Some r, st)
            | (Inl e, st) \<Rightarrow> (None, st))
      else (case run_flight A flight (pq_cache_key pq) (pq_qname pq) (pq_qtype pq) st of
              ((result, is_leader), st) \<Rightarrow>
                (result,
                 if is_leader then bump (\<lambda>m. m\<lparr>mt_singleflight_leader := mt_singleflight_leader m + 1\<rparr>) st
                 else bump (\<lambda>m. m\<lparr>mt_singleflight_coalesced := mt_singleflight_coalesced m + 1\<rparr>) st)))"

definition finish_miss ::
  "('n, 's, 'f) app \<Rightarrow> 'n parsed_query \<Rightarrow> string \<Rightarrow> ip_addr \<Rightarrow> u64 \<Rightarrow> 'n resolved option \<Rightarrow> process_outcome" where
  "finish_miss A pq protocol client_ip now result =
     (case result of
        None \<Rightarrow> servfail A (pq_req_msg pq)
      | Some r \<Rightarrow>
          if rd_status r = Bogus \<and> ap_dnssec_enforce A \<and> \<not> m_cd (pq_req_msg pq) then servfail A (pq_req_msg pq)
          else case respond A pq (rd_msg r) (rd_status r) Fresh (rd_cached_at r) now of
                 None \<Rightarrow> servfail A (pq_req_msg pq)
               | Some wire \<Rightarrow> challenge_or_send A pq protocol client_ip wire)"

definition answer_query ::
  "('n, 's, 'f) app \<Rightarrow> 'n parsed_query \<Rightarrow> string \<Rightarrow> ip_addr \<Rightarrow> 'n flight \<Rightarrow> ('n, 's, 'f) engine \<Rightarrow> process_outcome \<times> ('n, 's, 'f) engine" where
  "answer_query A pq protocol client_ip flight st =
     (let now = now_of A st in
      case serve_cached A pq protocol client_ip now st of
        (Some out, st) \<Rightarrow> (out, st)
      | (None, st) \<Rightarrow>
          (case resolve_miss A pq flight st of
             (result, st) \<Rightarrow> (finish_miss A pq protocol client_ip now result, st)))"

definition geo_handles :: "('n, 's, 'f) app \<Rightarrow> 'n parsed_query \<Rightarrow> ('n, 's, 'f) engine \<Rightarrow> ('n, 'f) geo_state option" where
  "geo_handles A pq st =
     (case en_geo st of
        Some geo \<Rightarrow> if gc_enabled (gs_config geo) \<and> is_authoritative_for (ap_lib A) geo (pq_qname pq) then Some geo else None
      | None \<Rightarrow> None)"

definition process_dns_query ::
  "('n, 's, 'f) app \<Rightarrow> bytes \<Rightarrow> string \<Rightarrow> ip_addr \<Rightarrow> 'n flight \<Rightarrow> ('n, 's, 'f) engine \<Rightarrow> process_outcome \<times> ('n, 's, 'f) engine" where
  "process_dns_query A req_wire protocol client_ip flight st =
     (case parse_and_validate_query (ap_lib A) req_wire of
        None \<Rightarrow> (Out_Malformed, st)
      | Some pq \<Rightarrow>
          (case check_query (ap_lib A) (ap_now_millis A (rs_net (vs_net (en_dns st)))) protocol client_ip (pq_qname pq) (pq_qtype pq) (en_limiter st) of
             (action, rl) \<Rightarrow>
               (let st = st\<lparr>en_limiter := rl\<rparr> in
                case action of
                  Truncate \<Rightarrow> (truncated A (pq_req_msg pq), st)
                | Drop \<Rightarrow> (Out_Dropped, st)
                | Allow \<Rightarrow>
                    (case geo_handles A pq st of
                       Some geo \<Rightarrow>
                         (geo_answer (ap_lib A) (ap_f64 A) (now_of A st) geo (pq_qname pq) (pq_qtype pq)
                            (case pq_ecs_net pq of Some ip \<Rightarrow> ip | None \<Rightarrow> client_ip) (pq_req_msg pq) (pq_client_dnssec_ok pq), st)
                     | None \<Rightarrow> answer_query A pq protocol client_ip flight st))))"

section \<open>Prefetch\<close>

definition TRACKER_IDLE_PRUNE_SECS :: u64 where "TRACKER_IDLE_PRUNE_SECS = 600"
definition MAX_CONCURRENT_PREFETCH :: nat where "MAX_CONCURRENT_PREFETCH = 16"

fun splitn :: "nat \<Rightarrow> char \<Rightarrow> string \<Rightarrow> string list" where
  "splitn 0 c s = []"
| "splitn (Suc 0) c s = [s]"
| "splitn (Suc (Suc n)) c s =
     (case dropWhile (\<lambda>x. x \<noteq> c) s of
        [] \<Rightarrow> [s]
      | _ # rest \<Rightarrow> takeWhile (\<lambda>x. x \<noteq> c) s # splitn (Suc n) c rest)"

definition parse_key :: "('n, 's, 'f) app \<Rightarrow> string \<Rightarrow> ('n \<times> rtype) option" where
  "parse_key A key =
     (case splitn 3 (CHR '':'') key of
        [n, t, _] \<Rightarrow>
          (case n_from_str (ap_lib A) n of
             None \<Rightarrow> None
           | Some name \<Rightarrow> map_option (Pair name) (ap_rt_from_str A t))
      | _ \<Rightarrow> None)"

text \<open>Whether an entry is close enough to its end, \<open>now\<close> being the time of the tick.\<close>

definition near_expiry :: "env \<Rightarrow> u64 \<Rightarrow> cache_entry \<Rightarrow> bool" where
  "near_expiry env now e =
     (freshness env e now = Fresh \<and>
      (let total = ucast (ce_min_ttl e) :: u64;
           age = saturating_sub now (ce_cached_at e);
           remaining = saturating_sub total age;
           threshold = (total * ucast (cc_prefetch_threshold_pct (cache_config env))) div 100 in
       total \<noteq> 0 \<and> \<not> remaining > threshold))"

text \<open>The scan of the tracked keys; \<open>coin\<close> are the random choices of the tick.\<close>

fun prefetch_scan ::
  "env \<Rightarrow> (string \<Rightarrow> bool) \<Rightarrow> u64 \<Rightarrow> dns_cache \<Rightarrow> string list \<Rightarrow> hit_tracker \<Rightarrow> string list \<times> hit_tracker" where
  "prefetch_scan env coin now cache [] ht = ([], ht)"
| "prefetch_scan env coin now cache (key # keys) ht =
     (case dm_get cache key of
        None \<Rightarrow> prefetch_scan env coin now cache keys (reset_count key ht)
      | Some entry \<Rightarrow>
          (case prefetch_scan env coin now cache keys ht of (cs, ht') \<Rightarrow>
             if near_expiry env now entry \<and> should_prefetch key now (ucast (cc_prefetch_min_hits (cache_config env))) ht \<and> coin key
             then (key # cs, ht') else (cs, ht')))"

text \<open>The spawning loop: keys that do not parse are skipped, the first one without a permit ends it.\<close>

fun prefetch_spawn :: "('n, 's, 'f) app \<Rightarrow> string list \<Rightarrow> ('n, 's, 'f) engine \<Rightarrow> ('n, 's, 'f) engine" where
  "prefetch_spawn A [] st = st"
| "prefetch_spawn A (key # keys) st =
     (case parse_key A key of
        None \<Rightarrow> prefetch_spawn A keys st
      | Some (name, qtype) \<Rightarrow>
          if length (en_prefetches st) \<ge> MAX_CONCURRENT_PREFETCH then st
          else prefetch_spawn A keys
                 (bump (\<lambda>m. m\<lparr>mt_prefetch_attempts := mt_prefetch_attempts m + 1\<rparr>)
                    (st\<lparr>en_prefetches := en_prefetches st @ [\<lparr>tk_key = key, tk_name = name, tk_type = qtype\<rparr>]\<rparr>)))"

definition prefetch_tick :: "('n, 's, 'f) app \<Rightarrow> (string \<Rightarrow> bool) \<Rightarrow> ('n, 's, 'f) engine \<Rightarrow> ('n, 's, 'f) engine" where
  "prefetch_tick A coin st =
     (if \<not> cc_prefetch_enabled (cache_config (ap_env A)) then st
      else let now = now_of A st; ht = prune now TRACKER_IDLE_PRUNE_SECS (en_tracker st) in
           case prefetch_scan (ap_env A) coin now (en_cache st) (keys_snapshot ht) ht of
             (candidates, ht) \<Rightarrow> prefetch_spawn A candidates (st\<lparr>en_tracker := ht\<rparr>))"

definition prefetch_task :: "('n, 's, 'f) app \<Rightarrow> 'n task \<Rightarrow> 'n flight \<Rightarrow> ('n, 's, 'f) engine \<Rightarrow> ('n, 's, 'f) engine" where
  "prefetch_task A t flight st =
     (case run_flight A flight (tk_key t) (tk_name t) (tk_type t) st of
        ((result, is_leader), st) \<Rightarrow>
          if \<not> is_leader then st
          else case result of
            Some _ \<Rightarrow>
              (bump (\<lambda>m. m\<lparr>mt_prefetch_success := mt_prefetch_success m + 1\<rparr>) st)
                \<lparr>en_tracker := record_prefetch_success (now_of A st) (tk_key t) (en_tracker st)\<rparr>
          | None \<Rightarrow>
              (bump (\<lambda>m. m\<lparr>mt_prefetch_failure := mt_prefetch_failure m + 1\<rparr>) st)
                \<lparr>en_tracker := record_prefetch_failure (now_of A st) (tk_key t) (en_tracker st)\<rparr>)"

section \<open>Preload\<close>

definition preload_type :: "('n, 's, 'f) app \<Rightarrow> 'n \<Rightarrow> rtype \<Rightarrow> ('n, 's, 'f) engine \<Rightarrow> ('n, 's, 'f) engine" where
  "preload_type A name qtype st =
     (let L = ap_lib A; key = canonical_cache_key L name qtype in
      if dm_get (en_cache st) key \<noteq> None then st
      else case resolve_name A name qtype st of
        (Inl e, st) \<Rightarrow> st
      | (Inr msg, st) \<Rightarrow>
          if m_rcode msg = NoError \<or> m_rcode msg = NXDomain
          then (case validate A msg name qtype st of (status, st) \<Rightarrow>
                  if status = Bogus \<or> status = InsecureUnknown then st
                  else let kind = kind_of msg;
                           msg = msg\<lparr>m_id := 0, m_aa := False, m_ra := True, m_rd := False, m_cd := False, m_ad := (status = Secure)\<rparr> in
                    case msg_to_bytes L msg of
                      None \<Rightarrow> st
                    | Some wire \<Rightarrow>
                        (let now = now_of A st; ttl = calculate_cache_ttl msg status now in
                         if ttl > 0 then store_entry A key (entry_of wire ttl now status kind) st else st))
          else st)"

definition preload_domain :: "('n, 's, 'f) app \<Rightarrow> string \<Rightarrow> ('n, 's, 'f) engine \<Rightarrow> ('n, 's, 'f) engine" where
  "preload_domain A domain st =
     (let fqdn = (if domain \<noteq> [] \<and> last domain = CHR ''.'' then domain else domain @ ''.'') in
      case n_from_str (ap_lib A) fqdn of
        None \<Rightarrow> st
      | Some name \<Rightarrow> preload_type A name RT_AAAA (preload_type A name RT_A st))"

definition preload_domains :: "('n, 's, 'f) app \<Rightarrow> string list \<Rightarrow> ('n, 's, 'f) engine \<Rightarrow> ('n, 's, 'f) engine" where
  "preload_domains A domains st = fold (preload_domain A) domains st"

section \<open>Start-up\<close>

text \<open>\<open>i64::from_str\<close>.\<close>

definition parse_i64 :: "string \<Rightarrow> int option" where
  "parse_i64 s =
     (case s of
        c # cs \<Rightarrow>
          if c = CHR ''-'' then (if cs \<noteq> [] \<and> hd cs = CHR ''+'' then None else map_option (\<lambda>v. - int v) (parse_unsigned (2 ^ 63 + 1) cs))
          else map_option int (parse_unsigned (2 ^ 63) s)
      | [] \<Rightarrow> None)"

definition env_i64 :: "env \<Rightarrow> string \<Rightarrow> int \<Rightarrow> int" where
  "env_i64 env key def = (case Option.bind (env key) parse_i64 of Some v \<Rightarrow> v | None \<Rightarrow> def)"

definition dnssec_enforce :: "env \<Rightarrow> bool" where
  "dnssec_enforce env = (case env ''DNSSEC_ENFORCE'' of Some v \<Rightarrow> v \<noteq> ''0'' | None \<Rightarrow> True)"

text \<open>The state \<open>main\<close> builds before the listeners start: the cache as loaded from disk.\<close>

definition engine_start ::
  "('n, 's, 'f) app \<Rightarrow> ('j \<Rightarrow> cache_entry option) \<Rightarrow> 'j cache_file \<Rightarrow> ('n, 'f) geo_state option \<Rightarrow> 's rstate vstate \<Rightarrow> ('n, 's, 'f) engine" where
  "engine_start A from_value file geo dns =
     \<lparr>en_cache = load_cache_from_disk (ap_evict A) from_value (ap_env A) (net_now (ap_net A) (rs_net (vs_net dns))) file create_cache,
      en_limiter = rl_new (env_i64 (ap_env A) ''RATE_LIMIT_BURST'' 300) (env_i64 (ap_env A) ''RATE_LIMIT_PER_SEC'' 60),
      en_tracker = hit_tracker_init (ap_env A), en_metrics = metrics_default, en_geo = geo,
      en_in_flight = [], en_revalidations = [], en_prefetches = [], en_cells = [], en_dns = dns\<rparr>"

text \<open>One pass of the clean-up task of \<open>main\<close>, every five minutes.\<close>

definition limiter_cleanup :: "('n, 's, 'f) app \<Rightarrow> ('n, 's, 'f) engine \<Rightarrow> ('n, 's, 'f) engine" where
  "limiter_cleanup A st = st\<lparr>en_limiter := cleanup (ap_now_millis A (rs_net (vs_net (en_dns st)))) 900000 (en_limiter st)\<rparr>"

end
