(* ===== verification/Engine_Safety.thy ===== *)
theory Engine_Safety
  imports Engine Downgrade
begin

text \<open>
  The engine as a transition system and what holds in every state it can reach. A step is a query
  handled by a transport, a spawned task, a tick of the prefetch loop, a preloaded domain, the
  clean-up of the rate limiter, a geo heartbeat or health round, an eviction, or a change of the
  world below (time, network, delegation cache).
\<close>

section \<open>Steps\<close>

definition cell_value :: "('n, 's, 'f) engine \<Rightarrow> string \<Rightarrow> 'n flight \<Rightarrow> bool" where
  "cell_value st key flight \<longleftrightarrow> (case flight of Evaluate _ \<Rightarrow> True | Share v _ \<Rightarrow> (key, v) \<in> set (en_cells st))"

inductive engine_step :: "('n, 's, 'f) app \<Rightarrow> ('n, 's, 'f) engine \<Rightarrow> ('n, 's, 'f) engine \<Rightarrow> bool" for A :: "('n, 's, 'f) app" where
  step_query: "(\<And>pq. parse_and_validate_query (ap_lib A) wire = Some pq \<Longrightarrow> cell_value st (pq_cache_key pq) flight) \<Longrightarrow>
    process_dns_query A wire protocol client_ip flight st = (out, st') \<Longrightarrow> engine_step A st st'"
| step_revalidate: "en_revalidations st = pre @ t # post \<Longrightarrow>
    engine_step A st (revalidate A t (st\<lparr>en_revalidations := pre @ post\<rparr>))"
| step_tick: "engine_step A st (prefetch_tick A coin st)"
| step_prefetch: "en_prefetches st = pre @ t # post \<Longrightarrow> cell_value st (tk_key t) flight \<Longrightarrow>
    engine_step A st ((prefetch_task A t flight st)\<lparr>en_prefetches := pre @ post\<rparr>)"
| step_preload: "engine_step A st (preload_domain A domain st)"
| step_cleanup: "engine_step A st (limiter_cleanup A st)"
| step_heartbeat: "en_geo st = Some geo \<Longrightarrow> engine_step A st (st\<lparr>en_geo := Some (apply_peer_heartbeat (now_of A st) payload geo)\<rparr>)"
| step_health: "en_geo st = Some geo \<Longrightarrow>
    engine_step A st (st\<lparr>en_geo := Some (geo\<lparr>gs_health := health_round (now_of A st) probe (gc_nodes (gs_config geo)) (gs_health geo)\<rparr>)\<rparr>)"
| step_evict: "engine_step A st (st\<lparr>en_cache := ap_evict A (en_cache st)\<rparr>)"
| step_world: "engine_step A st (st\<lparr>en_dns := (en_dns st)\<lparr>vs_net := world\<rparr>\<rparr>)"

section \<open>The invariant\<close>

definition app_ok :: "('n, 's, 'f) app \<Rightarrow> bool" where
  "app_ok A \<longleftrightarrow> name_laws (ap_lib A) \<and> evict_ok (ap_evict A)"

text \<open>What an entry of the answer cache stands for.\<close>

definition entry_ok :: "'n lib \<Rightarrow> string \<Rightarrow> cache_entry \<Rightarrow> bool" where
  "entry_ok L key e \<longleftrightarrow> is_cacheable_dnssec (ce_dnssec_status e) \<and> ce_min_ttl e > 0 \<and>
     (\<exists>m n t. key = canonical_cache_key L n t \<and> msg_to_bytes L m = Some (ce_raw_wire e) \<and>
        is_cacheable m \<and> ce_kind e = kind_of m \<and> ce_min_ttl e \<le> calculate_min_ttl m \<and>
        (m_ad m \<longleftrightarrow> ce_dnssec_status e = Secure) \<and> justified L m n t (ce_dnssec_status e))"

definition resolved_ok :: "('n, 's, 'f) app \<Rightarrow> string \<Rightarrow> 'n resolved \<Rightarrow> bool" where
  "resolved_ok A key r \<longleftrightarrow> (\<exists>n t. (key = canonical_cache_key (ap_lib A) n t \<or> parse_key A key = Some (n, t)) \<and>
     justified (ap_lib A) (rd_msg r) n t (rd_status r))"

definition cells_sound :: "('n, 's, 'f) app \<Rightarrow> ('n, 's, 'f) engine \<Rightarrow> bool" where
  "cells_sound A st \<longleftrightarrow> (\<forall>(k, v) \<in> set (en_cells st). case v of Some r \<Rightarrow> resolved_ok A k r | None \<Rightarrow> True)"

definition core_inv :: "('n, 's, 'f) app \<Rightarrow> ('n, 's, 'f) engine \<Rightarrow> bool" where
  "core_inv A st \<longleftrightarrow> moka.every (ap_evict A) (entry_ok (ap_lib A)) (en_cache st) \<and> vinv (ap_lib A) (en_dns st) \<and> cells_sound A st"

definition keyed :: "('n, 's, 'f) app \<Rightarrow> 'n task \<Rightarrow> bool" where
  "keyed A t \<longleftrightarrow> tk_key t = canonical_cache_key (ap_lib A) (tk_name t) (tk_type t)"

definition gate_inv :: "('n, 's, 'f) app \<Rightarrow> ('n, 's, 'f) engine \<Rightarrow> bool" where
  "gate_inv A st \<longleftrightarrow> dm_ok (en_in_flight st) \<and> distinct (map tk_key (en_revalidations st)) \<and>
     set (map tk_key (en_revalidations st)) = {k. dm_get (en_in_flight st) k \<noteq> None} \<and>
     (\<forall>t \<in> set (en_revalidations st). keyed A t)"

definition load_inv :: "('n, 's, 'f) app \<Rightarrow> ('n, 's, 'f) engine \<Rightarrow> bool" where
  "load_inv A st \<longleftrightarrow> rl_ok (en_limiter st) \<and> ht_ok (en_tracker st) \<and> length (en_prefetches st) \<le> MAX_CONCURRENT_PREFETCH \<and>
     (\<forall>t \<in> set (en_prefetches st). parse_key A (tk_key t) = Some (tk_name t, tk_type t))"

definition engine_inv :: "('n, 's, 'f) app \<Rightarrow> ('n, 's, 'f) engine \<Rightarrow> bool" where
  "engine_inv A st \<longleftrightarrow> core_inv A st \<and> gate_inv A st \<and> load_inv A st"

lemmas engine_ops = now_of_def bump_def store_entry_def entry_of_def

section \<open>Frames\<close>

text \<open>The fields the resolution never touches.\<close>

definition control_same :: "('n, 's, 'f) engine \<Rightarrow> ('n, 's, 'f) engine \<Rightarrow> bool" where
  "control_same st st' \<longleftrightarrow> en_limiter st' = en_limiter st \<and> en_tracker st' = en_tracker st \<and> en_geo st' = en_geo st \<and>
     en_in_flight st' = en_in_flight st \<and> en_revalidations st' = en_revalidations st \<and> en_prefetches st' = en_prefetches st"

lemma control_same_refl [simp, intro]: "control_same st st"
  by (simp add: control_same_def)

lemma control_same_trans: "control_same a b \<Longrightarrow> control_same b c \<Longrightarrow> control_same a c"
  by (simp add: control_same_def)

lemma control_same_upd [simp]:
  "control_same st (st'\<lparr>en_dns := d\<rparr>) = control_same st st'" "control_same st (st'\<lparr>en_cells := c\<rparr>) = control_same st st'"
  "control_same st (bump f st') = control_same st st'" "control_same st (store_entry A k e st') = control_same st st'"
  by (simp_all add: control_same_def engine_ops)

lemma control_gate: "control_same st st' \<Longrightarrow> gate_inv A st' = gate_inv A st"
  by (simp add: control_same_def gate_inv_def)

lemma control_load: "control_same st st' \<Longrightarrow> load_inv A st' = load_inv A st"
  by (simp add: control_same_def load_inv_def)

lemma core_inv_frame [simp]:
  "core_inv A (st\<lparr>en_limiter := rl\<rparr>) = core_inv A st" "core_inv A (st\<lparr>en_tracker := ht\<rparr>) = core_inv A st"
  "core_inv A (st\<lparr>en_geo := g\<rparr>) = core_inv A st" "core_inv A (st\<lparr>en_in_flight := i\<rparr>) = core_inv A st"
  "core_inv A (st\<lparr>en_revalidations := ts\<rparr>) = core_inv A st" "core_inv A (st\<lparr>en_prefetches := ts\<rparr>) = core_inv A st"
  "core_inv A (bump f st) = core_inv A st" "core_inv A (st\<lparr>en_metrics := ms\<rparr>) = core_inv A st"
  by (simp_all add: core_inv_def cells_sound_def bump_def)

lemma core_inv_store:
  assumes "core_inv A st" and "entry_ok (ap_lib A) k e"
  shows "core_inv A (store_entry A k e st)"
  using assms by (simp add: core_inv_def cells_sound_def store_entry_def moka.every_put)

section \<open>Resolution\<close>

lemma resolve_name_inv:
  assumes "resolve_name A n t st = (r, st')"
  shows "control_same st st'" and "core_inv A st \<Longrightarrow> core_inv A st'"
  using assms by (auto simp: resolve_name_def fetch_def core_inv_def cells_sound_def split: prod.splits)

lemma validate_inv:
  assumes "app_ok A" and "validate A msg n t st = (status, st')"
  shows "control_same st st'" and "core_inv A st \<Longrightarrow> core_inv A st'"
    and "core_inv A st \<Longrightarrow> justified (ap_lib A) msg n t status"
proof -
  obtain d where v: "validate_message (ap_lib A) (resolve (ap_lib A) (ap_net A)) (\<lambda>s. net_now (ap_net A) (rs_net s)) msg n t (en_dns st) = (status, d)"
    and st': "st' = st\<lparr>en_dns := d\<rparr>"
    using assms(2) by (auto simp: validate_def split: prod.splits)
  show "control_same st st'" by (simp add: st')
  have L: "name_laws (ap_lib A)" using assms(1) by (simp add: app_ok_def)
  show "core_inv A st'" if "core_inv A st"
    using that validate_message_justified [OF L _ v] by (simp add: st' core_inv_def cells_sound_def)
  show "justified (ap_lib A) msg n t status" if "core_inv A st"
    using that validate_message_justified [OF L _ v] by (simp add: core_inv_def)
qed

lemma entry_ok_new:
  assumes "is_cacheable msg" and "is_cacheable_dnssec status" and "calculate_cache_ttl msg status now > 0"
    and "msg_to_bytes L msg = Some wire" and "m_ad msg \<longleftrightarrow> status = Secure" and "justified L msg n t status"
  shows "entry_ok L (canonical_cache_key L n t) (entry_of wire (calculate_cache_ttl msg status now) now status (kind_of msg))"
  unfolding entry_ok_def entry_of_def using assms calculate_cache_ttl_le [of msg status now] by auto

lemma resolve_and_validate_inv:
  assumes ok: "app_ok A" and rv: "resolve_and_validate A n t st = (r, st')"
  shows "control_same st st'" and "core_inv A st \<Longrightarrow> core_inv A st'"
    and "core_inv A st \<Longrightarrow> r = Inr x \<Longrightarrow> justified (ap_lib A) (rd_msg x) n t (rd_status x)"
proof -
  obtain r1 st1 where r1: "resolve_name A n t st = (r1, st1)" by (metis surj_pair)
  note i1 = resolve_name_inv [OF r1]
  have "control_same st st' \<and> (core_inv A st \<longrightarrow> core_inv A st') \<and>
    (core_inv A st \<longrightarrow> r = Inr x \<longrightarrow> justified (ap_lib A) (rd_msg x) n t (rd_status x))"
  proof (cases r1)
    case (Inl e)
    with rv r1 i1 show ?thesis by (auto simp: resolve_and_validate_def)
  next
    case (Inr msg)
    obtain status st2 where v: "validate A msg n t st1 = (status, st2)" by (metis surj_pair)
    note i2 = validate_inv [OF ok v]
    define m where "m = msg\<lparr>m_ad := (status = Secure), m_aa := False, m_ra := True\<rparr>"
    let ?k = "canonical_cache_key (ap_lib A) n t" and ?ttl = "calculate_cache_ttl m status (now_of A st2)"
    have sec: "core_inv A st \<Longrightarrow> justified (ap_lib A) m n t status" using i1(2) i2(3) by (simp add: m_def)
    have ins: "core_inv A (store_entry A ?k (entry_of wire ?ttl (now_of A st2) status (kind_of m)) st2)"
      if "core_inv A st" "is_cacheable m" "is_cacheable_dnssec status" "msg_to_bytes (ap_lib A) m = Some wire" "?ttl > 0" for wire
      by (rule core_inv_store [OF i2(2) [OF i1(2) [OF that(1)]]], rule entry_ok_new [OF that(2,3,5,4) _ sec [OF that(1)]]) (simp add: m_def)
    have cs: "control_same st st2" using i1(1) i2(1) by (rule control_same_trans)
    from rv r1 Inr v have rr: "r = Inr \<lparr>rd_msg = m, rd_status = status, rd_cached_at = now_of A st2\<rparr>"
      by (simp add: resolve_and_validate_def Let_def m_def)
    have "control_same st st' \<and> (core_inv A st \<longrightarrow> core_inv A st')"
      using rv r1 Inr v cs ins i1(2) i2(2)
      by (auto simp: resolve_and_validate_def Let_def m_def [symmetric] split: if_splits option.splits)
    with rr sec show ?thesis by auto
  qed
  then show "control_same st st'" "core_inv A st \<Longrightarrow> core_inv A st'"
    "core_inv A st \<Longrightarrow> r = Inr x \<Longrightarrow> justified (ap_lib A) (rd_msg x) n t (rd_status x)" by blast+
qed

section \<open>Flights\<close>

definition known_key :: "('n, 's, 'f) app \<Rightarrow> string \<Rightarrow> 'n \<Rightarrow> rtype \<Rightarrow> bool" where
  "known_key A key n t \<longleftrightarrow> key = canonical_cache_key (ap_lib A) n t \<or> parse_key A key = Some (n, t)"

lemma run_flight_inv:
  assumes ok: "app_ok A" and fl: "run_flight A flight key n t st = ((v, l), st')"
    and kk: "known_key A key n t" and cv: "cell_value st key flight"
  shows "control_same st st'" and "core_inv A st \<Longrightarrow> core_inv A st'"
    and "core_inv A st \<Longrightarrow> v = Some r \<Longrightarrow> resolved_ok A key r"
proof -
  have "control_same st st' \<and> (core_inv A st \<longrightarrow> core_inv A st' \<and> (case v of Some r \<Rightarrow> resolved_ok A key r | None \<Rightarrow> True))"
  proof (cases flight)
    case (Evaluate b)
    obtain r1 st1 where rv: "resolve_and_validate A n t st = (r1, st1)" by (metis surj_pair)
    note i = resolve_and_validate_inv [OF ok rv]
    have v: "v = (case r1 of Inr x \<Rightarrow> Some x | Inl _ \<Rightarrow> None)" "st' = st1\<lparr>en_cells := (key, v) # en_cells st1\<rparr>"
      using fl Evaluate rv by (auto simp: evaluate_flight_def Let_def)
    have "case v of Some r \<Rightarrow> resolved_ok A key r | None \<Rightarrow> True" if "core_inv A st"
      using i(3) [OF that] kk by (cases r1) (auto simp: v(1) resolved_ok_def known_key_def)
    with v(2) i(1,2) show ?thesis by (auto simp: core_inv_def cells_sound_def)
  next
    case (Share w b)
    with fl cv show ?thesis by (auto simp: cell_value_def core_inv_def cells_sound_def)
  qed
  then show "control_same st st'" "core_inv A st \<Longrightarrow> core_inv A st'" "core_inv A st \<Longrightarrow> v = Some r \<Longrightarrow> resolved_ok A key r"
    by auto
qed

section \<open>Revalidation\<close>

lemma refresh_stale_inv:
  assumes "core_inv A st" and "tk_key t = canonical_cache_key (ap_lib A) (tk_name t) (tk_type t)"
    and "justified (ap_lib A) msg (tk_name t) (tk_type t) status"
  shows "core_inv A (refresh_stale A t msg status st)"
proof -
  define m where "m = msg\<lparr>m_ad := (status = Secure), m_aa := False, m_ra := True\<rparr>"
  have "core_inv A (store_entry A (tk_key t) (entry_of wire (calculate_cache_ttl m status now) now status (kind_of m)) st)"
    if "is_cacheable m" "is_cacheable_dnssec status" "msg_to_bytes (ap_lib A) m = Some wire" "calculate_cache_ttl m status now > 0" for wire now
    unfolding assms(2)
    by (rule core_inv_store [OF assms(1)], rule entry_ok_new [OF that(1,2,4,3)]) (use assms(3) in \<open>simp_all add: m_def\<close>)
  moreover have "core_inv A (store_entry A k (e\<lparr>ce_last_revalidated_at := now\<rparr>) st)" if "dm_get (en_cache st) k = Some e" for k e now
  proof (rule core_inv_store [OF assms(1)])
    have "entry_ok (ap_lib A) k e" using assms(1) that by (auto simp: core_inv_def intro: moka.everyD)
    then show "entry_ok (ap_lib A) k (e\<lparr>ce_last_revalidated_at := now\<rparr>)" by (simp add: entry_ok_def)
  qed
  moreover have "is_cacheable (msg\<lparr>m_ad := (status = Secure)\<rparr>) = is_cacheable m" by (simp add: is_cacheable_def m_def)
  ultimately show ?thesis using assms(1)
    by (auto simp: refresh_stale_def Let_def m_def [symmetric] split: option.splits)
qed

lemma refresh_stale_control: "control_same st (refresh_stale A t msg status st)"
  by (auto simp: refresh_stale_def Let_def split: option.splits)

lemma revalidate_inv:
  assumes ok: "app_ok A" and inv: "core_inv A st" and key: "tk_key t = canonical_cache_key (ap_lib A) (tk_name t) (tk_type t)"
  shows "core_inv A (revalidate A t st)"
    and "\<exists>st1. control_same st st1 \<and> revalidate A t st = st1\<lparr>en_in_flight := dm_remove (tk_key t) (en_in_flight st)\<rparr>"
proof -
  obtain r1 st1 where r1: "resolve_name A (tk_name t) (tk_type t) st = (r1, st1)" by (metis surj_pair)
  note i1 = resolve_name_inv [OF r1]
  have "\<exists>st2. control_same st st2 \<and> core_inv A st2 \<and> revalidate A t st = st2\<lparr>en_in_flight := dm_remove (tk_key t) (en_in_flight st2)\<rparr>"
  proof (cases r1)
    case (Inl e)
    with r1 i1 inv show ?thesis by (auto simp: revalidate_def)
  next
    case (Inr msg)
    obtain status st2 where v: "validate A msg (tk_name t) (tk_type t) st1 = (status, st2)" by (metis surj_pair)
    note i2 = validate_inv [OF ok v]
    let ?st = "if status = Bogus then st2 else refresh_stale A t msg status st2"
    have "control_same st st2" by (rule control_same_trans [OF i1(1) i2(1)])
    then have "control_same st ?st" using control_same_trans [OF _ refresh_stale_control] by auto
    moreover have "core_inv A ?st" using i2(2,3) [OF i1(2) [OF inv]] refresh_stale_inv [OF _ key] by simp
    ultimately show ?thesis using r1 Inr v by (intro exI [of _ ?st]) (auto simp: revalidate_def Let_def)
  qed
  then show "core_inv A (revalidate A t st)"
    and "\<exists>st1. control_same st st1 \<and> revalidate A t st = st1\<lparr>en_in_flight := dm_remove (tk_key t) (en_in_flight st)\<rparr>"
    by (auto simp: control_same_def)
qed

lemma gate_inv_spawn:
  assumes "gate_inv A st" and "key = canonical_cache_key (ap_lib A) n t"
  shows "gate_inv A (spawn_revalidation key n t st)"
proof (cases "dm_get (en_in_flight st) key")
  case None
  have k: "set (map tk_key (en_revalidations st)) = {k. dm_get (en_in_flight st) k \<noteq> None}" using assms(1) by (simp add: gate_inv_def)
  with None have "key \<notin> set (map tk_key (en_revalidations st))" by simp
  moreover have "insert key (set (map tk_key (en_revalidations st))) = {k. dm_get (dm_insert key () (en_in_flight st)) k \<noteq> None}"
    unfolding k by (auto simp: dm.get_insert)
  ultimately show ?thesis using assms None by (simp add: spawn_revalidation_def gate_inv_def Let_def dm.ok_insert keyed_def)
next
  case (Some u)
  then have "{k. dm_get (dm_insert key () (en_in_flight st)) k \<noteq> None} = {k. dm_get (en_in_flight st) k \<noteq> None}"
    by (auto simp: dm.get_insert)
  with assms(1) Some show ?thesis by (simp add: spawn_revalidation_def gate_inv_def Let_def dm.ok_insert)
qed

lemma gate_inv_done:
  assumes gate: "gate_inv A st" and ts: "en_revalidations st = pre @ t # post"
    and cs: "control_same (st\<lparr>en_revalidations := pre @ post\<rparr>) st1"
  shows "gate_inv A (st1\<lparr>en_in_flight := dm_remove (tk_key t) (en_in_flight st)\<rparr>)"
proof -
  have ok: "dm_ok (en_in_flight st)" and d: "distinct (map tk_key (pre @ t # post))"
    and k: "set (map tk_key (pre @ t # post)) = {k. dm_get (en_in_flight st) k \<noteq> None}"
    using gate unfolding gate_inv_def ts by simp_all
  have rv: "en_revalidations st1 = pre @ post" using cs by (simp add: control_same_def)
  have "set (map tk_key (pre @ post)) = {k. dm_get (dm_remove (tk_key t) (en_in_flight st)) k \<noteq> None}"
  proof -
    have "set (map tk_key (pre @ post)) = set (map tk_key (pre @ t # post)) - {tk_key t}" using d by auto
    also have "\<dots> = {k. dm_get (dm_remove (tk_key t) (en_in_flight st)) k \<noteq> None}"
      unfolding k by (auto simp: dm.get_remove [OF ok])
    finally show ?thesis .
  qed
  moreover have "\<forall>x \<in> set (pre @ post). keyed A x" using gate unfolding gate_inv_def ts by simp
  ultimately show ?thesis using ok d by (simp add: gate_inv_def rv dm.ok_remove)
qed

section \<open>Queries\<close>

lemma serve_cached_inv:
  assumes "serve_cached A pq protocol ip now st = (out, st')" and "engine_inv A st"
    and "pq_cache_key pq = canonical_cache_key (ap_lib A) (pq_qname pq) (pq_qtype pq)"
  shows "engine_inv A st'"
proof -
  have g: "gate_inv A (bump f s) = gate_inv A s" "load_inv A (bump f s) = load_inv A s"
    "gate_inv A (s\<lparr>en_tracker := h\<rparr>) = gate_inv A s" for f s h
    by (simp_all add: gate_inv_def load_inv_def bump_def)
  have b: "engine_inv A (bump f s) = engine_inv A s" for f s by (simp add: engine_inv_def g)
  have sp: "engine_inv A (spawn_revalidation (pq_cache_key pq) (pq_qname pq) (pq_qtype pq) s)" if "engine_inv A s" for s
  proof -
    have "core_inv A (spawn_revalidation k n t s) = core_inv A s" "load_inv A (spawn_revalidation k n t s) = load_inv A s" for k n t
      by (simp_all add: spawn_revalidation_def Let_def load_inv_def)
    with that gate_inv_spawn [OF _ assms(3)] show ?thesis by (simp add: engine_inv_def)
  qed
  have r: "engine_inv A (s\<lparr>en_tracker := ht_record now k (en_tracker s)\<rparr>)" if "engine_inv A s" for s k
    using that ht_record_ok [of "en_tracker s" now k] by (simp add: engine_inv_def g load_inv_def)
  show ?thesis using assms(1,2) sp b r
    by (auto simp: serve_cached_def Let_def split: if_splits option.splits)
qed

lemma engine_control:
  "control_same st st' \<Longrightarrow> core_inv A st' \<Longrightarrow> engine_inv A st \<Longrightarrow> engine_inv A st'"
  by (simp add: engine_inv_def control_gate control_load)

lemma engine_bump [simp]: "engine_inv A (bump f st) = engine_inv A st"
  by (simp add: engine_inv_def gate_inv_def load_inv_def) (simp add: bump_def)

lemma resolve_miss_inv:
  assumes ok: "app_ok A" and rm: "resolve_miss A pq flight st = (v, st')" and inv: "engine_inv A st"
    and key: "pq_cache_key pq = canonical_cache_key (ap_lib A) (pq_qname pq) (pq_qtype pq)" and cv: "cell_value st (pq_cache_key pq) flight"
  shows "engine_inv A st'" and "v = Some r \<Longrightarrow> resolved_ok A (pq_cache_key pq) r"
proof -
  have core: "core_inv A st" using inv by (simp add: engine_inv_def)
  have "engine_inv A st' \<and> (v = Some r \<longrightarrow> resolved_ok A (pq_cache_key pq) r)"
  proof (cases "cc_enabled (cache_config (ap_env A))")
    case True
    obtain w l st1 where f: "run_flight A flight (pq_cache_key pq) (pq_qname pq) (pq_qtype pq) st = ((w, l), st1)" by (metis surj_pair)
    have "known_key A (pq_cache_key pq) (pq_qname pq) (pq_qtype pq)" by (simp add: known_key_def key)
    note i = run_flight_inv [OF ok f this cv]
    have "engine_inv A st1" by (rule engine_control [OF i(1) i(2) [OF core] inv])
    with True rm f i(3) [OF core] show ?thesis by (auto simp: resolve_miss_def split: if_splits)
  next
    case False
    obtain x st1 where f: "resolve_and_validate A (pq_qname pq) (pq_qtype pq) st = (x, st1)" by (metis surj_pair)
    note i = resolve_and_validate_inv [OF ok f]
    have "engine_inv A st1" by (rule engine_control [OF i(1) i(2) [OF core] inv])
    with False rm f i(3) [OF core] key show ?thesis by (cases x) (auto simp: resolve_miss_def resolved_ok_def)
  qed
  then show "engine_inv A st'" "v = Some r \<Longrightarrow> resolved_ok A (pq_cache_key pq) r" by blast+
qed

lemma parse_key_canonical:
  "parse_and_validate_query L wire = Some pq \<Longrightarrow> pq_cache_key pq = canonical_cache_key L (pq_qname pq) (pq_qtype pq)"
  by (auto simp: parse_and_validate_query_def split: option.splits list.splits)

lemma serve_cached_cells: "serve_cached A pq protocol ip now st = (out, st') \<Longrightarrow> en_cells st' = en_cells st"
  by (auto simp: serve_cached_def Let_def bump_def spawn_revalidation_def split: if_splits option.splits)

lemma answer_query_inv:
  assumes ok: "app_ok A" and aq: "answer_query A pq protocol ip flight st = (out, st')" and inv: "engine_inv A st"
    and key: "pq_cache_key pq = canonical_cache_key (ap_lib A) (pq_qname pq) (pq_qtype pq)" and cv: "cell_value st (pq_cache_key pq) flight"
  shows "engine_inv A st'"
proof -
  obtain o1 st1 where s: "serve_cached A pq protocol ip (now_of A st) st = (o1, st1)" by (metis surj_pair)
  note i1 = serve_cached_inv [OF s inv key]
  obtain v st2 where m: "resolve_miss A pq flight st1 = (v, st2)" by (metis surj_pair)
  have "cell_value st1 (pq_cache_key pq) flight" using cv serve_cached_cells [OF s] by (simp add: cell_value_def split: flight.splits)
  from resolve_miss_inv(1) [OF ok m i1 key this] i1 aq s m show ?thesis
    by (cases o1) (auto simp: answer_query_def Let_def)
qed

lemma engine_limiter:
  "engine_inv A st \<Longrightarrow> rl_ok rl \<Longrightarrow> engine_inv A (st\<lparr>en_limiter := rl\<rparr>)"
  by (simp add: engine_inv_def gate_inv_def load_inv_def)

lemma engine_geo: "engine_inv A (st\<lparr>en_geo := g\<rparr>) = engine_inv A st"
  by (simp add: engine_inv_def gate_inv_def load_inv_def)

lemma process_dns_query_inv:
  assumes ok: "app_ok A" and pr: "process_dns_query A wire protocol ip flight st = (out, st')" and inv: "engine_inv A st"
    and cv: "\<And>pq. parse_and_validate_query (ap_lib A) wire = Some pq \<Longrightarrow> cell_value st (pq_cache_key pq) flight"
  shows "engine_inv A st'"
proof (cases "parse_and_validate_query (ap_lib A) wire")
  case None
  with pr inv show ?thesis by (simp add: process_dns_query_def)
next
  case (Some pq)
  obtain act rl where c: "check_query (ap_lib A) (ap_now_millis A (rs_net (vs_net (en_dns st)))) protocol ip (pq_qname pq) (pq_qtype pq) (en_limiter st) = (act, rl)"
    by (metis surj_pair)
  have "rl_ok (en_limiter st)" using inv by (simp add: engine_inv_def load_inv_def)
  then have "rl_ok rl" using rl_ok_check_query c by (metis snd_conv)
  then have i: "engine_inv A (st\<lparr>en_limiter := rl\<rparr>)" by (rule engine_limiter [OF inv])
  have "cell_value (st\<lparr>en_limiter := rl\<rparr>) (pq_cache_key pq) flight" using cv [OF Some] by (simp add: cell_value_def split: flight.splits)
  note a = answer_query_inv [OF ok _ i parse_key_canonical [OF Some] this]
  from pr Some c i a show ?thesis by (auto simp: process_dns_query_def Let_def split: rrl_action.splits option.splits)
qed

section \<open>Prefetch and preload\<close>

lemma prefetch_scan_ok: "prefetch_scan env coin now cache keys ht = (cs, ht') \<Longrightarrow> ht_ok ht \<Longrightarrow> ht_ok ht'"
  by (induction keys arbitrary: ht cs ht')
    (auto simp: reset_count_def ht_modify_ok split: option.splits prod.splits if_splits)

lemma prefetch_spawn_inv: "engine_inv A st \<Longrightarrow> engine_inv A (prefetch_spawn A keys st)"
proof (induction keys arbitrary: st)
  case (Cons key keys)
  show ?case
  proof (cases "parse_key A key")
    case None
    with Cons show ?thesis by simp
  next
    case (Some nt)
    obtain n t where nt: "nt = (n, t)" by (cases nt)
    have "engine_inv A (st\<lparr>en_prefetches := en_prefetches st @ [\<lparr>tk_key = key, tk_name = n, tk_type = t\<rparr>]\<rparr>)"
      if "length (en_prefetches st) < MAX_CONCURRENT_PREFETCH"
      using Cons.prems that Some nt by (auto simp: engine_inv_def gate_inv_def load_inv_def)
    with Cons Some nt show ?thesis by (simp add: not_le)
  qed
qed simp

lemma prefetch_tick_inv:
  assumes "engine_inv A st"
  shows "engine_inv A (prefetch_tick A coin st)"
proof -
  have "engine_inv A (st\<lparr>en_tracker := ht\<rparr>)" if "ht_ok ht" for ht
    using assms that by (simp add: engine_inv_def gate_inv_def load_inv_def)
  moreover have "ht_ok (prune (now_of A st) TRACKER_IDLE_PRUNE_SECS (en_tracker st))"
    using assms by (intro prune_ok) (simp add: engine_inv_def load_inv_def)
  ultimately show ?thesis using assms
    by (auto simp: prefetch_tick_def Let_def split: prod.splits intro!: prefetch_spawn_inv dest: prefetch_scan_ok)
qed

lemma prefetch_task_inv:
  assumes ok: "app_ok A" and inv: "engine_inv A st" and ts: "en_prefetches st = pre @ t # post" and cv: "cell_value st (tk_key t) flight"
  shows "engine_inv A ((prefetch_task A t flight st)\<lparr>en_prefetches := pre @ post\<rparr>)"
proof -
  obtain v l st1 where f: "run_flight A flight (tk_key t) (tk_name t) (tk_type t) st = ((v, l), st1)" by (metis surj_pair)
  have "known_key A (tk_key t) (tk_name t) (tk_type t)" using inv ts by (simp add: engine_inv_def load_inv_def known_key_def)
  note i = run_flight_inv [OF ok f this cv]
  have i1: "engine_inv A st1" using inv by (intro engine_control [OF i(1) i(2)]) (simp_all add: engine_inv_def)
  then have "engine_inv A (s\<lparr>en_tracker := ht, en_prefetches := pre @ post\<rparr>)" if "ht_ok ht" "s = bump f st1" for s ht f
    using that ts i(1) by (auto simp: engine_inv_def gate_inv_def load_inv_def control_same_def bump_def)
  moreover have "engine_inv A (st1\<lparr>en_prefetches := pre @ post\<rparr>)"
    using i1 ts i(1) by (auto simp: engine_inv_def gate_inv_def load_inv_def control_same_def)
  moreover have "ht_ok (record_prefetch_success n k (en_tracker st1))" "ht_ok (record_prefetch_failure n k (en_tracker st1))" for n k
    using i1 by (simp_all add: record_prefetch_success_def record_prefetch_failure_def ht_modify_ok engine_inv_def load_inv_def)
  ultimately show ?thesis using f by (cases v) (auto simp: prefetch_task_def)
qed

lemma preload_type_inv:
  assumes ok: "app_ok A" and inv: "engine_inv A st"
  shows "engine_inv A (preload_type A n t st)"
proof -
  have core: "core_inv A st" using inv by (simp add: engine_inv_def)
  obtain r1 st1 where r1: "resolve_name A n t st = (r1, st1)" by (metis surj_pair)
  note i1 = resolve_name_inv [OF r1]
  have e1: "engine_inv A st1" by (rule engine_control [OF i1(1) i1(2) [OF core] inv])
  show ?thesis
  proof (cases r1)
    case (Inl e)
    with r1 inv e1 show ?thesis by (simp add: preload_type_def Let_def)
  next
    case (Inr msg)
    obtain status st2 where v: "validate A msg n t st1 = (status, st2)" by (metis surj_pair)
    note i2 = validate_inv [OF ok v]
    have e2: "engine_inv A st2" using e1 by (intro engine_control [OF i2(1) i2(2)]) (simp_all add: engine_inv_def)
    define m where "m = msg\<lparr>m_id := 0, m_aa := False, m_ra := True, m_rd := False, m_cd := False, m_ad := (status = Secure)\<rparr>"
    have kind: "kind_of msg = kind_of m" "is_cacheable msg = is_cacheable m" by (simp_all add: kind_of_def is_cacheable_def m_def)
    have "engine_inv A (store_entry A (canonical_cache_key (ap_lib A) n t) (entry_of wire (calculate_cache_ttl m status now) now status (kind_of m)) st2)"
      if "is_cacheable m" "status \<noteq> Bogus" "status \<noteq> InsecureUnknown" "msg_to_bytes (ap_lib A) m = Some wire" "calculate_cache_ttl m status now > 0" for wire now
    proof (rule engine_control [OF _ core_inv_store e2])
      have "is_cacheable_dnssec status" using that(2,3) by (cases status) (auto simp: is_cacheable_dnssec_def)
      then show "entry_ok (ap_lib A) (canonical_cache_key (ap_lib A) n t) (entry_of wire (calculate_cache_ttl m status now) now status (kind_of m))"
        by (intro entry_ok_new [OF that(1) _ that(5,4)]) (use i2(3) i1(2) [OF core] in \<open>auto simp: m_def\<close>)
    qed (use e2 in \<open>simp_all add: engine_inv_def\<close>)
    with inv e1 e2 r1 Inr v show ?thesis
      by (auto simp: preload_type_def Let_def m_def [symmetric] kind is_cacheable_def [symmetric] split: option.splits)
  qed
qed

section \<open>Start\<close>

text \<open>The state at start-up, with a cache file that holds answers in the sense of \<open>entry_ok\<close> (what
  the program itself writes), and a token capacity that is not negative and below \<open>2^62\<close>.\<close>

definition file_ok :: "'n lib \<Rightarrow> ('j \<Rightarrow> cache_entry option) \<Rightarrow> 'j cache_file \<Rightarrow> bool" where
  "file_ok L from_value file \<longleftrightarrow>
     (case file of Json_Object raw \<Rightarrow> \<forall>(k, v) \<in> set raw. (case from_value v of Some e \<Rightarrow> entry_ok L k e | None \<Rightarrow> True) | _ \<Rightarrow> True)"

definition engine_init :: "('n, 's, 'f) app \<Rightarrow> ('n, 's, 'f) engine \<Rightarrow> bool" where
  "engine_init A st \<longleftrightarrow>
     0 \<le> env_i64 (ap_env A) ''RATE_LIMIT_BURST'' 300 \<and> env_i64 (ap_env A) ''RATE_LIMIT_BURST'' 300 < 2 ^ 62 \<and>
     (\<exists>file geo dns. file_ok (ap_lib A) Some file \<and> vinv (ap_lib A) dns \<and> st = engine_start A Some file geo dns)"

lemma load_entries_every:
  assumes "moka.every evict Q c" and "\<And>k v e. (k, v) \<in> set raw \<Longrightarrow> from_value v = Some e \<Longrightarrow> Q k e"
  shows "moka.every evict Q (load_entries evict from_value now ms raw c)"
  using assms unfolding load_entries_def
proof (induction raw arbitrary: c)
  case (Cons kv raw)
  obtain k v where kv: "kv = (k, v)" by (cases kv)
  let ?c = "case from_value v of None \<Rightarrow> c | Some e \<Rightarrow> if freshness_at e now ms = Expired then c else cache_insert evict k e c"
  have "moka.every evict Q ?c"
    using Cons.prems kv by (cases "from_value v") (auto intro: moka.every_put)
  from Cons.IH [OF this] have "moka.every evict Q (fold (\<lambda>(k, v) c. case from_value v of None \<Rightarrow> c
      | Some e \<Rightarrow> if freshness_at e now ms = Expired then c else cache_insert evict k e c) raw ?c)"
    using Cons.prems(2) by (meson list.set_intros(2))
  then show ?case by (simp add: kv)
qed simp

lemma engine_init_inv:
  assumes "app_ok A" and "engine_init A st"
  shows "engine_inv A st"
proof -
  obtain src geo dns where f: "file_ok (ap_lib A) Some src" and d: "vinv (ap_lib A) dns" and st: "st = engine_start A Some src geo dns"
    and cap: "0 \<le> env_i64 (ap_env A) ''RATE_LIMIT_BURST'' 300" "env_i64 (ap_env A) ''RATE_LIMIT_BURST'' 300 < 2 ^ 62"
    using assms(2) by (auto simp: engine_init_def)
  have e: "moka.every (ap_evict A) (entry_ok (ap_lib A)) create_cache"
    unfolding moka.every_def using assms(1) by (simp add: create_cache_def app_ok_def)
  have "moka.every (ap_evict A) (entry_ok (ap_lib A)) (load_cache_from_disk (ap_evict A) Some env now src create_cache)" for env now
  proof (cases src)
    case (Json_Object raw)
    with f have "\<And>k v e. (k, v) \<in> set raw \<Longrightarrow> Some v = Some e \<Longrightarrow> entry_ok (ap_lib A) k e" by (auto simp: file_ok_def)
    then have "moka.every (ap_evict A) (entry_ok (ap_lib A)) (load_entries (ap_evict A) Some now (max_stale_secs env) raw create_cache)"
      by (intro load_entries_every [OF e])
    with Json_Object show ?thesis by (simp add: load_cache_from_disk_def)
  qed (use e in \<open>simp_all add: load_cache_from_disk_def\<close>)
  with d have "core_inv A st" by (simp add: st engine_start_def core_inv_def cells_sound_def)
  moreover have "gate_inv A st" by (simp add: st engine_start_def gate_inv_def)
  moreover have "load_inv A st" using cap
    by (simp add: st engine_start_def load_inv_def rl_ok_def rl_new_def hit_tracker_init_def ht_ok_def ht_new_def MAX_CONCURRENT_PREFETCH_def)
  ultimately show ?thesis by (simp add: engine_inv_def)
qed

interpretation eng: transition_system "\<lambda>st. app_ok A \<and> engine_init A st" "engine_step A" "\<lambda>st. app_ok A \<longrightarrow> engine_inv A st" for A
proof unfold_locales
  fix s s' assume inv: "app_ok A \<longrightarrow> engine_inv A s" and st: "engine_step A s s'"
  show "app_ok A \<longrightarrow> engine_inv A s'"
  proof
    assume ok: "app_ok A"
    with inv have i: "engine_inv A s" by simp
    from st show "engine_inv A s'"
    proof cases
      case step_query
      then show ?thesis using process_dns_query_inv [OF ok _ i] by blast
    next
      case (step_revalidate pre t post)
      have core: "core_inv A (s\<lparr>en_revalidations := pre @ post\<rparr>)" and key: "tk_key t = canonical_cache_key (ap_lib A) (tk_name t) (tk_type t)"
        using i step_revalidate by (simp_all add: engine_inv_def gate_inv_def keyed_def)
      note r = revalidate_inv [OF ok core key]
      from r(2) obtain st1 where cs: "control_same (s\<lparr>en_revalidations := pre @ post\<rparr>) st1"
        and s': "s' = st1\<lparr>en_in_flight := dm_remove (tk_key t) (en_in_flight s)\<rparr>" using step_revalidate by auto
      have "load_inv A s'" using i cs by (simp add: s' engine_inv_def load_inv_def control_same_def)
      with r(1) gate_inv_done [OF _ step_revalidate(2) cs] i step_revalidate s' show ?thesis by (simp add: engine_inv_def)
    next
      case step_evict
      have e: "evict_ok (ap_evict A)" using ok by (simp add: app_ok_def)
      have "moka.every (ap_evict A) (entry_ok (ap_lib A)) (ap_evict A (en_cache s))"
        using i e evict_okD [OF e] unfolding engine_inv_def core_inv_def moka.every_def by blast
      with i step_evict show ?thesis by (simp add: engine_inv_def core_inv_def gate_inv_def load_inv_def cells_sound_def)
    next
      case step_cleanup
      have "rl_ok (en_limiter s)" using i by (simp add: engine_inv_def load_inv_def)
      with step_cleanup i show ?thesis by (simp add: limiter_cleanup_def engine_limiter rl_ok_cleanup)
    next
      case step_preload
      with i show ?thesis
        by (auto simp: preload_domain_def Let_def split: option.splits intro!: preload_type_inv [OF ok])
    next
      case step_tick
      with i show ?thesis by (simp add: prefetch_tick_inv)
    next
      case step_prefetch
      then show ?thesis using prefetch_task_inv [OF ok i] by blast
    next
      case step_heartbeat
      with i show ?thesis by (simp add: engine_geo)
    next
      case step_health
      with i show ?thesis by (simp add: engine_geo)
    next
      case step_world
      with i show ?thesis by (simp add: engine_inv_def core_inv_def gate_inv_def load_inv_def cells_sound_def)
    qed
  qed
qed (use engine_init_inv in blast)

section \<open>Properties\<close>

lemma reachable_engine_inv: "app_ok A \<Longrightarrow> engine_init A s0 \<Longrightarrow> (engine_step A)\<^sup>*\<^sup>* s0 st \<Longrightarrow> engine_inv A st"
  using eng.reachable_inv [of A s0 st] by blast

text \<open>
  C5. In every state the running program can reach, each answer in the cache was validated as Secure
  or as unsigned, never Bogus or unknown, and has the evidence for it: a Secure one carries
  signatures and denials that verify up to the root anchors, an unsigned one lies, at the first hop
  that is not secure, below a zone proven unsigned under trusted keys. It has a positive lifetime not above
  its records' TTLs; it encodes a NOERROR or NXDOMAIN response for the question of its key; and the stored AD
  bit is set exactly on Secure answers.
\<close>

theorem cache_holds_validated:
  assumes "app_ok A" and "engine_init A s0" and "(engine_step A)\<^sup>*\<^sup>* s0 st" and "dm_get (en_cache st) key = Some e"
  shows "(ce_dnssec_status e = Secure \<or> ce_dnssec_status e = InsecureUnsigned) \<and> ce_min_ttl e > 0 \<and>
    (\<exists>m n t. key = canonical_cache_key (ap_lib A) n t \<and> msg_to_bytes (ap_lib A) m = Some (ce_raw_wire e) \<and>
       is_cacheable m \<and> ce_kind e = kind_of m \<and> ce_min_ttl e \<le> calculate_min_ttl m \<and>
       (m_ad m \<longleftrightarrow> ce_dnssec_status e = Secure) \<and> justified (ap_lib A) m n t (ce_dnssec_status e))"
proof -
  have "entry_ok (ap_lib A) key e"
    using reachable_engine_inv [OF assms(1-3)] assms(4) by (auto simp: engine_inv_def core_inv_def intro: moka.everyD)
  then show ?thesis unfolding entry_ok_def is_cacheable_dnssec_def .
qed

lemma respond_eq: "respond A pq base status fresh at' now = Some wire \<longleftrightarrow>
    msg_to_bytes (ap_lib A) (client_response_msg (ap_lib A) base (pq_qtype pq) status fresh at' (pq_req_msg pq)
      (pq_client_max_payload pq) (pq_client_dnssec_ok pq) now) = Some wire"
  by (simp add: respond_def construct_client_response_def)

lemma challenge_success: "challenge_or_send A pq protocol ip wire = Out_Success w \<Longrightarrow> w = wire"
  by (simp add: challenge_or_send_def truncated_def split: if_splits)

text \<open>What a response is built from: the base message, its status and how fresh it is.\<close>

definition sound_base :: "('n, 's, 'f) app \<Rightarrow> 'n parsed_query \<Rightarrow> 'n message \<Rightarrow> dnssec_status \<Rightarrow> bool" where
  "sound_base A pq base status \<longleftrightarrow>
     (ap_dnssec_enforce A \<and> \<not> m_cd (pq_req_msg pq) \<longrightarrow> status \<noteq> Bogus) \<and>
     (\<exists>m n t. known_key A (pq_cache_key pq) n t \<and> justified (ap_lib A) m n t status \<and>
        (base = m \<or> (\<exists>w. msg_to_bytes (ap_lib A) m = Some w \<and> msg_read (ap_lib A) w = Some base)))"

text \<open>
  Where they come from: an entry of the cache with the status stored in it; a value that a cell of the single
  flight holds; or the verdict of the validator on what the recursor finds now, which depends on the
  state below the engine only.
\<close>

definition answer_source ::
  "('n, 's, 'f) app \<Rightarrow> 'n parsed_query \<Rightarrow> ('n, 's, 'f) engine \<Rightarrow> 'n message \<Rightarrow> dnssec_status \<Rightarrow> cache_freshness \<Rightarrow> u64 \<Rightarrow> bool" where
  "answer_source A pq st base status fresh cached_at \<longleftrightarrow>
     (\<exists>e. dm_get (en_cache st) (pq_cache_key pq) = Some e \<and> msg_read (ap_lib A) (ce_raw_wire e) = Some base \<and>
        status = ce_dnssec_status e \<and> fresh = freshness (ap_env A) e (now_of A st) \<and> fresh \<noteq> Expired \<and> cached_at = ce_cached_at e) \<or>
     (\<exists>r. base = rd_msg r \<and> status = rd_status r \<and> fresh = Fresh \<and> cached_at = rd_cached_at r \<and>
        ((pq_cache_key pq, Some r) \<in> set (en_cells st) \<or>
         (\<exists>sa sb. en_dns sa = en_dns st \<and> resolve_and_validate A (pq_qname pq) (pq_qtype pq) sa = (Inr r, sb))))"

lemma serve_cached_dns: "serve_cached A pq protocol ip now st = (out, st') \<Longrightarrow> en_dns st' = en_dns st"
  by (auto simp: serve_cached_def Let_def bump_def spawn_revalidation_def split: if_splits option.splits)

lemma resolve_miss_source:
  assumes "resolve_miss A pq flight st = (Some r, st')" and "cell_value st (pq_cache_key pq) flight"
  shows "(pq_cache_key pq, Some r) \<in> set (en_cells st) \<or> (\<exists>sb. resolve_and_validate A (pq_qname pq) (pq_qtype pq) st = (Inr r, sb))"
  using assms
  by (cases flight) (auto simp: resolve_miss_def evaluate_flight_def cell_value_def Let_def split: if_splits prod.splits sum.splits)

lemma serve_cached_sound:
  assumes "serve_cached A pq protocol ip (now_of A st) st = (Some (Out_Success wire), st')" and "core_inv A st"
  shows "\<exists>base status fresh at'. respond A pq base status fresh at' (now_of A st) = Some wire \<and>
    answer_source A pq st base status fresh at' \<and> sound_base A pq base status"
proof -
  let ?now = "now_of A st"
  obtain e base where e: "dm_get (en_cache st) (pq_cache_key pq) = Some e" "freshness (ap_env A) e ?now \<noteq> Expired"
    and base: "msg_read (ap_lib A) (ce_raw_wire e) = Some base"
    and w: "respond A pq base (ce_dnssec_status e) (freshness (ap_env A) e ?now) (ce_cached_at e) ?now = Some wire"
    using assms(1) by (auto simp: serve_cached_def Let_def split: if_splits option.splits dest: challenge_success)
  have ok: "entry_ok (ap_lib A) (pq_cache_key pq) e" using assms(2) e(1) by (auto simp: core_inv_def intro: moka.everyD)
  then have "ce_dnssec_status e \<noteq> Bogus" by (auto simp: entry_ok_def is_cacheable_dnssec_def)
  moreover have "\<exists>m n t. known_key A (pq_cache_key pq) n t \<and> justified (ap_lib A) m n t (ce_dnssec_status e) \<and> msg_to_bytes (ap_lib A) m = Some (ce_raw_wire e)"
    using ok unfolding entry_ok_def known_key_def by blast
  ultimately have "sound_base A pq base (ce_dnssec_status e)" using base unfolding sound_base_def by blast
  moreover have "answer_source A pq st base (ce_dnssec_status e) (freshness (ap_env A) e ?now) (ce_cached_at e)"
    using e base unfolding answer_source_def by blast
  ultimately show ?thesis using w by blast
qed

lemma finish_miss_sound:
  assumes "finish_miss A pq protocol ip now v = Out_Success wire" and "\<And>r. v = Some r \<Longrightarrow> resolved_ok A (pq_cache_key pq) r"
  shows "\<exists>r. v = Some r \<and> respond A pq (rd_msg r) (rd_status r) Fresh (rd_cached_at r) now = Some wire \<and> sound_base A pq (rd_msg r) (rd_status r)"
proof -
  obtain r where r: "v = Some r" "\<not> (rd_status r = Bogus \<and> ap_dnssec_enforce A \<and> \<not> m_cd (pq_req_msg pq))"
    "respond A pq (rd_msg r) (rd_status r) Fresh (rd_cached_at r) now = Some wire"
    using assms(1) by (auto simp: finish_miss_def servfail_def split: option.splits if_splits dest: challenge_success)
  from assms(2) [OF r(1)] r(2) have "sound_base A pq (rd_msg r) (rd_status r)"
    unfolding sound_base_def resolved_ok_def known_key_def by blast
  with r(1,3) show ?thesis by blast
qed

lemma query_success_sound:
  assumes "app_ok A" and "engine_init A s0" and "(engine_step A)\<^sup>*\<^sup>* s0 st"
    and "parse_and_validate_query (ap_lib A) req = Some pq" and "cell_value st (pq_cache_key pq) flight"
    and "geo_handles A pq st = None"
    and "process_dns_query A req protocol client_ip flight st = (Out_Success wire, st')"
  shows "\<exists>base status fresh cached_at resp. answer_source A pq st base status fresh cached_at \<and>
    resp = client_response_msg (ap_lib A) base (pq_qtype pq) status fresh cached_at (pq_req_msg pq)
      (pq_client_max_payload pq) (pq_client_dnssec_ok pq) (now_of A st) \<and>
    msg_to_bytes (ap_lib A) resp = Some wire \<and>
    (ap_dnssec_enforce A \<and> \<not> m_cd (pq_req_msg pq) \<longrightarrow> status \<noteq> Bogus) \<and>
    (\<exists>m n t. known_key A (pq_cache_key pq) n t \<and> justified (ap_lib A) m n t status \<and>
        (base = m \<or> (\<exists>w. msg_to_bytes (ap_lib A) m = Some w \<and> msg_read (ap_lib A) w = Some base))) \<and>
    (m_ad resp \<longrightarrow> status = Secure \<and> fresh = Fresh \<and> (pq_client_dnssec_ok pq \<or> m_ad (pq_req_msg pq)) \<and> \<not> m_cd (pq_req_msg pq))"
proof -
  have inv: "engine_inv A st" by (rule reachable_engine_inv [OF assms(1-3)])
  obtain act rl where c: "check_query (ap_lib A) (ap_now_millis A (rs_net (vs_net (en_dns st)))) protocol client_ip (pq_qname pq) (pq_qtype pq) (en_limiter st) = (act, rl)"
    by (metis surj_pair)
  let ?st = "st\<lparr>en_limiter := rl\<rparr>"
  have "rl_ok (en_limiter st)" using inv by (simp add: engine_inv_def load_inv_def)
  then have i: "engine_inv A ?st" using rl_ok_check_query c by (metis engine_limiter inv snd_conv)
  have gh: "geo_handles A pq ?st = None" using assms(6) by (simp add: geo_handles_def)
  have aq: "answer_query A pq protocol client_ip flight ?st = (Out_Success wire, st')"
    using assms(4,7) c gh by (auto simp: process_dns_query_def truncated_def Let_def split: rrl_action.splits)
  have key: "pq_cache_key pq = canonical_cache_key (ap_lib A) (pq_qname pq) (pq_qtype pq)" by (rule parse_key_canonical [OF assms(4)])
  have same: "now_of A ?st = now_of A st" "\<And>b t f c. answer_source A pq ?st b t f c = answer_source A pq st b t f c"
    by (simp_all add: now_of_def answer_source_def)
  have "\<exists>base status fresh at'. respond A pq base status fresh at' (now_of A st) = Some wire \<and>
    answer_source A pq st base status fresh at' \<and> sound_base A pq base status"
  proof -
    obtain o1 st1 where s: "serve_cached A pq protocol client_ip (now_of A ?st) ?st = (o1, st1)" by (metis surj_pair)
    show ?thesis
    proof (cases o1)
      case (Some x)
      with aq s have "serve_cached A pq protocol client_ip (now_of A ?st) ?st = (Some (Out_Success wire), st1)" by (simp add: answer_query_def)
      moreover have "core_inv A ?st" using i unfolding engine_inv_def by (rule conjunct1)
      ultimately show ?thesis using serve_cached_sound same by metis
    next
      case None
      obtain v st2 where m: "resolve_miss A pq flight st1 = (v, st2)" by (metis surj_pair)
      have cells: "en_cells st1 = en_cells st" "en_dns st1 = en_dns st" using serve_cached_cells [OF s] serve_cached_dns [OF s] by simp_all
      have cv: "cell_value st1 (pq_cache_key pq) flight" using assms(5) cells(1) by (simp add: cell_value_def split: flight.splits)
      note i1 = serve_cached_inv [OF s i key]
      from aq s m None have "finish_miss A pq protocol client_ip (now_of A st) v = Out_Success wire" by (simp add: answer_query_def same(1))
      from finish_miss_sound [OF this] resolve_miss_inv(2) [OF assms(1) m i1 key cv] obtain r where r: "v = Some r"
        "respond A pq (rd_msg r) (rd_status r) Fresh (rd_cached_at r) (now_of A st) = Some wire" "sound_base A pq (rd_msg r) (rd_status r)" by blast
      from m r(1) resolve_miss_source [of A pq flight st1 r st2] cv cells
      have "answer_source A pq st (rd_msg r) (rd_status r) Fresh (rd_cached_at r)" unfolding answer_source_def by metis
      with r show ?thesis by blast
    qed
  qed
  then show ?thesis unfolding respond_eq sound_base_def
    by (elim exE conjE) (intro exI conjI, assumption, rule refl, assumption+, simp add: client_response_msg_def Let_def)
qed

text \<open>What \<open>query_success_sound\<close> says of an answer, as a predicate for the transports.\<close>

definition sound_answer :: "('n, 's, 'f) app \<Rightarrow> 'n parsed_query \<Rightarrow> ('n, 's, 'f) engine \<Rightarrow> bytes \<Rightarrow> bool" where
  "sound_answer A pq st wire \<longleftrightarrow> (\<exists>base status fresh cached_at resp. answer_source A pq st base status fresh cached_at \<and>
    resp = client_response_msg (ap_lib A) base (pq_qtype pq) status fresh cached_at (pq_req_msg pq)
      (pq_client_max_payload pq) (pq_client_dnssec_ok pq) (now_of A st) \<and>
    msg_to_bytes (ap_lib A) resp = Some wire \<and>
    (ap_dnssec_enforce A \<and> \<not> m_cd (pq_req_msg pq) \<longrightarrow> status \<noteq> Bogus) \<and>
    (\<exists>m n t. known_key A (pq_cache_key pq) n t \<and> justified (ap_lib A) m n t status \<and>
        (base = m \<or> (\<exists>w. msg_to_bytes (ap_lib A) m = Some w \<and> msg_read (ap_lib A) w = Some base))) \<and>
    (m_ad resp \<longrightarrow> status = Secure \<and> fresh = Fresh \<and> (pq_client_dnssec_ok pq \<or> m_ad (pq_req_msg pq)) \<and> \<not> m_cd (pq_req_msg pq)))"

lemmas sound_answerI = query_success_sound [folded sound_answer_def]

text \<open>
  C4. Every answer sent for a name outside the geo layer is built from a response with a verdict: a
  cache entry that is not expired with the status stored in it, the value of a single-flight cell, or what the
  recursor finds and the validator says of it now. This verdict is not Bogus, unless enforcement is off or
  the client set CD; when it is Secure the response was verified for the question's cache key, and when it
  is unsigned there is a proof of that; and the AD bit is set only for a Secure verdict on fresh data, for a
  client that asked for it and did not disable checking.
\<close>

theorem query_answer_sound:
  assumes "app_ok A" and "engine_init A s0" and "(engine_step A)\<^sup>*\<^sup>* s0 st"
    and "parse_and_validate_query (ap_lib A) req = Some pq" and "cell_value st (pq_cache_key pq) flight"
    and "geo_handles A pq st = None"
    and "process_dns_query A req protocol client_ip flight st = (Out_Success wire, st')"
  shows "\<exists>base status fresh cached_at resp. answer_source A pq st base status fresh cached_at \<and>
    resp = client_response_msg (ap_lib A) base (pq_qtype pq) status fresh cached_at (pq_req_msg pq)
      (pq_client_max_payload pq) (pq_client_dnssec_ok pq) (now_of A st) \<and>
    msg_to_bytes (ap_lib A) resp = Some wire \<and>
    (ap_dnssec_enforce A \<and> \<not> m_cd (pq_req_msg pq) \<longrightarrow> status \<noteq> Bogus) \<and>
    (\<exists>m n t. known_key A (pq_cache_key pq) n t \<and> justified (ap_lib A) m n t status \<and>
        (base = m \<or> (\<exists>w. msg_to_bytes (ap_lib A) m = Some w \<and> msg_read (ap_lib A) w = Some base))) \<and>
    (m_ad resp \<longrightarrow> status = Secure \<and> fresh = Fresh \<and> (pq_client_dnssec_ok pq \<or> m_ad (pq_req_msg pq)) \<and> \<not> m_cd (pq_req_msg pq))"
  using assms by (rule query_success_sound)

text \<open>
  C21. Background work stays bounded in every reachable state: at most one stale revalidation is
  pending per key, and a key is gated exactly while its revalidation is pending, so no gate is left
  closed; at most 16 prefetches run; and the rate limiter's and the hit tracker's tables keep to
  their limits.
\<close>

theorem background_work_bounded:
  assumes "app_ok A" and "engine_init A s0" and "(engine_step A)\<^sup>*\<^sup>* s0 st"
  shows "distinct (map tk_key (en_revalidations st)) \<and>
    (\<forall>key. dm_get (en_in_flight st) key \<noteq> None \<longleftrightarrow> (\<exists>t \<in> set (en_revalidations st). tk_key t = key)) \<and>
    length (en_prefetches st) \<le> 16 \<and>
    length (rl_rrl_buckets (en_limiter st)) \<le> 65536 \<and>
    ht_len (en_tracker st) \<le> ht_max_entries (en_tracker st)"
proof -
  have inv: "engine_inv A st" by (rule reachable_engine_inv [OF assms])
  then have g: "distinct (map tk_key (en_revalidations st))"
    "set (map tk_key (en_revalidations st)) = {k. dm_get (en_in_flight st) k \<noteq> None}"
    by (simp_all add: engine_inv_def gate_inv_def)
  have "dm_get (en_in_flight st) key \<noteq> None \<longleftrightarrow> (\<exists>t \<in> set (en_revalidations st). tk_key t = key)" for key
  proof -
    have "dm_get (en_in_flight st) key \<noteq> None \<longleftrightarrow> key \<in> set (map tk_key (en_revalidations st))" unfolding g(2) by simp
    then show ?thesis by auto
  qed
  with g(1) inv show ?thesis
    by (simp add: engine_inv_def load_inv_def rl_ok_def MAX_TRACKED_RRL_ENTRIES_def MAX_CONCURRENT_PREFETCH_def ht_ok_def ht_len_def)
qed

text \<open>
  A cached answer that has not expired is served without any upstream traffic and without changing
  the cache: the recursor, the validator and the cache stay as they are; the response is the cached
  message with its age taken off; and exactly when the entry is stale and its key not already being
  refreshed, one revalidation of this question is started.
\<close>

lemma cached_answer_local:
  assumes "cc_enabled (cache_config (ap_env A))" and "dm_get (en_cache st) (pq_cache_key pq) = Some e"
    and "freshness (ap_env A) e (now_of A st) = fresh" and "fresh \<noteq> Expired"
    and "msg_read (ap_lib A) (ce_raw_wire e) = Some base"
    and "respond A pq base (ce_dnssec_status e) fresh (ce_cached_at e) (now_of A st) = Some wire"
  shows "\<exists>st'. answer_query A pq protocol client_ip flight st =
      ((if should_challenge_large_response protocol client_ip (length wire) (pq_client_max_payload pq)
        then Out_Truncated (make_truncated_wire (ap_lib A) (m_id (pq_req_msg pq)) (first_query (pq_req_msg pq)))
        else Out_Success wire), st') \<and>
    en_dns st' = en_dns st \<and> en_cache st' = en_cache st \<and> en_cells st' = en_cells st \<and>
    en_revalidations st' = en_revalidations st @
      (if fresh = Stale \<and> dm_get (en_in_flight st) (pq_cache_key pq) = None
       then [\<lparr>tk_key = pq_cache_key pq, tk_name = pq_qname pq, tk_type = pq_qtype pq\<rparr>] else [])"
  using assms
  by (auto simp: answer_query_def serve_cached_def Let_def challenge_or_send_def truncated_def bump_def spawn_revalidation_def)

section \<open>The service the transports see\<close>

text \<open>
  A transport hands a query to \<open>process_dns_query\<close> after other handlers and tasks have run
  (\<open>between\<close>) and with the part in the single flight that its caller gets (\<open>pick\<close>).
\<close>

definition serve_query ::
  "('n, 's, 'f) app \<Rightarrow> (('n, 's, 'f) engine \<Rightarrow> bytes \<Rightarrow> 'n flight) \<Rightarrow> (('n, 's, 'f) engine \<Rightarrow> ('n, 's, 'f) engine) \<Rightarrow>
   bytes \<Rightarrow> string \<Rightarrow> ip_addr \<Rightarrow> ('n, 's, 'f) engine \<Rightarrow> process_outcome \<times> ('n, 's, 'f) engine" where
  "serve_query A pick between wire protocol ip st =
     process_dns_query A wire protocol ip (pick (between st) wire) (between st)"

definition environment ::
  "('n, 's, 'f) app \<Rightarrow> (('n, 's, 'f) engine \<Rightarrow> bytes \<Rightarrow> 'n flight) \<Rightarrow> (('n, 's, 'f) engine \<Rightarrow> ('n, 's, 'f) engine) \<Rightarrow> bool" where
  "environment A pick between \<longleftrightarrow> (\<forall>st. (engine_step A)\<^sup>*\<^sup>* st (between st)) \<and>
     (\<forall>st wire pq. parse_and_validate_query (ap_lib A) wire = Some pq \<longrightarrow> cell_value st (pq_cache_key pq) (pick st wire))"

interpretation service: dns_service "serve_query A pick between" "\<lambda>st. environment A pick between \<longrightarrow> (engine_step A)\<^sup>*\<^sup>* s0 st" for A pick between s0
proof
  fix st wire protocol ip out st'
  assume r: "environment A pick between \<longrightarrow> (engine_step A)\<^sup>*\<^sup>* s0 st" and q: "serve_query A pick between wire protocol ip st = (out, st')"
  show "environment A pick between \<longrightarrow> (engine_step A)\<^sup>*\<^sup>* s0 st'"
  proof
    assume env: "environment A pick between"
    with r have "(engine_step A)\<^sup>*\<^sup>* s0 (between st)" by (meson environment_def rtranclp_trans)
    moreover have "engine_step A (between st) st'"
      by (rule step_query [OF _ q [unfolded serve_query_def]]) (use env in \<open>simp add: environment_def\<close>)
    ultimately show "(engine_step A)\<^sup>*\<^sup>* s0 st'" by (rule rtranclp.rtrancl_into_rtrancl)
  qed
qed

section \<open>A running instance\<close>

text \<open>A library whose codec knows one message, a network that never answers, and a cache file with
  one unsigned negative answer in it.\<close>

definition idle_net :: "(bytes list, unit) net" where
  "idle_net = \<lparr>net_now = \<lambda>_. 1000, net_txid = \<lambda>_. (0, ()), net_shuffle = \<lambda>_ l. (l, ()), net_udp = \<lambda>_ _ _. (Udp_Timeout, ()),
     net_tcp = \<lambda>_ _ _. (Tcp_Timeout, ()), net_join = \<lambda>_ l. l\<rparr>"

definition idle_app :: "(bytes list, unit, int) app" where
  "idle_app = \<lparr>ap_lib = anchor_lib, ap_net = idle_net, ap_f64 = undefined,
     ap_env = \<lambda>_. None, ap_evict = \<lambda>c. c, ap_now_millis = \<lambda>_. 1000000, ap_rt_from_str = \<lambda>_. None, ap_dnssec_enforce = True\<rparr>"

definition idle_entry :: cache_entry where
  "idle_entry = entry_of [0] 60 990 InsecureUnsigned Negative"

definition idle_key :: string where
  "idle_key = canonical_cache_key (ap_lib idle_app) [[119]] RT_NS"

definition idle_engine :: "(bytes list, unit, int) engine" where
  "idle_engine = engine_start idle_app Some (Json_Object [(idle_key, idle_entry)]) None
     \<lparr>vs_budget = budget_default, vs_keys = [], vs_signed = [], vs_net = \<lparr>rs_cache = [], rs_net = ()\<rparr>\<rparr>"

lemma idle_app_ok: "app_ok idle_app"
  using anchor_laws by (simp add: app_ok_def idle_app_def evict_ok_def)

lemma idle_codec: "msg_read (ap_lib idle_app) w = Some one_query" "msg_to_bytes (ap_lib idle_app) m = Some [0]"
  by (simp_all add: idle_app_def anchor_lib_def)

lemma idle_entry_ok: "entry_ok (ap_lib idle_app) idle_key idle_entry"
proof -
  have "justified anchor_lib unsigned_denial [[119]] RT_NS InsecureUnsigned"
    using unsigned_denial_verdict validate_message_justified [OF anchor_laws fresh_vinv] by blast
  moreover have "msg_to_bytes anchor_lib m = Some [0]" for m by (simp add: anchor_lib_def)
  ultimately show ?thesis unfolding entry_ok_def
    by (intro conjI exI [of _ unsigned_denial] exI [of _ "[[119]]"] exI [of _ RT_NS])
      (simp_all add: idle_entry_def entry_of_def idle_key_def is_cacheable_dnssec_def is_cacheable_def unsigned_denial_def
        empty_msg_def kind_of_def calculate_min_ttl_def min_ttl_of_def Let_def idle_app_def)
qed

lemma idle_init: "engine_init idle_app idle_engine"
  unfolding engine_init_def idle_engine_def
  using idle_entry_ok
  by (intro conjI exI [of _ "Json_Object [(idle_key, idle_entry)]"] exI [of _ None]
      exI [of _ "\<lparr>vs_budget = budget_default, vs_keys = [], vs_signed = [], vs_net = \<lparr>rs_cache = [], rs_net = ()\<rparr>\<rparr>"])
    (simp_all add: file_ok_def vinv_def keys_inv_def signed_inv_def env_i64_def idle_app_def)

lemma idle_now: "now_of idle_app idle_engine = 1000"
  by (simp add: now_of_def idle_app_def idle_net_def)

lemma idle_fresh: "freshness (ap_env idle_app) idle_entry 1000 = Fresh"
  by (simp add: freshness_def freshness_at_def idle_entry_def entry_of_def saturating_sub_def)

lemma idle_cache: "dm_get (en_cache idle_engine) idle_key = Some idle_entry"
proof -
  have "freshness_at idle_entry 1000 (max_stale_secs (ap_env idle_app)) \<noteq> Expired" using idle_fresh by (simp add: freshness_def)
  then show ?thesis
    by (simp add: idle_engine_def engine_start_def load_cache_from_disk_def load_entries_def create_cache_def cache_insert_def
        idle_app_def idle_net_def dm.get_insert)
qed

theorem cache_holds_validated_witness:
  "dm_get (en_cache idle_engine) idle_key = Some idle_entry \<and> ce_min_ttl idle_entry > 0"
  using cache_holds_validated [OF idle_app_ok idle_init rtranclp.rtrancl_refl idle_cache] idle_cache by blast

theorem background_work_bounded_witness:
  "engine_init idle_app idle_engine \<and> length (rl_rrl_buckets (en_limiter idle_engine)) \<le> 65536"
  using background_work_bounded [OF idle_app_ok idle_init rtranclp.rtrancl_refl] idle_init by blast

definition idle_pq :: "bytes list parsed_query" where
  "idle_pq = \<lparr>pq_req_msg = one_query, pq_qname = [[119]], pq_qtype = RT_NS, pq_client_max_payload = 512, pq_client_dnssec_ok = False,
     pq_cache_key = idle_key, pq_ecs_net = None\<rparr>"

lemma idle_parse: "parse_and_validate_query (ap_lib idle_app) wire = Some idle_pq"
proof -
  have "msg_read (ap_lib idle_app) wire = Some one_query" by (rule idle_codec)
  moreover have "m_queries one_query = [\<lparr>q_name = [[119]], q_type = RT_NS, q_class = IN\<rparr>]" "m_edns one_query = None"
    by (simp_all add: one_query_def empty_msg_def)
  ultimately show ?thesis by (simp add: parse_and_validate_query_def idle_pq_def idle_key_def)
qed

lemma idle_respond: "respond idle_app idle_pq base status fresh at' now = Some [0]"
  by (simp add: respond_def construct_client_response_def idle_codec)

lemma idle_key_pq [simp]: "pq_cache_key idle_pq = idle_key"
  by (simp add: idle_pq_def)

lemma idle_enabled: "cc_enabled (cache_config (ap_env idle_app))"
  by (simp add: cache_config_def env_bool_def idle_app_def)

lemma idle_cache_limited: "dm_get (en_cache (idle_engine\<lparr>en_limiter := rl\<rparr>)) (pq_cache_key idle_pq) = Some idle_entry"
  using idle_cache by simp

lemma idle_now_limited: "freshness (ap_env idle_app) idle_entry (now_of idle_app (idle_engine\<lparr>en_limiter := rl\<rparr>)) = Fresh"
  using idle_fresh idle_now by (simp add: now_of_def)

lemma idle_answer:
  "\<exists>st'. process_dns_query idle_app wire ''TCP'' (V4 0x7F000001) (Evaluate True) idle_engine = (Out_Success [0], st')"
proof -
  have c: "check_query (ap_lib idle_app) ms ''TCP'' (V4 0x7F000001) q t rl = (Allow, rl)" for ms q t rl
    by (simp add: check_query_def is_loopback_def octet_def)
  let ?st = "idle_engine\<lparr>en_limiter := en_limiter idle_engine\<rparr>"
  have s: "\<exists>st'. serve_cached idle_app idle_pq ''TCP'' (V4 0x7F000001) (now_of idle_app ?st) ?st = (Some (Out_Success [0]), st')"
    using idle_enabled idle_cache idle_fresh idle_now idle_codec idle_respond
    by (simp add: serve_cached_def Let_def challenge_or_send_def should_challenge_large_response_def)
  then obtain st' where s: "serve_cached idle_app idle_pq ''TCP'' (V4 0x7F000001) (now_of idle_app ?st) ?st = (Some (Out_Success [0]), st')" by blast
  have "en_geo idle_engine = None" by (simp add: idle_engine_def engine_start_def)
  then show ?thesis using idle_parse c s by (simp add: process_dns_query_def geo_handles_def answer_query_def Let_def)
qed

theorem query_answer_sound_witness:
  "\<exists>resp. msg_to_bytes (ap_lib idle_app) resp = Some [0] \<and> (m_ad resp \<longrightarrow> \<not> m_cd one_query)"
proof -
  from idle_answer obtain st' where
    q: "process_dns_query idle_app [1] ''TCP'' (V4 0x7F000001) (Evaluate True) idle_engine = (Out_Success [0], st')" by blast
  have g: "geo_handles idle_app idle_pq idle_engine = None" by (simp add: geo_handles_def idle_engine_def engine_start_def)
  have c: "cell_value idle_engine (pq_cache_key idle_pq) (Evaluate True)" by (simp add: cell_value_def)
  have r: "pq_req_msg idle_pq = one_query" by (simp add: idle_pq_def)
  from query_answer_sound [OF idle_app_ok idle_init rtranclp.rtrancl_refl idle_parse c g q]
  show ?thesis unfolding r by blast
qed

end
