(* ===== verification/Text_Parse.thy ===== *)
theory Text_Parse
  imports Rate_Limit
begin

text \<open>
  The parts of the standard library the text-reading components use: \<open>str::trim\<close>,
  \<open>split_whitespace\<close>, \<open>lines\<close>, \<open>split_once\<close>, \<open>splitn\<close>, \<open>contains\<close>, \<open>starts_with\<close>, and the
  parser behind \<open>parse::<IpAddr>()\<close>. A string is its UTF-8 bytes, so the white space characters
  outside ASCII are byte sequences.

  Lemmas: reading back a printed address gives the address.
\<close>

section \<open>White space\<close>

abbreviation chr :: "nat \<Rightarrow> char" where "chr n \<equiv> char_of n"

definition ws_seqs :: "string list" where
  "ws_seqs =
     map (\<lambda>n. [chr n]) [9, 10, 11, 12, 13, 32] @
     [[chr 0xC2, chr 0x85], [chr 0xC2, chr 0xA0], [chr 0xE1, chr 0x9A, chr 0x80]] @
     map (\<lambda>n. [chr 0xE2, chr 0x80, chr n]) [0x80, 0x81, 0x82, 0x83, 0x84, 0x85, 0x86, 0x87, 0x88, 0x89, 0x8A, 0xA8, 0xA9, 0xAF] @
     [[chr 0xE2, chr 0x81, chr 0x9F], [chr 0xE3, chr 0x80, chr 0x80]]"

definition starts_with :: "'a list \<Rightarrow> 'a list \<Rightarrow> bool" where
  "starts_with s p \<longleftrightarrow> take (length p) s = p"

fun contains :: "'a list \<Rightarrow> 'a list \<Rightarrow> bool" where
  "contains [] p = (p = [])"
| "contains (x # xs) p = (starts_with (x # xs) p \<or> contains xs p)"

text \<open>The length of the white space character at the front, 0 if there is none.\<close>

definition ws_len :: "string \<Rightarrow> nat" where
  "ws_len s = (case List.find (starts_with s) ws_seqs of Some w \<Rightarrow> length w | None \<Rightarrow> 0)"

function trim_start :: "string \<Rightarrow> string" where
  "trim_start s = (if ws_len s = 0 \<or> s = [] then s else trim_start (drop (ws_len s) s))"
  by pat_completeness auto
termination by (relation "measure length") auto

declare trim_start.simps [simp del]

text \<open>White space at the end, by the reversed sequences; none of them is the end of another character.\<close>

definition ws_len_end :: "string \<Rightarrow> nat" where
  "ws_len_end r = (case List.find (\<lambda>w. starts_with r (rev w)) ws_seqs of Some w \<Rightarrow> length w | None \<Rightarrow> 0)"

function trim_rev :: "string \<Rightarrow> string" where
  "trim_rev r = (if ws_len_end r = 0 \<or> r = [] then r else trim_rev (drop (ws_len_end r) r))"
  by pat_completeness auto
termination by (relation "measure length") auto

declare trim_rev.simps [simp del]

definition trim :: "string \<Rightarrow> string" where
  "trim s = rev (trim_rev (rev (trim_start s)))"

text \<open>\<open>split_whitespace\<close>: the maximal pieces without white space.\<close>

function word_end :: "string \<Rightarrow> string \<times> string" where
  "word_end s = (if s = [] \<or> ws_len s > 0 then ([], s) else case word_end (tl s) of (w, r) \<Rightarrow> (hd s # w, r))"
  by pat_completeness auto
termination by (relation "measure length") auto

declare word_end.simps [simp del]

lemma word_end_append: "word_end s = (w, r) \<Longrightarrow> s = w @ r"
proof (induction s arbitrary: w r rule: word_end.induct)
  case (1 s)
  show ?case
  proof (cases "s = [] \<or> ws_len s > 0")
    case True
    with "1.prems" show ?thesis by (subst (asm) word_end.simps) auto
  next
    case False
    obtain w' r' where wr: "word_end (tl s) = (w', r')" by (metis surj_pair)
    from "1.IH" [OF False wr] have "tl s = w' @ r'" .
    with False wr "1.prems" show ?thesis by (subst (asm) word_end.simps) (cases s, auto)
  qed
qed

lemma trim_start_length: "length (trim_start s) \<le> length s"
proof (induction s rule: trim_start.induct)
  case (1 s)
  then show ?case by (subst trim_start.simps) (auto intro: order_trans)
qed

function split_whitespace :: "string \<Rightarrow> string list" where
  "split_whitespace s =
     (if fst (word_end (trim_start s)) = [] then []
      else fst (word_end (trim_start s)) # split_whitespace (snd (word_end (trim_start s))))"
  by pat_completeness auto
termination
proof (relation "measure length")
  fix s assume w: "fst (word_end (trim_start s)) \<noteq> []"
  have "trim_start s = fst (word_end (trim_start s)) @ snd (word_end (trim_start s))" by (rule word_end_append) simp
  then have "length (trim_start s) = length (fst (word_end (trim_start s))) + length (snd (word_end (trim_start s)))" by (metis length_append)
  moreover have "length (fst (word_end (trim_start s))) > 0" using w by simp
  ultimately show "(snd (word_end (trim_start s)), s) \<in> measure length"
    using trim_start_length [of s] by (simp del: length_greater_0_conv)
qed simp

declare split_whitespace.simps [simp del]

text \<open>\<open>lines\<close>: split at line feeds, no empty line at the end, no carriage return at the end of a line.\<close>

definition chomp :: "string \<Rightarrow> string" where
  "chomp s = (if s \<noteq> [] \<and> last s = chr 13 then butlast s else s)"

definition str_lines :: "string \<Rightarrow> string list" where
  "str_lines s = (let ps = split_on (chr 10) s in map chomp (if last ps = [] then butlast ps else ps))"

definition split_once :: "char \<Rightarrow> string \<Rightarrow> (string \<times> string) option" where
  "split_once c s = (if c \<in> set s then Some (takeWhile (\<lambda>x. x \<noteq> c) s, tl (dropWhile (\<lambda>x. x \<noteq> c) s)) else None)"

section \<open>Addresses\<close>

definition to_digit :: "nat \<Rightarrow> char \<Rightarrow> nat option" where
  "to_digit radix c =
     (let n = of_char c;
          d = (if 48 \<le> n \<and> n \<le> 57 then Some (n - 48) else if 97 \<le> n \<and> n \<le> 122 then Some (n - 87)
               else if 65 \<le> n \<and> n \<le> 90 then Some (n - 55) else None) in
      case d of Some v \<Rightarrow> if v < radix then Some v else None | None \<Rightarrow> None)"

definition digits_value :: "nat \<Rightarrow> string \<Rightarrow> nat" where
  "digits_value radix ds = fold (\<lambda>c v. v * radix + the (to_digit radix c)) ds 0"

definition read_number :: "nat \<Rightarrow> nat \<Rightarrow> nat \<Rightarrow> bool \<Rightarrow> string \<Rightarrow> (nat \<times> string) option" where
  "read_number radix max_digits bound allow_zero_prefix s =
     (let ds = takeWhile (\<lambda>c. to_digit radix c \<noteq> None) s in
      if length ds > max_digits \<or> digits_value radix ds \<ge> bound \<or> ds = [] \<or>
         (\<not> allow_zero_prefix \<and> hd ds = CHR ''0'' \<and> length ds > 1)
      then None else Some (digits_value radix ds, dropWhile (\<lambda>c. to_digit radix c \<noteq> None) s))"

definition read_given_char :: "char \<Rightarrow> string \<Rightarrow> string option" where
  "read_given_char c s = (case s of x # xs \<Rightarrow> if x = c then Some xs else None | [] \<Rightarrow> None)"

definition read_separator :: "char \<Rightarrow> nat \<Rightarrow> (string \<Rightarrow> 'a option) \<Rightarrow> string \<Rightarrow> 'a option" where
  "read_separator c i p s = (if i > 0 then Option.bind (read_given_char c s) p else p s)"

abbreviation read_octet :: "string \<Rightarrow> (nat \<times> string) option" where
  "read_octet \<equiv> read_number 10 3 256 False"

definition read_v4 :: "string \<Rightarrow> (u32 \<times> string) option" where
  "read_v4 s =
     (case read_octet s of None \<Rightarrow> None | Some (a, s) \<Rightarrow>
      case read_separator (CHR ''.'') 1 read_octet s of None \<Rightarrow> None | Some (b, s) \<Rightarrow>
      case read_separator (CHR ''.'') 2 read_octet s of None \<Rightarrow> None | Some (c, s) \<Rightarrow>
      case read_separator (CHR ''.'') 3 read_octet s of None \<Rightarrow> None | Some (d, s) \<Rightarrow>
        Some (ipv4_new (of_nat a) (of_nat b) (of_nat c) (of_nat d), s))"

abbreviation read_group :: "string \<Rightarrow> (nat \<times> string) option" where
  "read_group \<equiv> read_number 16 4 65536 True"

text \<open>\<open>read_groups\<close> with the number of slots left: the groups read, whether an IPv4 address ended them, the rest.\<close>

fun read_groups :: "nat \<Rightarrow> nat \<Rightarrow> string \<Rightarrow> u128 list \<times> bool \<times> string" where
  "read_groups 0 i s = ([], False, s)"
| "read_groups (Suc left) i s =
     (case (if left > 0 then read_separator (CHR '':'') i read_v4 s else None) of
        Some (a, rest) \<Rightarrow> ([ucast (drop_bit 16 a), ucast (a AND 0xFFFF)], True, rest)
      | None \<Rightarrow>
          (case read_separator (CHR '':'') i read_group s of
             None \<Rightarrow> ([], False, s)
           | Some (g, rest) \<Rightarrow>
               (case read_groups left (Suc i) rest of (gs, v4, r) \<Rightarrow> (of_nat g # gs, v4, r))))"

definition read_v6 :: "string \<Rightarrow> (u128 \<times> string) option" where
  "read_v6 s =
     (case read_groups 8 0 s of (head, head_v4, rest) \<Rightarrow>
        if length head = 8 then Some (ipv6_new head, rest)
        else if head_v4 then None
        else (case Option.bind (read_given_char (CHR '':'') rest) (read_given_char (CHR '':'')) of
                None \<Rightarrow> None
              | Some rest \<Rightarrow>
                  (case read_groups (8 - (length head + 1)) 0 rest of (tail, _, rest) \<Rightarrow>
                     Some (ipv6_new (head @ replicate (8 - length head - length tail) 0 @ tail), rest))))"

definition whole :: "('a \<times> string) option \<Rightarrow> 'a option" where
  "whole r = (case r of Some (x, []) \<Rightarrow> Some x | _ \<Rightarrow> None)"

definition parse_ip :: "string \<Rightarrow> ip_addr option" where
  "parse_ip s = whole (case read_v4 s of Some (a, r) \<Rightarrow> Some (V4 a, r) | None \<Rightarrow> map_option (\<lambda>(a, r). (V6 a, r)) (read_v6 s))"

definition parse_ipv4 :: "string \<Rightarrow> u32 option" where
  "parse_ipv4 s = (if length s > 15 then None else whole (read_v4 s))"

definition parse_ipv6 :: "string \<Rightarrow> u128 option" where
  "parse_ipv6 s = whole (read_v6 s)"

section \<open>Printing and reading\<close>

lemma of_char_chr: "n < 256 \<Longrightarrow> of_char (chr n) = (n :: nat)"
  by simp

lemma to_digit_digit_char:
  assumes "d < radix" and "radix \<le> 16"
  shows "to_digit radix (digit_char d) = Some d"
  using assms by (simp add: to_digit_def digit_char_def Let_def)

lemma digits_value_snoc: "to_digit radix c = Some d \<Longrightarrow> digits_value radix (ds @ [c]) = digits_value radix ds * radix + d"
  by (simp add: digits_value_def)

lemma show_base_read:
  assumes "2 \<le> b" and "b \<le> 16" and "n < b ^ k" and "k > 0"
  shows "digits_value b (show_base b k n) = n \<and> list_all (\<lambda>c. to_digit b c \<noteq> None) (show_base b k n) \<and>
    show_base b k n \<noteq> [] \<and> length (show_base b k n) \<le> k \<and> (hd (show_base b k n) = CHR ''0'' \<longrightarrow> length (show_base b k n) = 1)"
  using assms(3,4)
proof (induction k arbitrary: n)
  case (Suc k)
  show ?case
  proof (cases "n < b")
    case True
    with assms show ?thesis by (simp add: digits_value_def to_digit_digit_char)
  next
    case False
    then have q: "n div b > 0" and k: "k > 0" using Suc.prems assms(1) by (auto simp: div_greater_zero_iff intro: gr0I)
    have "n div b < b ^ k" using Suc.prems by (simp add: less_mult_imp_div_less mult.commute)
    note ih = Suc.IH [OF this k]
    have d: "to_digit b (digit_char (n mod b)) = Some (n mod b)" using assms by (intro to_digit_digit_char) simp_all
    have "hd (show_base b k (n div b)) \<noteq> CHR ''0''"
    proof
      assume h: "hd (show_base b k (n div b)) = CHR ''0''"
      with ih have "length (show_base b k (n div b)) = 1" by blast
      then obtain c where c: "show_base b k (n div b) = [c]" by (metis One_nat_def length_0_conv length_Suc_conv)
      with h have "show_base b k (n div b) = [CHR ''0'']" by simp
      with ih have "n div b = digits_value b [CHR ''0'']" by metis
      with q show False using assms(1) by (simp add: digits_value_def to_digit_def)
    qed
    with False d ih show ?thesis by (simp add: digits_value_snoc)
  qed
qed simp

definition stops :: "nat \<Rightarrow> string \<Rightarrow> bool" where
  "stops radix rest \<longleftrightarrow> (case rest of c # _ \<Rightarrow> to_digit radix c = None | [] \<Rightarrow> True)"

lemma read_number_show:
  assumes "2 \<le> b" "b \<le> 16" "n < b ^ k" "k > 0" "n < bound" "stops b rest"
  shows "read_number b k bound allow (show_base b k n @ rest) = Some (n, rest)"
proof -
  note s = show_base_read [OF assms(1-4)]
  have t: "takeWhile (\<lambda>c. to_digit b c \<noteq> None) (show_base b k n @ rest) = show_base b k n"
    using s assms(6) by (subst takeWhile_append2) (auto simp: list_all_iff stops_def split: list.splits)
  have d: "dropWhile (\<lambda>c. to_digit b c \<noteq> None) (show_base b k n @ rest) = rest"
    using s assms(6) by (subst dropWhile_append2) (auto simp: list_all_iff stops_def split: list.splits)
  show ?thesis unfolding read_number_def Let_def t d using s assms(5) by auto
qed

lemma unat_octet_less: "unat (octet a i) < 256"
  by (simp add: octet_def sat_simps unat_take_bit)

lemma octets_eq: "ipv4_new (octet a 0) (octet a 1) (octet a 2) (octet a 3) = a"
proof (rule bit_word_eqI)
  fix n assume n: "n < LENGTH(32)"
  show "bit (ipv4_new (octet a 0) (octet a 1) (octet a 2) (octet a 3)) n = bit a n"
  proof -
    consider "n < 8" | "8 \<le> n" "n < 16" | "16 \<le> n" "n < 24" | "24 \<le> n" by linarith
    then show ?thesis using n
      by cases (auto simp: ipv4_new_def octet_def and_low_bits bit_simps)
  qed
qed

lemma read_v4_show:
  assumes "stops 10 rest"
  shows "read_v4 (show_v4 a @ rest) = Some (a, rest)"
proof -
  have o: "read_octet (show_base 10 3 (unat (octet a i)) @ r) = Some (unat (octet a i), r)" if "stops 10 r" for i r
    using unat_octet_less [of a i] that by (intro read_number_show) simp_all
  have dot: "stops 10 (CHR ''.'' # r)" for r by (simp add: stops_def to_digit_def)
  have "show_v4 a @ rest = show_base 10 3 (unat (octet a 0)) @ CHR ''.'' # show_base 10 3 (unat (octet a 1)) @ CHR ''.'' #
      show_base 10 3 (unat (octet a 2)) @ CHR ''.'' # show_base 10 3 (unat (octet a 3)) @ rest"
    by (simp add: show_v4_def join_with_def)
  then show ?thesis
    by (simp add: read_v4_def o dot assms read_separator_def read_given_char_def octets_eq [unfolded One_nat_def])
qed

abbreviation hex16 :: "u128 \<Rightarrow> string" where "hex16 s \<equiv> show_base 16 4 (unat s)"

text \<open>The groups with the separator that precedes each but the first.\<close>

fun show_groups :: "nat \<Rightarrow> u128 list \<Rightarrow> string" where
  "show_groups i [] = []"
| "show_groups i (s # ss) = (if i > 0 then [CHR '':''] else []) @ hex16 s @ show_groups (Suc i) ss"

lemma show_groups_Suc: "show_groups (Suc i) ss = concat (map (\<lambda>y. '':'' @ hex16 y) ss)"
  by (induction ss arbitrary: i) auto

lemma show_segments_groups: "show_segments ss = show_groups 0 ss"
  by (cases ss) (simp_all add: show_segments_def join_with_def show_groups_Suc comp_def)

definition group_end :: "string \<Rightarrow> bool" where
  "group_end rest \<longleftrightarrow> rest = [] \<or> (\<exists>r. rest = ''::'' @ r)"

lemma colon_stops [simp]: "stops radix (CHR '':'' # r)" "stops radix []"
  by (simp_all add: stops_def to_digit_def)

lemma group_end_stops: "group_end rest \<Longrightarrow> stops radix (show_groups (Suc i) ss @ rest)"
  by (cases ss) (auto simp: group_end_def)

lemma read_number_colon [simp]: "read_number radix k b z (CHR '':'' # r) = None" "read_number radix k b z [] = None"
  by (simp_all add: read_number_def to_digit_def)

lemma read_v4_colon [simp]: "read_v4 (CHR '':'' # r) = None" "read_v4 [] = None"
  by (simp_all add: read_v4_def)

lemma read_v4_group:
  assumes "unat s < 65536" and "rest = [] \<or> hd rest = CHR '':''"
  shows "read_v4 (hex16 s @ rest) = None"
proof (cases "read_octet (hex16 s @ rest)")
  case (Some av)
  then obtain a s' where r: "read_octet (hex16 s @ rest) = Some (a, s')" by (cases av) auto
  have "list_all (\<lambda>c. to_digit 16 c \<noteq> None) (hex16 s)" using show_base_read [of 16 "unat s" 4] assms(1) by simp
  then have nd: "CHR ''.'' \<notin> set (hex16 s)" by (auto simp: list_all_iff to_digit_def)
  let ?P = "\<lambda>c. to_digit 10 c \<noteq> None"
  have rest: "dropWhile ?P rest = rest" using assms(2) by (cases rest) (auto simp: to_digit_def)
  have s': "s' = dropWhile ?P (hex16 s @ rest)" using r by (auto simp: read_number_def Let_def split: if_splits)
  have "s' = [] \<or> hd s' \<noteq> CHR ''.''"
  proof (cases "dropWhile ?P (hex16 s) = []")
    case True
    then have "\<And>c. c \<in> set (hex16 s) \<Longrightarrow> ?P c" by (simp add: dropWhile_eq_Nil_conv)
    then have "s' = rest" using rest s' by (simp add: dropWhile_append2)
    with assms(2) show ?thesis by auto
  next
    case False
    then have "s' = dropWhile ?P (hex16 s) @ rest" using s' by (metis dropWhile_append1 dropWhile_eq_Nil_conv)
    moreover have "hd (dropWhile ?P (hex16 s)) \<in> set (hex16 s)" using False by (metis hd_in_set set_dropWhileD)
    ultimately show ?thesis using False nd by (metis hd_append2)
  qed
  then have "read_separator (CHR ''.'') 1 read_octet s' = None"
    by (cases s') (auto simp: read_separator_def read_given_char_def)
  with r show ?thesis by (simp add: read_v4_def)
qed (simp add: read_v4_def)

lemma read_groups_show:
  assumes "length ss \<le> left" and "\<And>s. s \<in> set ss \<Longrightarrow> unat s < 65536" and "group_end rest"
  shows "read_groups left i (show_groups i ss @ rest) = (ss, False, rest)"
  using assms(1,2)
proof (induction ss arbitrary: left i)
  case Nil
  then show ?case using assms(3) by (cases left) (auto simp: group_end_def read_separator_def read_given_char_def)
next
  case (Cons s ss)
  then obtain left' where l: "left = Suc left'" "length ss \<le> left'" by (cases left) auto
  let ?rest = "show_groups (Suc i) ss @ rest"
  have s: "unat s < 65536" using Cons.prems by simp
  have h: "?rest = [] \<or> hd ?rest = CHR '':''" using assms(3) by (cases ss) (auto simp: group_end_def)
  have v4: "read_separator (CHR '':'') i read_v4 (show_groups i (s # ss) @ rest) = None"
    using read_v4_group [OF s h] by (cases i) (simp_all add: read_separator_def read_given_char_def)
  have "read_group (hex16 s @ ?rest) = Some (unat s, ?rest)"
    using s group_end_stops [OF assms(3)] by (intro read_number_show) simp_all
  then have g: "read_separator (CHR '':'') i read_group (show_groups i (s # ss) @ rest) = Some (unat s, ?rest)"
    by (cases i) (simp_all add: read_separator_def read_given_char_def)
  have "read_groups left' (Suc i) ?rest = (ss, False, rest)" using Cons.IH [OF l(2)] Cons.prems(2) by simp
  with v4 g l(2) show ?case unfolding l(1) by (cases left') simp_all
qed

lemma segments_eq: "ipv6_new (map (segment a) [0, 1, 2, 3, 4, 5, 6, 7]) = a"
proof (rule bit_word_eqI)
  fix n assume n: "n < LENGTH(128)"
  consider "n < 16" | "16 \<le> n" "n < 32" | "32 \<le> n" "n < 48" | "48 \<le> n" "n < 64" | "64 \<le> n" "n < 80" | "80 \<le> n" "n < 96"
    | "96 \<le> n" "n < 112" | "112 \<le> n" by linarith
  then show "bit (ipv6_new (map (segment a) [0, 1, 2, 3, 4, 5, 6, 7])) n = bit a n" using n
    by cases (auto simp: ipv6_new_def segment_def and_low_bits bit_simps)
qed

lemma segment_less: "unat (segment a i) < 65536"
  by (simp add: segment_def sat_simps unat_take_bit)

lemma zero_span_range:
  assumes "full = pre @ segs" and "snd current = 0 \<or> fst current + snd current = length pre \<and> (\<forall>j \<in> {fst current ..< length pre}. full ! j = 0)"
    and "snd longest = 0 \<or> fst longest + snd longest \<le> length pre \<and> (\<forall>j \<in> {fst longest ..< fst longest + snd longest}. full ! j = 0)"
    and "zero_span segs (length pre) current longest = (start, len)"
  shows "len = 0 \<or> start + len \<le> length full \<and> (\<forall>j \<in> {start ..< start + len}. full ! j = 0)"
  using assms
proof (induction segs arbitrary: pre current longest)
  case Nil
  then show ?case by auto
next
  case (Cons s segs)
  let ?cur = "if snd current = 0 then (length pre, 1) else (fst current, snd current + 1)"
  let ?long = "if snd ?cur > snd longest then ?cur else longest"
  show ?case
  proof (cases "s = 0")
    case True
    have f: "full ! length pre = 0" using Cons.prems(1) True by simp
    have cur: "fst ?cur + snd ?cur = length (pre @ [s]) \<and> (\<forall>j \<in> {fst ?cur ..< length (pre @ [s])}. full ! j = 0)"
      using Cons.prems(2) f by (auto simp: less_Suc_eq)
    have long: "snd ?long = 0 \<or> fst ?long + snd ?long \<le> length (pre @ [s]) \<and> (\<forall>j \<in> {fst ?long ..< fst ?long + snd ?long}. full ! j = 0)"
    proof (cases "snd ?cur > snd longest")
      case True
      have e: "fst ?cur + snd ?cur = length (pre @ [s])" using cur by blast
      have "\<forall>j \<in> {fst ?cur ..< fst ?cur + snd ?cur}. full ! j = 0" unfolding e using cur by blast
      with e show ?thesis unfolding if_P [OF True] by simp
    next
      case False
      then show ?thesis unfolding if_not_P [OF False] using Cons.prems(3) by auto
    qed
    show ?thesis
    proof (rule Cons.IH [of "pre @ [s]" ?cur ?long])
      show "zero_span segs (length (pre @ [s])) ?cur ?long = (start, len)" using Cons.prems(4) True by (simp add: Let_def)
    qed (use Cons.prems(1) cur long in auto)
  next
    case False
    show ?thesis
      by (rule Cons.IH [of "pre @ [s]" "(0, 0)" longest]) (use Cons.prems False in auto)
  qed
qed

lemma zero_run:
  assumes "zero_span segs 0 (0, 0) (0, 0) = (start, len)" and "len > 1"
  shows "start + len \<le> length segs" and "segs = take start segs @ replicate len 0 @ drop (start + len) segs"
proof -
  have r: "start + len \<le> length segs" "\<forall>j \<in> {start ..< start + len}. segs ! j = 0"
    using zero_span_range [of segs "[]" segs "(0, 0)" "(0, 0)" start len] assms by auto
  then show "start + len \<le> length segs" by simp
  have "take len (drop start segs) = replicate len 0" using r by (intro nth_equalityI) auto
  then show "segs = take start segs @ replicate len 0 @ drop (start + len) segs"
    by (metis add.commute append_take_drop_id drop_drop)
qed

lemma read_v6_plain:
  assumes "length segs = 8" and "\<And>s. s \<in> set segs \<Longrightarrow> unat s < 65536"
  shows "read_v6 (show_segments segs) = Some (ipv6_new segs, [])"
  using read_groups_show [of segs 8 "[]" 0] assms by (simp add: read_v6_def show_segments_groups group_end_def)

lemma read_v6_gap:
  assumes "length hs + length ts \<le> 7" and "\<And>s. s \<in> set hs \<union> set ts \<Longrightarrow> unat s < 65536"
  shows "read_v6 (show_segments hs @ ''::'' @ show_segments ts) = Some (ipv6_new (hs @ replicate (8 - length hs - length ts) 0 @ ts), [])"
proof -
  have h: "read_groups 8 0 (show_segments hs @ ''::'' @ show_segments ts) = (hs, False, ''::'' @ show_segments ts)"
    using assms by (simp add: show_segments_groups) (intro read_groups_show, auto simp: group_end_def)
  have t: "read_groups (8 - (length hs + 1)) 0 (show_segments ts) = (ts, False, [])"
    using read_groups_show [of ts "8 - (length hs + 1)" "[]" 0] assms by (simp add: show_segments_groups group_end_def)
  show ?thesis using h t assms(1) by (simp add: read_v6_def read_given_char_def)
qed

lemma read_v4_v6_text:
  "length segs = 8 \<Longrightarrow> (\<And>s. s \<in> set segs \<Longrightarrow> unat s < 65536) \<Longrightarrow> read_v4 (show_segments segs) = None"
  "(\<And>s. s \<in> set hs \<Longrightarrow> unat s < 65536) \<Longrightarrow> read_v4 (show_segments hs @ ''::'' @ r) = None"
proof -
  show "read_v4 (show_segments segs) = None" if "length segs = 8" "\<And>s. s \<in> set segs \<Longrightarrow> unat s < 65536"
  proof (cases segs)
    case (Cons s ss)
    with that(1) obtain s2 ss2 where ss: "ss = s2 # ss2" by (cases ss) auto
    from read_v4_group [of s "show_groups (Suc 0) ss"] that(2) show ?thesis by (simp add: Cons ss show_segments_groups)
  qed (use that in simp)
  show "read_v4 (show_segments hs @ ''::'' @ r) = None" if "\<And>s. s \<in> set hs \<Longrightarrow> unat s < 65536"
  proof (cases hs)
    case (Cons s ss)
    have "hd (show_groups (Suc 0) ss @ ''::'' @ r) = CHR '':''" by (cases ss) auto
    with read_v4_group [of s "show_groups (Suc 0) ss @ ''::'' @ r"] that Cons show ?thesis by (simp add: show_segments_groups)
  qed (simp add: show_segments_def join_with_def)
qed

lemma v6_mapped_segments: 
  assumes "drop_bit 32 a = (0xFFFF :: u128)"
  shows "ipv6_new [0, 0, 0, 0, 0, 0xFFFF, ucast (drop_bit 16 (ucast a :: u32)), ucast ((ucast a :: u32) AND 0xFFFF)] = a"
proof (rule bit_word_eqI)
  fix n assume n: "n < LENGTH(128)"
  have hi: "bit a (32 + k) = bit (0xFFFF :: u128) k" for k using assms by (metis bit_drop_bit_eq comp_apply)
  have m: "(0xFFFF :: u128) = mask 16" by (simp add: mask_eq_exp_minus_1)
  show "bit (ipv6_new [0, 0, 0, 0, 0, 0xFFFF, ucast (drop_bit 16 (ucast a :: u32)), ucast ((ucast a :: u32) AND 0xFFFF)]) n = bit a n"
  proof (cases "n < 32")
    case True
    then show ?thesis by (auto simp: ipv6_new_def and_low_bits m bit_simps)
  next
    case False
    then have "bit a n = bit (mask 16 :: u128) (n - 32)" using hi [of "n - 32"] m by simp
    with False n show ?thesis by (auto simp: ipv6_new_def and_low_bits m bit_simps)
  qed
qed

lemma read_v6_mapped:
  assumes "drop_bit 32 a = (0xFFFF :: u128)"
  shows "read_v6 (''::ffff:'' @ show_v4 (ucast a)) = Some (a, [])"
proof -
  have h: "read_groups 8 0 (''::ffff:'' @ r) = ([], False, ''::ffff:'' @ r)" for r
    using read_groups_show [of "[]" 8 "''::ffff:'' @ r" 0] by (simp add: group_end_def)
  have seven: "(7 :: nat) = Suc (Suc 5)" by simp
  have four: "(4 :: nat) = Suc (Suc (Suc (Suc 0)))" by simp
  have f: "digit_char 15 = CHR ''f''" by code_simp
  have ff: "show_base 16 4 65535 = ''ffff''" unfolding four by (simp add: f)
  have r: "read_group (''ffff:'' @ r) = Some (65535, CHR '':'' # r)" for r
    using read_number_show [of 16 65535 4 65536 "CHR '':'' # r" True] by (simp add: ff)
  have n: "read_v4 (''ffff:'' @ r) = None" for r
    using read_v4_group [of "0xFFFF" "CHR '':'' # r"] by (simp add: ff)
  have v: "read_v4 (show_v4 (ucast a :: u32)) = Some (ucast a, [])" using read_v4_show [of "[]" "ucast a"] by simp
  have t: "read_groups 7 0 (''ffff:'' @ show_v4 (ucast a :: u32)) =
      ([0xFFFF, ucast (drop_bit 16 (ucast a :: u32)), ucast ((ucast a :: u32) AND 0xFFFF)], True, [])"
    unfolding seven read_groups.simps using r [of "show_v4 (ucast a)"] n [of "show_v4 (ucast a)"] v
    by (simp add: read_separator_def read_given_char_def)
  have "replicate 5 (0 :: u128) = [0, 0, 0, 0, 0]" by (simp add: eval_nat_numeral)
  with h [of "show_v4 (ucast a)"] t v6_mapped_segments [OF assms] show ?thesis
    by (simp add: read_v6_def read_given_char_def)
qed

lemma read_show_v6: "read_v4 (show_v6 a) = None \<and> read_v6 (show_v6 a) = Some (a, [])"
proof (cases "to_ipv4_mapped a")
  case (Some v4)
  then have m: "drop_bit 32 a = 0xFFFF" "v4 = ucast a" by (auto simp: to_ipv4_mapped_def split: if_splits)
  have "read_v4 (''::ffff:'' @ show_v4 v4) = None" by simp
  with read_v6_mapped [OF m(1)] Some m(2) show ?thesis by (simp add: show_v6_def)
next
  case None
  define segs where "segs = map (segment a) [0, 1, 2, 3, 4, 5, 6, 7]"
  have a: "ipv6_new segs = a" and len8: "length segs = 8" unfolding segs_def by (rule segments_eq) simp
  have less: "unat s < 65536" if "s \<in> set segs" for s using that segment_less unfolding segs_def by auto
  obtain start len where z: "zero_span segs 0 (0, 0) (0, 0) = (start, len)" by (metis surj_pair)
  have printed: "show_v6 a = (if len > 1 then show_segments (take start segs) @ ''::'' @ show_segments (drop (start + len) segs) else show_segments segs)"
    unfolding show_v6_def None option.case Let_def segs_def [symmetric] z prod.case ..
  show ?thesis
  proof (cases "len > 1")
    case True
    note run = zero_run [OF z True]
    let ?hs = "take start segs" and ?ts = "drop (start + len) segs"
    have lt: "unat s < 65536" if "s \<in> set ?hs \<union> set ?ts" for s
      using that by (intro less) (auto dest: in_set_takeD in_set_dropD)
    have lens: "length ?hs = start" "length ?ts = 8 - (start + len)" "start + len \<le> 8" using run(1) len8 by auto
    have "segs = ?hs @ replicate (8 - length ?hs - length ?ts) 0 @ ?ts" using run lens by simp
    then have "ipv6_new (?hs @ replicate (8 - length ?hs - length ?ts) 0 @ ?ts) = a" using a by metis
    moreover have "length ?hs + length ?ts \<le> 7" using lens True by simp
    moreover note read_v6_gap [OF this lt]
    moreover have "read_v4 (show_segments ?hs @ ''::'' @ show_segments ?ts) = None"
      by (rule read_v4_v6_text(2)) (use lt in blast)
    ultimately show ?thesis using True by (simp add: printed)
  next
    case False
    then show ?thesis using read_v6_plain [OF len8 less] read_v4_v6_text(1) [OF len8 less] by (simp add: printed a)
  qed
qed

lemma parse_show_ip: "parse_ip (show_ip ip) = Some ip"
proof (cases ip)
  case (V4 a)
  then show ?thesis using read_v4_show [of "[]" a] by (simp add: parse_ip_def show_ip_def whole_def)
next
  case (V6 a)
  then show ?thesis using read_show_v6 [of a] by (simp add: parse_ip_def show_ip_def whole_def)
qed

section \<open>Text of printable characters\<close>

text \<open>Text of printable ASCII characters.\<close>

definition plain :: "char \<Rightarrow> bool" where
  "plain c \<longleftrightarrow> 33 \<le> (of_char c :: nat) \<and> (of_char c :: nat) < 127"

lemma plain_ne: "plain c \<Longrightarrow> n < 33 \<or> (127 \<le> n \<and> n < 256) \<Longrightarrow> c \<noteq> chr n"
  by (auto simp: plain_def)

lemma ws_len_plain: "plain c \<Longrightarrow> ws_len (c # s) = 0"
  by (simp add: ws_len_def ws_seqs_def starts_with_def plain_ne)

lemma ws_len_space: "ws_len (CHR '' '' # s) = 1"
proof -
  have "CHR '' '' \<noteq> chr n" if "n < 256" "n \<noteq> 32" for n
  proof
    assume "CHR '' '' = chr n"
    then have "of_char (CHR '' '') = (of_char (chr n) :: nat)" by simp
    with that show False by simp
  qed
  moreover have "chr 32 = CHR '' ''" by (simp add: char_of_def bit_0)
  ultimately show ?thesis by (simp add: ws_len_def ws_seqs_def starts_with_def)
qed

lemma ws_len_end_plain: "plain c \<Longrightarrow> ws_len_end (c # s) = 0"
  by (simp add: ws_len_end_def ws_seqs_def starts_with_def plain_ne)

lemma trim_plain:
  assumes "plain a" and "plain b"
  shows "trim (a # s @ [b]) = a # s @ [b]"
  using assms by (simp add: trim_def trim_start.simps [of "a # s @ [b]"] trim_rev.simps [of "b # rev s @ [a]"] ws_len_plain ws_len_end_plain)

lemma word_end_plain: "list_all plain w \<Longrightarrow> s = [] \<or> hd s = CHR '' '' \<Longrightarrow> word_end (w @ s) = (w, s)"
proof (induction w)
  case Nil
  then show ?case by (cases s) (auto simp: word_end.simps [of "[]"] word_end.simps [of "_ # _"] ws_len_space)
next
  case (Cons a w)
  then show ?case by (simp add: word_end.simps [of "a # w @ s"] ws_len_plain)
qed

lemma split_whitespace_plain:
  assumes "list_all plain w" and "w \<noteq> []"
  shows "split_whitespace (w @ CHR '' '' # s) = w # split_whitespace s" and "split_whitespace w = [w]"
proof -
  have t: "trim_start (w @ r) = w @ r" for r
    using assms by (cases w) (simp_all add: trim_start.simps [of "_ # _"] ws_len_plain)
  have ts: "trim_start (CHR '' '' # s) = trim_start s" by (subst trim_start.simps) (simp add: ws_len_space)
  have sp: "split_whitespace (CHR '' '' # s) = split_whitespace s"
    by (subst split_whitespace.simps, subst (2) split_whitespace.simps) (simp add: ts)
  show "split_whitespace (w @ CHR '' '' # s) = w # split_whitespace s"
    using assms by (subst split_whitespace.simps) (simp add: t word_end_plain sp)
  show "split_whitespace w = [w]"
    using assms t [of "[]"] word_end_plain [of w "[]"]
    by (subst split_whitespace.simps) (simp add: split_whitespace.simps [of "[]"] trim_start.simps [of "[]"] word_end.simps [of "[]"])
qed

lemma chr_line_ends: "chr 10 = CHR 0x0A" "chr 13 = CHR 0x0D"
  by (simp_all add: char_of_def bit_0)

end
