(* ===== verification/Root_Zone.thy ===== *)
theory Root_Zone
  imports Delegation Text_Parse Cache
begin

text \<open>
  \<open>src/root_zone.rs\<close>: the local copy of the root zone, its parser, its installation into the
  delegation cache and its life cycle, and the reader of \<open>src/tranco.rs\<close>.

  A \<open>HashMap<Name, _>\<close> is an association list whose keys are compared with the \<open>==\<close> of names;
  the order of the list stands for the unspecified order of iteration. The result of the
  download, the contents of the two files and the outcomes of writing them are arguments; the
  JSON file is the value it encodes (\<open>serde\<close> is third-party code), \<open>None\<close> when it cannot be read
  or parsed. Paths are not modelled.

  Lemmas: installing replaces exactly the entries that came from the root zone; the parser's
  servers are the glue of the zone file; the JSON copy reads back as it was written.
\<close>

section \<open>Data\<close>

definition DEFAULT_MAX_AGE_DAYS :: u64 where "DEFAULT_MAX_AGE_DAYS = 30"
definition DEFAULT_REFRESH_HOURS :: u64 where "DEFAULT_REFRESH_HOURS = 168"
definition DEFAULT_URL :: string where "DEFAULT_URL = ''https://www.internic.net/domain/root.zone''"
definition ROOT_ZONE_TTL_CAP_SECS :: u64 where "ROOT_ZONE_TTL_CAP_SECS = 7 * 86400"
definition MIN_DOWNLOAD_BYTES :: nat where "MIN_DOWNLOAD_BYTES = 100000"

datatype root_zone_state = Valid | StaleButUsable | TooOld | Missing

record root_zone_status =
  zs_state :: root_zone_state
  zs_serial :: "u32 option"
  zs_loaded_at :: "u64 option"
  zs_source_url :: "string option"
  zs_tld_count :: nat
  zs_file_age_days :: "u64 option"
  zs_last_refresh_attempt :: "u64 option"
  zs_last_refresh_success :: "u64 option"
  zs_consecutive_failures :: u32

definition root_zone_status_default :: root_zone_status where
  "root_zone_status_default =
     \<lparr>zs_state = Missing, zs_serial = None, zs_loaded_at = None, zs_source_url = None, zs_tld_count = 0, zs_file_age_days = None,
      zs_last_refresh_attempt = None, zs_last_refresh_success = None, zs_consecutive_failures = 0\<rparr>"

record root_zone_delegation =
  zd_servers :: "ip_addr list"
  zd_ttl :: u32

record 'n root_zone_data =
  rz_delegations :: "('n \<times> root_zone_delegation) list"
  rz_serial :: u32
  rz_loaded_at :: u64
  rz_source_url :: string

record root_zone_cache_entry =
  zj_name :: string
  zj_ttl :: u32
  zj_servers :: "string list"

record root_zone_cache_json =
  zj_serial :: u32
  zj_loaded_at :: u64
  zj_source_url :: string
  zj_delegations :: "root_zone_cache_entry list"

record root_zone_config =
  zc_url :: string
  zc_max_age_days :: u64
  zc_refresh_secs :: u64

definition root_zone_config_from_env :: "env \<Rightarrow> root_zone_config" where
  "root_zone_config_from_env env =
     \<lparr>zc_url = (case env ''ROOT_ZONE_URL'' of Some s \<Rightarrow> if s = [] then DEFAULT_URL else s | None \<Rightarrow> DEFAULT_URL),
      zc_max_age_days = env_u64 env ''ROOT_ZONE_MAX_AGE_DAYS'' DEFAULT_MAX_AGE_DAYS,
      zc_refresh_secs = env_u64 env ''ROOT_ZONE_REFRESH_HOURS'' DEFAULT_REFRESH_HOURS * 3600\<rparr>"

section \<open>Maps keyed by names\<close>

fun nm_get :: "'n lib \<Rightarrow> ('n \<times> 'v) list \<Rightarrow> 'n \<Rightarrow> 'v option" where
  "nm_get L [] n = None"
| "nm_get L ((k, v) # m) n = (if n_eq L k n then Some v else nm_get L m n)"

text \<open>\<open>entry(n).or_insert(d)\<close> followed by a change through the reference.\<close>

fun nm_entry :: "'n lib \<Rightarrow> 'n \<Rightarrow> 'v \<Rightarrow> ('v \<Rightarrow> 'v) \<Rightarrow> ('n \<times> 'v) list \<Rightarrow> ('n \<times> 'v) list" where
  "nm_entry L n d f [] = [(n, f d)]"
| "nm_entry L n d f ((k, v) # m) = (if n_eq L k n then (k, f v) # m else (k, v) # nm_entry L n d f m)"

text \<open>\<open>get_mut(n)\<close> followed by a change.\<close>

fun nm_modify :: "'n lib \<Rightarrow> 'n \<Rightarrow> ('v \<Rightarrow> 'v) \<Rightarrow> ('n \<times> 'v) list \<Rightarrow> ('n \<times> 'v) list" where
  "nm_modify L n f [] = []"
| "nm_modify L n f ((k, v) # m) = (if n_eq L k n then (k, f v) # m else (k, v) # nm_modify L n f m)"

section \<open>The parser\<close>

record line_acc =
  la_out :: "string list"
  la_current :: string
  la_depth :: int

definition strip_comment :: "string \<Rightarrow> string" where
  "strip_comment raw = takeWhile (\<lambda>c. c \<noteq> CHR '';'') raw"

definition logical_line :: "string \<Rightarrow> line_acc \<Rightarrow> line_acc" where
  "logical_line raw st =
     (let trimmed = trim (strip_comment raw) in
      if trimmed = [] \<and> la_depth st = 0 then st
      else let depth = fold (\<lambda>c d. if c = CHR ''('' then d + 1 else if c = CHR '')'' then d - 1 else d) trimmed (la_depth st);
               depth = (if depth < 0 then 0 else depth);
               current = (if la_current st \<noteq> [] then la_current st @ '' '' else la_current st) @ trimmed in
           if depth = 0 then \<lparr>la_out = la_out st @ [trim current], la_current = [], la_depth = depth\<rparr>
           else st\<lparr>la_current := current, la_depth := depth\<rparr>)"

definition logical_lines :: "string \<Rightarrow> string list" where
  "logical_lines content =
     (let st = fold logical_line (str_lines content) \<lparr>la_out = [], la_current = [], la_depth = 0\<rparr> in
      if trim (la_current st) \<noteq> [] then la_out st @ [trim (la_current st)] else la_out st)"

record 'n zone_acc =
  za_delegations :: "('n \<times> root_zone_delegation) list"
  za_glue :: "('n \<times> ip_addr list) list"
  za_serial :: u32
  za_seen_soa :: bool

text \<open>One line of the first pass, as its fields.\<close>

definition zone_line :: "'n lib \<Rightarrow> string list \<Rightarrow> 'n zone_acc \<Rightarrow> 'n zone_acc" where
  "zone_line L flds st =
     (if length flds < 4 then st
      else let ttl = (case parse_unsigned (2 ^ 32) (flds ! 1) of Some v \<Rightarrow> of_nat v | None \<Rightarrow> 0); rtype = flds ! 3 in
        case n_from_str L (flds ! 0) of
          None \<Rightarrow> st
        | Some owner \<Rightarrow>
            if rtype = ''SOA'' then
              (if \<not> za_seen_soa st \<and> length flds \<ge> 7
               then (case parse_unsigned (2 ^ 32) (flds ! 6) of
                       Some s \<Rightarrow> st\<lparr>za_serial := of_nat s, za_seen_soa := True\<rparr>
                     | None \<Rightarrow> st)
               else st)
            else if rtype = ''NS'' then
              (if length flds < 5 \<or> n_is_root L owner then st
               else case n_from_str L (flds ! 4) of
                      None \<Rightarrow> st
                    | Some ns_name \<Rightarrow>
                        st\<lparr>za_delegations := nm_entry L owner \<lparr>zd_servers = [], zd_ttl = ttl\<rparr> (\<lambda>d. d) (za_delegations st),
                           za_glue := nm_entry L ns_name [] (\<lambda>ips. ips) (za_glue st)\<rparr>)
            else if rtype = ''A'' \<or> rtype = ''AAAA'' then
              (if length flds < 5 then st
               else case parse_ip (flds ! 4) of
                      Some ip \<Rightarrow> st\<lparr>za_glue := nm_entry L owner [] (\<lambda>ips. ips @ [ip]) (za_glue st)\<rparr>
                    | None \<Rightarrow> st)
            else st)"

text \<open>One line of the second pass.\<close>

definition ns_line :: "'n lib \<Rightarrow> string list \<Rightarrow> ('n \<times> 'n list) list \<Rightarrow> ('n \<times> 'n list) list" where
  "ns_line L flds m =
     (if length flds < 5 \<or> flds ! 3 \<noteq> ''NS'' then m
      else case n_from_str L (flds ! 0) of
        None \<Rightarrow> m
      | Some owner \<Rightarrow>
          if n_is_root L owner then m
          else case n_from_str L (flds ! 4) of
                 None \<Rightarrow> m
               | Some ns_name \<Rightarrow> nm_entry L owner [] (\<lambda>ns. ns @ [ns_name]) m)"

definition glue_of :: "'n lib \<Rightarrow> ('n \<times> ip_addr list) list \<Rightarrow> 'n list \<Rightarrow> ip_addr list" where
  "glue_of L glue ns_names = concat (map (\<lambda>ns. case nm_get L glue ns of Some ips \<Rightarrow> ips | None \<Rightarrow> []) ns_names)"

definition parse_fields :: "'n lib \<Rightarrow> string list list \<Rightarrow> ('n \<times> root_zone_delegation) list \<times> u32" where
  "parse_fields L lines =
     (let st = fold (zone_line L) lines \<lparr>za_delegations = [], za_glue = [], za_serial = 0, za_seen_soa = False\<rparr>;
          ns_owners = fold (ns_line L) lines [];
          dels = fold (\<lambda>(owner, ns_names). nm_modify L owner (\<lambda>d. d\<lparr>zd_servers := zd_servers d @ glue_of L (za_glue st) ns_names\<rparr>))
                   ns_owners (za_delegations st)
      in (filter (\<lambda>(_, d). zd_servers d \<noteq> []) dels, za_serial st))"

datatype root_zone_error = No_Usable_Delegations | Too_Few_Delegations nat | Too_Small nat | Download_Failed | Read_Failed

definition parse_root_zone :: "'n lib \<Rightarrow> u64 \<Rightarrow> string \<Rightarrow> string \<Rightarrow> root_zone_error + 'n root_zone_data" where
  "parse_root_zone L now content source_url =
     (case parse_fields L (map split_whitespace (logical_lines content)) of
        (dels, serial) \<Rightarrow>
          if dels = [] then Inl No_Usable_Delegations
          else Inr \<lparr>rz_delegations = dels, rz_serial = serial, rz_loaded_at = now, rz_source_url = source_url\<rparr>)"

definition classify_age :: "u64 \<Rightarrow> u64 \<Rightarrow> root_zone_state" where
  "classify_age age_days max_age_days =
     (if age_days > max_age_days then TooOld
      else if age_days > max_age_days div 2 then StaleButUsable
      else Valid)"

section \<open>Installation\<close>

definition install_entry :: "'n lib \<Rightarrow> u64 \<Rightarrow> 'n \<times> root_zone_delegation \<Rightarrow> delegation_cache \<Rightarrow> delegation_cache" where
  "install_entry L now td cache =
     (case td of (tld, del) \<Rightarrow>
        if zd_servers del = [] then cache
        else dm_insert (name_key L tld)
               \<lparr>de_servers = zd_servers del, de_expires_at = saturating_add now (min (ucast (zd_ttl del)) ROOT_ZONE_TTL_CAP_SECS),
                de_source = RootZone\<rparr> cache)"

definition install_to_cache :: "'n lib \<Rightarrow> u64 \<Rightarrow> 'n root_zone_data \<Rightarrow> delegation_cache \<Rightarrow> delegation_cache" where
  "install_to_cache L now data cache =
     fold (install_entry L now) (rz_delegations data) (dm_retain (\<lambda>_ v. de_source v \<noteq> RootZone) cache)"

section \<open>Files\<close>

definition save_json :: "'n lib \<Rightarrow> 'n root_zone_data \<Rightarrow> root_zone_cache_json" where
  "save_json L data =
     \<lparr>zj_serial = rz_serial data, zj_loaded_at = rz_loaded_at data, zj_source_url = rz_source_url data,
      zj_delegations = map (\<lambda>(name, del). \<lparr>zj_name = n_to_string L name, zj_ttl = zd_ttl del,
        zj_servers = map show_ip (zd_servers del)\<rparr>) (rz_delegations data)\<rparr>"

definition load_json_entry :: "'n lib \<Rightarrow> root_zone_cache_entry \<Rightarrow> ('n \<times> root_zone_delegation) list \<Rightarrow> ('n \<times> root_zone_delegation) list" where
  "load_json_entry L entry m =
     (case n_from_str L (zj_name entry) of
        None \<Rightarrow> m
      | Some name \<Rightarrow>
          (let servers = filter_map parse_ip (zj_servers entry); d = \<lparr>zd_servers = servers, zd_ttl = zj_ttl entry\<rparr> in
           if servers = [] then m else nm_entry L name d (\<lambda>_. d) m))"

definition try_load_json :: "'n lib \<Rightarrow> root_zone_cache_json option \<Rightarrow> root_zone_error + 'n root_zone_data" where
  "try_load_json L file' =
     (case file' of
        None \<Rightarrow> Inl Read_Failed
      | Some cached \<Rightarrow>
          (let delegations = fold (load_json_entry L) (zj_delegations cached) [] in
           if length delegations < 100 then Inl (Too_Few_Delegations (length delegations))
           else Inr \<lparr>rz_delegations = delegations, rz_serial = zj_serial cached, rz_loaded_at = zj_loaded_at cached,
                     rz_source_url = zj_source_url cached\<rparr>))"

definition try_load_text :: "'n lib \<Rightarrow> root_zone_config \<Rightarrow> u64 \<Rightarrow> string option \<Rightarrow> root_zone_error + 'n root_zone_data" where
  "try_load_text L cfg now file' =
     (case file' of None \<Rightarrow> Inl Read_Failed | Some content \<Rightarrow> parse_root_zone L now content (zc_url cfg))"

section \<open>The manager\<close>

record root_zone_manager =
  rm_status :: root_zone_status
  rm_delegations :: delegation_cache
  rm_text_file :: "string option"
  rm_json_file :: "root_zone_cache_json option"

definition set_status_loaded :: "'n root_zone_data \<Rightarrow> u64 option \<Rightarrow> root_zone_state \<Rightarrow> root_zone_status \<Rightarrow> root_zone_status" where
  "set_status_loaded data age_days state s =
     s\<lparr>zs_state := state, zs_serial := Some (rz_serial data), zs_loaded_at := Some (rz_loaded_at data),
       zs_source_url := Some (rz_source_url data), zs_tld_count := length (rz_delegations data), zs_file_age_days := age_days\<rparr>"

definition download :: "string option \<Rightarrow> root_zone_error + string" where
  "download response =
     (case response of
        None \<Rightarrow> Inl Download_Failed
      | Some content \<Rightarrow> if length content < MIN_DOWNLOAD_BYTES then Inl (Too_Small (length content)) else Inr content)"

definition download_and_refresh ::
  "'n lib \<Rightarrow> root_zone_config \<Rightarrow> u64 \<Rightarrow> string option \<Rightarrow> bool \<Rightarrow> bool \<Rightarrow> root_zone_manager \<Rightarrow> (root_zone_error + unit) \<times> root_zone_manager" where
  "download_and_refresh L cfg now response text_written json_written m =
     (case download response of
        Inl e \<Rightarrow> (Inl e, m)
      | Inr content \<Rightarrow>
          (case parse_root_zone L now content (zc_url cfg) of
             Inl e \<Rightarrow> (Inl e, m)
           | Inr data \<Rightarrow>
               if length (rz_delegations data) < 100 then (Inl (Too_Few_Delegations (length (rz_delegations data))), m)
               else (Inr (),
                 m\<lparr>rm_delegations := install_to_cache L now data (rm_delegations m),
                   rm_text_file := (if text_written then Some content else rm_text_file m),
                   rm_json_file := (if json_written then Some (save_json L data) else rm_json_file m),
                   rm_status := (set_status_loaded data (Some 0) Valid (rm_status m))
                     \<lparr>zs_last_refresh_attempt := Some now, zs_last_refresh_success := Some now, zs_consecutive_failures := 0\<rparr>\<rparr>)))"

definition refresh_tick ::
  "'n lib \<Rightarrow> root_zone_config \<Rightarrow> u64 \<Rightarrow> string option \<Rightarrow> bool \<Rightarrow> bool \<Rightarrow> root_zone_manager \<Rightarrow> root_zone_manager" where
  "refresh_tick L cfg now response text_written json_written m =
     (case download_and_refresh L cfg now response text_written json_written m of
        (Inr _, m) \<Rightarrow> m
      | (Inl _, m) \<Rightarrow>
          m\<lparr>rm_status := (rm_status m)\<lparr>zs_last_refresh_attempt := Some now,
             zs_consecutive_failures := saturating_add (zs_consecutive_failures (rm_status m)) 1\<rparr>\<rparr>)"

text \<open>The ticks of the refresh loop; \<open>None\<close> where \<open>tokio::time::interval\<close> panics on an interval of zero.\<close>

definition refresh_loop ::
  "'n lib \<Rightarrow> root_zone_config \<Rightarrow> (u64 \<times> string option \<times> bool \<times> bool) list \<Rightarrow> root_zone_manager \<Rightarrow> root_zone_manager option" where
  "refresh_loop L cfg ticks m =
     (if zc_refresh_secs cfg = 0 then None
      else Some (fold (\<lambda>(now, response, text_written, json_written). refresh_tick L cfg now response text_written json_written) ticks m))"

definition current_status :: "root_zone_manager option \<Rightarrow> root_zone_status" where
  "current_status manager = (case manager of Some m \<Rightarrow> rm_status m | None \<Rightarrow> root_zone_status_default)"

text \<open>\<open>start\<close>: the zone found in the files, and what is done with it; \<open>True\<close> when a download is started instead.\<close>

definition initial_zone :: "'n lib \<Rightarrow> root_zone_config \<Rightarrow> u64 \<Rightarrow> root_zone_manager \<Rightarrow> 'n root_zone_data option" where
  "initial_zone L cfg now m =
     (case try_load_json L (rm_json_file m) of
        Inr d \<Rightarrow> Some d
      | Inl _ \<Rightarrow> (case try_load_text L cfg now (rm_text_file m) of Inr d \<Rightarrow> Some d | Inl _ \<Rightarrow> None))"

definition manager_start :: "'n lib \<Rightarrow> root_zone_config \<Rightarrow> u64 \<Rightarrow> root_zone_manager \<Rightarrow> bool \<times> root_zone_manager" where
  "manager_start L cfg now m =
     (case initial_zone L cfg now m of
        Some data \<Rightarrow>
          (let age_days = saturating_sub now (rz_loaded_at data) div 86400 in
           (False, m\<lparr>rm_delegations := install_to_cache L now data (rm_delegations m),
              rm_status := set_status_loaded data (Some age_days) (classify_age age_days (zc_max_age_days cfg)) (rm_status m)\<rparr>))
      | None \<Rightarrow> (True, m))"

section \<open>Refreshes\<close>

text \<open>A refresh either installs a zone of at least a hundred TLDs, or it changes nothing but the record of its failure.\<close>

lemma refresh_tick_cases:
  fixes m :: root_zone_manager
  obtains (failed) e where "fst (download_and_refresh L cfg now response tw jw m) = Inl e"
    "refresh_tick L cfg now response tw jw m = m\<lparr>rm_status := (rm_status m)\<lparr>zs_last_refresh_attempt := Some now,
       zs_consecutive_failures := saturating_add (zs_consecutive_failures (rm_status m)) 1\<rparr>\<rparr>"
  | (refreshed) content data where "response = Some content" "MIN_DOWNLOAD_BYTES \<le> length content"
    "parse_root_zone L now content (zc_url cfg) = Inr data" "100 \<le> length (rz_delegations data)"
    "rm_delegations (refresh_tick L cfg now response tw jw m) = install_to_cache L now data (rm_delegations m)"
    "zs_consecutive_failures (rm_status (refresh_tick L cfg now response tw jw m)) = 0"
proof (cases "download_and_refresh L cfg now response tw jw m")
  case (Pair r m')
  show thesis
  proof (cases r)
    case (Inl e)
    with Pair have "m' = m" by (auto simp: download_and_refresh_def split: sum.splits if_splits)
    then show thesis using failed [of e] Pair Inl by (simp add: refresh_tick_def)
  next
    case (Inr u)
    with Pair show thesis using refreshed
      by (auto simp: refresh_tick_def download_and_refresh_def download_def split: sum.splits if_splits option.splits)
  qed
qed

text \<open>As long as no refresh succeeds, the data in use stays and the failures are counted up to the largest \<open>u32\<close>.\<close>

lemma refresh_loop_keeps:
  assumes "\<forall>(now, response, tw, jw) \<in> set ticks. download response = Inl Download_Failed" and "refresh_loop L cfg ticks m = Some m'"
  shows "rm_delegations m' = rm_delegations m \<and> rm_text_file m' = rm_text_file m \<and> rm_json_file m' = rm_json_file m \<and>
    zs_serial (rm_status m') = zs_serial (rm_status m) \<and>
    unat (zs_consecutive_failures (rm_status m')) = min (unat (zs_consecutive_failures (rm_status m)) + length ticks) (2 ^ 32 - 1)"
proof -
  let ?f = "\<lambda>(now, response, tw, jw). refresh_tick L cfg now response tw jw"
  have "rm_delegations (fold ?f ticks m) = rm_delegations m \<and> rm_text_file (fold ?f ticks m) = rm_text_file m \<and>
    rm_json_file (fold ?f ticks m) = rm_json_file m \<and> zs_serial (rm_status (fold ?f ticks m)) = zs_serial (rm_status m) \<and>
    unat (zs_consecutive_failures (rm_status (fold ?f ticks m))) = min (unat (zs_consecutive_failures (rm_status m)) + length ticks) (2 ^ 32 - 1)"
    using assms(1)
  proof (induction ticks arbitrary: m)
    case Nil
    have "unat (zs_consecutive_failures (rm_status m)) < 2 ^ 32" using unsigned_less [of "zs_consecutive_failures (rm_status m)"] by simp
    then show ?case by simp
  next
    case (Cons t ticks)
    obtain now response tw jw where t: "t = (now, response, tw, jw)" by (cases t)
    with Cons.prems have "download response = Inl Download_Failed" by simp
    then have "?f t m = m\<lparr>rm_status := (rm_status m)\<lparr>zs_last_refresh_attempt := Some now,
        zs_consecutive_failures := saturating_add (zs_consecutive_failures (rm_status m)) 1\<rparr>\<rparr>"
      by (simp add: t refresh_tick_def download_and_refresh_def)
    then show ?case using Cons.IH [of "?f t m"] Cons.prems by (simp add: unat_saturating_add)
  qed
  with assms(2) show ?thesis by (simp add: refresh_loop_def split: if_splits)
qed

section \<open>The list of popular domains\<close>

text \<open>\<open>load_from_file\<close> and the loop of \<open>download_and_extract\<close>; comments are skipped in the file only.\<close>

definition tranco_domain :: "bool \<Rightarrow> string \<Rightarrow> string option" where
  "tranco_domain comments line =
     (let trimmed = trim line in
      if trimmed = [] \<or> (comments \<and> starts_with trimmed ''#'') then None
      else let domain = (case split_once (CHR '','') trimmed of Some (_, d) \<Rightarrow> trim d | None \<Rightarrow> trimmed) in
           if domain = [] then None else Some domain)"

definition tranco_domains :: "bool \<Rightarrow> nat \<Rightarrow> string list \<Rightarrow> string list" where
  "tranco_domains comments limit lines = take (max 1 limit) (filter_map (tranco_domain comments) lines)"

definition EMBEDDED_FALLBACK :: "string list" where
  "EMBEDDED_FALLBACK =
     [''google.com'', ''youtube.com'', ''facebook.com'', ''wikipedia.org'', ''amazon.com'', ''reddit.com'', ''netflix.com'',
      ''bing.com'', ''microsoft.com'', ''apple.com'', ''github.com'', ''cloudflare.com'', ''archlinux.org'', ''ubuntu.com'', ''example.com'']"

text \<open>\<open>local\<close>: the lines of the file, if it is there and can be opened; \<open>archive\<close>: those of the
  downloaded archive; \<open>created\<close>: whether the file can be written. The result and the new file.\<close>

definition get_or_download_tranco ::
  "nat \<Rightarrow> string list option \<Rightarrow> string list option \<Rightarrow> bool \<Rightarrow> string list \<times> string list option" where
  "get_or_download_tranco limit local archive created =
     (if limit = 0 then ([], local)
      else let from_file = (case local of Some ls \<Rightarrow> tranco_domains True limit ls | None \<Rightarrow> []) in
        if length from_file \<ge> limit then (from_file, local)
        else case archive of
          Some ls \<Rightarrow> (let ds = tranco_domains False limit ls in (ds, if created then Some ds else local))
        | None \<Rightarrow> (take limit EMBEDDED_FALLBACK, local))"

section \<open>Installation replaces the root zone entries\<close>

lemma install_fold_get:
  assumes "distinct (map (\<lambda>(tld, _). name_key L tld) dels)"
  shows "dm_get (fold (install_entry L now) dels c) k =
    (case List.find (\<lambda>(tld, del). name_key L tld = k \<and> zd_servers del \<noteq> []) dels of
       Some (tld, del) \<Rightarrow> Some \<lparr>de_servers = zd_servers del,
         de_expires_at = saturating_add now (min (ucast (zd_ttl del)) ROOT_ZONE_TTL_CAP_SECS), de_source = RootZone\<rparr>
     | None \<Rightarrow> dm_get c k)"
  using assms
proof (induction dels arbitrary: c)
  case (Cons td dels)
  obtain tld del where td: "td = (tld, del)" by (cases td)
  have none: "List.find (\<lambda>(t, d). name_key L t = name_key L tld \<and> zd_servers d \<noteq> []) dels = None"
    using Cons.prems unfolding find_None_iff by (auto simp: td image_iff)
  show ?case
  proof (cases "name_key L tld = k \<and> zd_servers del \<noteq> []")
    case True
    with Cons none show ?thesis by (simp add: td install_entry_def dm.get_insert)
  next
    case False
    then have get: "dm_get (install_entry L now td c) k = dm_get c k" by (auto simp: td install_entry_def dm.get_insert)
    have "List.find (\<lambda>(tld, del). name_key L tld = k \<and> zd_servers del \<noteq> []) (td # dels) =
      List.find (\<lambda>(tld, del). name_key L tld = k \<and> zd_servers del \<noteq> []) dels" using False by (auto simp: td)
    with Cons.IH [of "install_entry L now td c"] Cons.prems get show ?thesis by (simp only: fold_simps o_apply list.map distinct.simps)
  qed
qed simp

text \<open>
  Installing a root zone replaces exactly what came from a root zone before: every TLD of the new
  zone with servers maps to those servers, until its TTL, capped at seven days, has passed; every
  other root zone entry is gone; and delegations learned from the network are untouched.
\<close>

lemma install_to_cache_exact:
  assumes "dm_ok cache" and "distinct (map (\<lambda>(tld, _). name_key L tld) (rz_delegations data))"
  shows "dm_get (install_to_cache L now data cache) k =
    (case List.find (\<lambda>(tld, del). name_key L tld = k \<and> zd_servers del \<noteq> []) (rz_delegations data) of
       Some (tld, del) \<Rightarrow> Some \<lparr>de_servers = zd_servers del,
         de_expires_at = saturating_add now (min (ucast (zd_ttl del)) ROOT_ZONE_TTL_CAP_SECS), de_source = RootZone\<rparr>
     | None \<Rightarrow> (case dm_get cache k of Some e \<Rightarrow> if de_source e = RootZone then None else Some e | None \<Rightarrow> None))"
  unfolding install_to_cache_def install_fold_get [OF assms(2)]
  by (simp add: dm.get_retain [OF assms(1)] split: option.splits prod.splits)

section \<open>The parser reads glue\<close>

text \<open>The laws of the maps keyed by names, for an equality of names that is an equivalence.\<close>

lemma nm_get_entry:
  assumes "equivp (n_eq L)"
  shows "nm_get L (nm_entry L n d f m) n' =
    (if n_eq L n n' then Some (f (case nm_get L m n of Some v \<Rightarrow> v | None \<Rightarrow> d)) else nm_get L m n')"
proof (induction m)
  case (Cons kv m)
  obtain k v where kv: "kv = (k, v)" by (cases kv)
  show ?case
  proof (cases "n_eq L k n")
    case True
    then have "n_eq L k n' = n_eq L n n'" using equivp_symp [OF assms] equivp_transp [OF assms] by metis
    with True show ?thesis by (simp add: kv)
  next
    case False
    then have "n_eq L k n' \<Longrightarrow> \<not> n_eq L n n'" using equivp_symp [OF assms] equivp_transp [OF assms] by metis
    with False Cons show ?thesis by (auto simp: kv)
  qed
qed simp

lemma nm_get_modify:
  assumes "equivp (n_eq L)"
  shows "nm_get L (nm_modify L n f m) n' = (if n_eq L n n' then map_option f (nm_get L m n') else nm_get L m n')"
proof (induction m)
  case (Cons kv m)
  obtain k v where kv: "kv = (k, v)" by (cases kv)
  show ?case
  proof (cases "n_eq L k n")
    case True
    then have "n_eq L k n' = n_eq L n n'" using equivp_symp [OF assms] equivp_transp [OF assms] by metis
    with True show ?thesis by (simp add: kv)
  next
    case False
    then have "n_eq L k n' \<Longrightarrow> \<not> n_eq L n n'" using equivp_symp [OF assms] equivp_transp [OF assms] by metis
    with False Cons show ?thesis by (auto simp: kv)
  qed
qed simp

text \<open>The keys of a map are pairwise different.\<close>

definition nm_ok :: "'n lib \<Rightarrow> ('n \<times> 'v) list \<Rightarrow> bool" where
  "nm_ok L m \<longleftrightarrow> sorted_wrt (\<lambda>a b. \<not> n_eq L a b) (map fst m)"

lemma nm_ok_Nil [simp]: "nm_ok L []"
  by (simp add: nm_ok_def)

lemma nm_entry_keys:
  "map fst (nm_entry L n d f m) = map fst m \<or> (\<forall>k \<in> set (map fst m). \<not> n_eq L k n) \<and> map fst (nm_entry L n d f m) = map fst m @ [n]"
  by (induction m) (auto split: if_splits)

lemma nm_ok_entry: "nm_ok L m \<Longrightarrow> nm_ok L (nm_entry L n d f m)"
  using nm_entry_keys [of L n d f m] by (auto simp: nm_ok_def sorted_wrt_append)

lemma nm_modify_keys: "map fst (nm_modify L n f m) = map fst m"
  by (induction m) (auto split: if_splits)

lemma nm_get_filter:
  assumes "equivp (n_eq L)" and "nm_ok L m"
  shows "nm_get L (filter (\<lambda>(_, v). P v) m) n = (case nm_get L m n of Some v \<Rightarrow> if P v then Some v else None | None \<Rightarrow> None)"
  using assms(2)
proof (induction m)
  case (Cons kv m)
  obtain k v where kv: "kv = (k, v)" by (cases kv)
  have ok: "nm_ok L m" and new: "\<forall>k' \<in> set (map fst m). \<not> n_eq L k k'" using Cons.prems by (auto simp: nm_ok_def kv)
  have "nm_get L m' n = None" if "n_eq L k n" "set m' \<subseteq> set m" for m'
    using that new by (induction m') (auto, metis equivp_symp [OF assms(1)] equivp_transp [OF assms(1)] fst_conv)
  from this [of m] this [of "filter (\<lambda>(_, v). P v) m"] Cons.IH [OF ok] show ?case by (auto simp: kv split: option.splits)
qed simp

text \<open>The union of the lists a map holds for a name.\<close>

definition nm_set :: "'n lib \<Rightarrow> ('n \<times> 'v list) list \<Rightarrow> 'n \<Rightarrow> 'v set" where
  "nm_set L m n = {x. \<exists>(k, v) \<in> set m. n_eq L k n \<and> x \<in> set v}"

lemma nm_set_entry:
  assumes "equivp (n_eq L)"
  shows "nm_set L (nm_entry L n [] (\<lambda>xs. xs @ [x]) m) n' = nm_set L m n' \<union> (if n_eq L n n' then {x} else {})"
proof (induction m)
  case (Cons kv m)
  obtain k v where kv: "kv = (k, v)" by (cases kv)
  have split: "nm_set L (a # l) n' = (if n_eq L (fst a) n' then set (snd a) else {}) \<union> nm_set L l n'" for a l
    by (cases a) (auto simp: nm_set_def)
  have "n_eq L k n' = n_eq L n n'" if "n_eq L k n"
    using that equivp_symp [OF assms] equivp_transp [OF assms] by metis
  with Cons show ?case by (auto simp: kv split)
qed (simp add: nm_set_def)

text \<open>A record of the file: an NS record of a name below the root, an address record.\<close>

definition ns_record :: "'n lib \<Rightarrow> string list \<Rightarrow> 'n \<Rightarrow> 'n \<Rightarrow> bool" where
  "ns_record L flds owner ns \<longleftrightarrow> length flds \<ge> 5 \<and> flds ! 3 = ''NS'' \<and> n_from_str L (flds ! 0) = Some owner \<and>
     n_from_str L (flds ! 4) = Some ns \<and> \<not> n_is_root L owner"

definition addr_record :: "'n lib \<Rightarrow> string list \<Rightarrow> 'n \<Rightarrow> ip_addr \<Rightarrow> bool" where
  "addr_record L flds owner ip \<longleftrightarrow> length flds \<ge> 5 \<and> flds ! 3 \<in> {''A'', ''AAAA''} \<and> n_from_str L (flds ! 0) = Some owner \<and>
     parse_ip (flds ! 4) = Some ip"

definition ns_names :: "'n lib \<Rightarrow> string list list \<Rightarrow> 'n \<Rightarrow> 'n set" where
  "ns_names L lines tld = {ns. \<exists>flds \<in> set lines. \<exists>owner. ns_record L flds owner ns \<and> n_eq L owner tld}"

definition glue_addrs :: "'n lib \<Rightarrow> string list list \<Rightarrow> 'n \<Rightarrow> ip_addr set" where
  "glue_addrs L lines ns = {ip. \<exists>flds \<in> set lines. \<exists>owner. addr_record L flds owner ip \<and> n_eq L owner ns}"

abbreviation glue_set :: "'n lib \<Rightarrow> ('n \<times> ip_addr list) list \<Rightarrow> 'n \<Rightarrow> ip_addr set" where
  "glue_set L glue n \<equiv> (case nm_get L glue n of Some ips \<Rightarrow> set ips | None \<Rightarrow> {})"

lemma ns_names_simps: "ns_names L [] n = {}"
  "ns_names L (flds # lines) n = {ns. \<exists>owner. ns_record L flds owner ns \<and> n_eq L owner n} \<union> ns_names L lines n"
  by (auto simp: ns_names_def)

lemma glue_addrs_simps: "glue_addrs L [] n = {}"
  "glue_addrs L (flds # lines) n = {ip. \<exists>owner. addr_record L flds owner ip \<and> n_eq L owner n} \<union> glue_addrs L lines n"
  by (auto simp: glue_addrs_def)

lemma ns_line_set:
  assumes "equivp (n_eq L)"
  shows "nm_set L (ns_line L flds m) n = nm_set L m n \<union> {ns. \<exists>owner. ns_record L flds owner ns \<and> n_eq L owner n}"
  by (auto simp: ns_line_def ns_record_def nm_set_entry [OF assms] split: option.splits)

lemma ns_lines_set:
  assumes "equivp (n_eq L)"
  shows "nm_set L (fold (ns_line L) lines m) n = nm_set L m n \<union> ns_names L lines n"
  by (induction lines arbitrary: m) (auto simp: ns_names_simps ns_line_set [OF assms])

lemma zone_line_glue:
  assumes eqv: "equivp (n_eq L)"
  shows "glue_set L (za_glue (zone_line L flds st)) n =
    glue_set L (za_glue st) n \<union> {ip. \<exists>owner. addr_record L flds owner ip \<and> n_eq L owner n}"
proof -
  have same: "nm_get L (za_glue st) a = nm_get L (za_glue st) b" if "n_eq L a b" for a b
  proof -
    have "n_eq L k a = n_eq L k b" for k using that equivp_symp [OF eqv] equivp_transp [OF eqv] by metis
    then have "nm_get L m a = nm_get L m b" for m :: "('a \<times> ip_addr list) list" by (induction m) auto
    then show ?thesis .
  qed
  show ?thesis
    by (auto simp: zone_line_def Let_def addr_record_def nm_get_entry [OF eqv] split: option.splits if_splits dest: same)
qed

lemma zone_lines_glue:
  assumes "equivp (n_eq L)"
  shows "glue_set L (za_glue (fold (zone_line L) lines st)) n = glue_set L (za_glue st) n \<union> glue_addrs L lines n"
  by (induction lines arbitrary: st) (auto simp: glue_addrs_simps zone_line_glue [OF assms])

text \<open>What the first pass knows of a TLD: its keys are different, nobody has servers yet, and a name is
  a key exactly when it has an NS record.\<close>

definition dels_ok :: "'n lib \<Rightarrow> ('n \<times> root_zone_delegation) list \<Rightarrow> bool" where
  "dels_ok L dels \<longleftrightarrow> nm_ok L dels \<and> (\<forall>n d. nm_get L dels n = Some d \<longrightarrow> zd_servers d = [])"

lemma zone_line_dels:
  assumes eqv: "equivp (n_eq L)" and ok: "dels_ok L (za_delegations st)"
  shows "dels_ok L (za_delegations (zone_line L flds st))" (is ?ok)
    and "(nm_get L (za_delegations (zone_line L flds st)) n = None) =
      (nm_get L (za_delegations st) n = None \<and> {ns. \<exists>owner. ns_record L flds owner ns \<and> n_eq L owner n} = {})" (is ?none)
proof -
  show ?ok
    using ok by (auto simp: zone_line_def Let_def dels_ok_def nm_get_entry [OF eqv] nm_ok_entry split: option.splits if_splits)
  show ?none
    by (auto simp: zone_line_def Let_def ns_record_def nm_get_entry [OF eqv] split: option.splits)
qed

lemma zone_lines_dels:
  assumes "equivp (n_eq L)" and "dels_ok L (za_delegations st)"
  shows "dels_ok L (za_delegations (fold (zone_line L) lines st)) \<and>
    ((nm_get L (za_delegations (fold (zone_line L) lines st)) n = None) =
       (nm_get L (za_delegations st) n = None \<and> ns_names L lines n = {}))"
  using assms(2)
proof (induction lines arbitrary: st)
  case (Cons flds lines)
  have "dels_ok L (za_delegations (zone_line L flds st))" by (rule zone_line_dels(1) [OF assms(1) Cons.prems])
  from Cons.IH [OF this] zone_line_dels(2) [OF assms(1) Cons.prems, of flds n] show ?case by (simp add: ns_names_simps)
qed (simp add: ns_names_simps)

text \<open>The last loop gives every TLD the glue of its name servers.\<close>

abbreviation attach :: "'n lib \<Rightarrow> ('n \<times> ip_addr list) list \<Rightarrow> 'n \<times> 'n list \<Rightarrow> ('n \<times> root_zone_delegation) list \<Rightarrow> ('n \<times> root_zone_delegation) list" where
  "attach L glue \<equiv> \<lambda>(owner, nss). nm_modify L owner (\<lambda>d. d\<lparr>zd_servers := zd_servers d @ glue_of L glue nss\<rparr>)"

lemma glue_of_set: "set (glue_of L glue nss) = (\<Union>ns \<in> set nss. glue_set L glue ns)"
proof -
  have "set (case o' of Some ips \<Rightarrow> ips | None \<Rightarrow> []) = (case o' of Some ips \<Rightarrow> set ips | None \<Rightarrow> {})" for o' :: "ip_addr list option"
    by (cases o') simp_all
  then show ?thesis by (simp add: glue_of_def)
qed

lemma attach_all:
  assumes eqv: "equivp (n_eq L)"
  shows "map_option (\<lambda>d. set (zd_servers d)) (nm_get L (fold (attach L glue) owners dels) n) =
    map_option (\<lambda>d. set (zd_servers d) \<union> (\<Union>ns \<in> nm_set L owners n. glue_set L glue ns)) (nm_get L dels n)"
proof (induction owners arbitrary: dels)
  case (Cons on owners)
  obtain owner nss where on: "on = (owner, nss)" by (cases on)
  have "nm_set L (on # owners) n = (if n_eq L owner n then set nss else {}) \<union> nm_set L owners n" by (auto simp: on nm_set_def)
  with Cons.IH [of "attach L glue on dels"] show ?case
    by (cases "nm_get L dels n") (auto simp: on nm_get_modify [OF eqv] glue_of_set)
qed (cases "nm_get L dels n"; simp add: nm_set_def)

lemma attach_ok: "nm_ok L dels \<Longrightarrow> nm_ok L (fold (attach L glue) owners dels)"
  by (induction owners arbitrary: dels) (auto simp: nm_ok_def nm_modify_keys)

lemma parse_fields_servers:
  assumes eqv: "equivp (n_eq L)"
  defines "dels lines \<equiv> fst (parse_fields L lines)"
  shows "(case nm_get L (dels lines) tld of Some d \<Rightarrow> set (zd_servers d) | None \<Rightarrow> {}) = (\<Union>ns \<in> ns_names L lines tld. glue_addrs L lines ns)"
    and "nm_get L (dels lines) tld = Some d \<Longrightarrow> zd_servers d \<noteq> []"
proof -
  define st where "st = fold (zone_line L) lines \<lparr>za_delegations = [], za_glue = [], za_serial = 0, za_seen_soa = False\<rparr>"
  define all where "all = fold (attach L (za_glue st)) (fold (ns_line L) lines []) (za_delegations st)"
  have d: "dels lines = filter (\<lambda>(_, d). zd_servers d \<noteq> []) all"
    by (simp add: dels_def parse_fields_def Let_def all_def st_def)
  have glue: "glue_set L (za_glue st) ns = glue_addrs L lines ns" for ns by (simp add: st_def zone_lines_glue [OF eqv])
  have ok: "dels_ok L (za_delegations st)" and none: "(nm_get L (za_delegations st) tld = None) = (ns_names L lines tld = {})"
    using zone_lines_dels [OF eqv, of "\<lparr>za_delegations = [], za_glue = [], za_serial = 0, za_seen_soa = False\<rparr>" lines tld]
    by (simp_all add: st_def dels_ok_def)
  have "nm_ok L all" unfolding all_def by (rule attach_ok) (use ok in \<open>simp add: dels_ok_def\<close>)
  from nm_get_filter [OF eqv this]
  have get: "nm_get L (dels lines) tld = (case nm_get L all tld of Some d \<Rightarrow> if zd_servers d \<noteq> [] then Some d else None | None \<Rightarrow> None)"
    by (simp add: d)
  have "nm_set L (fold (ns_line L) lines []) tld = ns_names L lines tld"
    using ns_lines_set [OF eqv, of lines "[]" tld] by (simp add: nm_set_def)
  then have "map_option (\<lambda>d. set (zd_servers d)) (nm_get L all tld) =
      map_option (\<lambda>d. \<Union>ns \<in> ns_names L lines tld. glue_addrs L lines ns) (nm_get L (za_delegations st) tld)"
    using ok by (cases "nm_get L (za_delegations st) tld") (simp_all add: all_def attach_all [OF eqv] glue dels_ok_def)
  then show "(case nm_get L (dels lines) tld of Some d \<Rightarrow> set (zd_servers d) | None \<Rightarrow> {}) = (\<Union>ns \<in> ns_names L lines tld. glue_addrs L lines ns)"
    using none by (cases "nm_get L (za_delegations st) tld"; cases "nm_get L all tld") (auto simp: get)
  show "nm_get L (dels lines) tld = Some d \<Longrightarrow> zd_servers d \<noteq> []"
    by (auto simp: get split: option.splits if_splits)
qed

text \<open>
  C31. What a parsed root zone says of a TLD is exactly what the file says: its servers are the addresses
  of the A and AAAA records whose owner is the target of an NS record of that TLD, and a TLD with no
  such address is not in the result.
\<close>

theorem parse_root_zone_exact:
  assumes "equivp (n_eq L)" and "parse_root_zone L now content url = Inr data"
  shows "(case nm_get L (rz_delegations data) tld of Some d \<Rightarrow> set (zd_servers d) | None \<Rightarrow> {}) =
      {ip. \<exists>a \<in> set (map split_whitespace (logical_lines content)). \<exists>r \<in> set (map split_whitespace (logical_lines content)).
         \<exists>owner ns host. ns_record L a owner ns \<and> n_eq L owner tld \<and> addr_record L r host ip \<and> n_eq L host ns} \<and>
    (\<forall>d. nm_get L (rz_delegations data) tld = Some d \<longrightarrow> zd_servers d \<noteq> [])"
proof -
  have "rz_delegations data = fst (parse_fields L (map split_whitespace (logical_lines content)))"
    using assms(2) by (auto simp: parse_root_zone_def split: prod.splits if_splits)
  then have "(case nm_get L (rz_delegations data) tld of Some d \<Rightarrow> set (zd_servers d) | None \<Rightarrow> {}) =
      (\<Union>ns \<in> ns_names L (map split_whitespace (logical_lines content)) tld. glue_addrs L (map split_whitespace (logical_lines content)) ns)"
    and "\<forall>d. nm_get L (rz_delegations data) tld = Some d \<longrightarrow> zd_servers d \<noteq> []"
    using parse_fields_servers [OF assms(1), of "map split_whitespace (logical_lines content)"] by simp_all
  then show ?thesis unfolding ns_names_def glue_addrs_def by blast
qed

lemma lab_eq_equivp: "equivp (n_eq lab_lib)"
  by (rule equivpI; rule reflpI sympI transpI) (simp_all add: lab_lib_def)

lemma parse_ip_1234: "parse_ip ''1.2.3.4'' = Some (V4 (ipv4_new 1 2 3 4))"
proof -
  have d: "to_digit 10 (CHR ''1'') = Some 1" "to_digit 10 (CHR ''2'') = Some 2" "to_digit 10 (CHR ''3'') = Some 3"
    "to_digit 10 (CHR ''4'') = Some 4" "to_digit 10 (CHR ''.'') = None" by (simp_all add: to_digit_def)
  have "read_octet ''1.2.3.4'' = Some (1, ''.2.3.4'')" "read_octet ''2.3.4'' = Some (2, ''.3.4'')"
    "read_octet ''3.4'' = Some (3, ''.4'')" "read_octet ''4'' = Some (4, [])"
    by (simp_all add: read_number_def d digits_value_def)
  then show ?thesis by (simp add: parse_ip_def read_v4_def read_separator_def read_given_char_def whole_def)
qed

definition demo_zone :: string where
  "demo_zone = ''c. 60 IN NS d.'' @ [CHR 0x0A] @ ''d. 60 IN A 1.2.3.4''"

definition demo_zone_data :: "u64 \<Rightarrow> string \<Rightarrow> bytes list root_zone_data" where
  "demo_zone_data now url = \<lparr>rz_delegations = [([[99]], \<lparr>zd_servers = [V4 (ipv4_new 1 2 3 4)], zd_ttl = 60\<rparr>)], rz_serial = 0,
     rz_loaded_at = now, rz_source_url = url\<rparr>"

lemma demo_zone_parsed: "parse_root_zone lab_lib now demo_zone url = Inr (demo_zone_data now url)"
proof -
  have lines: "str_lines demo_zone = [''c. 60 IN NS d.'', ''d. 60 IN A 1.2.3.4'']" by (simp add: demo_zone_def str_lines_def chomp_def chr_line_ends)
  have trims: "trim ''c. 60 IN NS d.'' = ''c. 60 IN NS d.''" "trim ''d. 60 IN A 1.2.3.4'' = ''d. 60 IN A 1.2.3.4''"
    using trim_plain [of "CHR ''c''" "CHR ''.''" "''. 60 IN NS d''"] trim_plain [of "CHR ''d''" "CHR ''4''" "''. 60 IN A 1.2.3.''"]
    by (simp_all add: plain_def)
  have logical: "logical_lines demo_zone = [''c. 60 IN NS d.'', ''d. 60 IN A 1.2.3.4'']"
    unfolding logical_lines_def lines by (simp add: logical_line_def strip_comment_def trims) (simp add: trim_def trim_start.simps trim_rev.simps)
  have ns: "split_whitespace ''c. 60 IN NS d.'' = [''c.'', ''60'', ''IN'', ''NS'', ''d.'']"
    using split_whitespace_plain(1) [of "''c.''" "''60 IN NS d.''"] split_whitespace_plain(1) [of "''60''" "''IN NS d.''"]
      split_whitespace_plain(1) [of "''IN''" "''NS d.''"] split_whitespace_plain(1) [of "''NS''" "''d.''"]
      split_whitespace_plain(2) [of "''d.''"] by (simp add: plain_def)
  have a: "split_whitespace ''d. 60 IN A 1.2.3.4'' = [''d.'', ''60'', ''IN'', ''A'', ''1.2.3.4'']"
    using split_whitespace_plain(1) [of "''d.''" "''60 IN A 1.2.3.4''"] split_whitespace_plain(1) [of "''60''" "''IN A 1.2.3.4''"]
      split_whitespace_plain(1) [of "''IN''" "''A 1.2.3.4''"] split_whitespace_plain(1) [of "''A''" "''1.2.3.4''"]
      split_whitespace_plain(2) [of "''1.2.3.4''"] by (simp add: plain_def)
  show ?thesis
    unfolding parse_root_zone_def logical parse_fields_def demo_zone_data_def
    by (simp add: ns a zone_line_def ns_line_def lab_lib_def lab_parse_def parse_ip_1234 parse_unsigned_def digit_val_def glue_of_def)
qed

theorem parse_root_zone_exact_witness:
  "{ip. \<exists>a \<in> set (map split_whitespace (logical_lines demo_zone)). \<exists>r \<in> set (map split_whitespace (logical_lines demo_zone)).
      \<exists>owner ns host. ns_record lab_lib a owner ns \<and> n_eq lab_lib owner [[99]] \<and> addr_record lab_lib r host ip \<and> n_eq lab_lib host ns}
   = {V4 (ipv4_new 1 2 3 4)}"
proof -
  have "nm_get lab_lib (rz_delegations (demo_zone_data 9 [])) [[99]] = Some \<lparr>zd_servers = [V4 (ipv4_new 1 2 3 4)], zd_ttl = 60\<rparr>"
    by (simp add: lab_lib_def demo_zone_data_def)
  with parse_root_zone_exact [OF lab_eq_equivp demo_zone_parsed [of 9 "[]"], of "[[99]]"] show ?thesis by auto
qed

section \<open>The JSON copy reads back\<close>

lemma nm_entry_new: "\<forall>k \<in> fst ` set m. \<not> n_eq L k n \<Longrightarrow> nm_entry L n d f m = m @ [(n, f d)]"
  by (induction m) auto

lemma load_json_entries:
  assumes "\<And>n d. (n, d) \<in> set dels \<Longrightarrow> n_from_str L (n_to_string L n) = Some n \<and> zd_servers d \<noteq> []" and "nm_ok L (m @ dels)"
  shows "fold (load_json_entry L) (map (\<lambda>(name, del). \<lparr>zj_name = n_to_string L name, zj_ttl = zd_ttl del,
        zj_servers = map show_ip (zd_servers del)\<rparr>) dels) m = m @ dels"
  using assms
proof (induction dels arbitrary: m)
  case (Cons nd dels)
  obtain n d where nd: "nd = (n, d)" by (cases nd)
  have ips: "filter_map parse_ip (map show_ip ips) = ips" for ips
    by (induction ips) (simp_all add: parse_show_ip)
  have "\<forall>k \<in> fst ` set m. \<not> n_eq L k n" using Cons.prems(2) by (auto simp: nm_ok_def nd sorted_wrt_append)
  then have "load_json_entry L \<lparr>zj_name = n_to_string L n, zj_ttl = zd_ttl d, zj_servers = map show_ip (zd_servers d)\<rparr> m = m @ [nd]"
    using Cons.prems(1) [of n d] by (simp add: load_json_entry_def nd ips nm_entry_new)
  moreover have "fold (load_json_entry L) (map (\<lambda>(name, del). \<lparr>zj_name = n_to_string L name, zj_ttl = zd_ttl del,
      zj_servers = map show_ip (zd_servers del)\<rparr>) dels) (m @ [nd]) = (m @ [nd]) @ dels"
    by (rule Cons.IH) (use Cons.prems in \<open>auto\<close>)
  ultimately show ?case by (simp add: nd)
qed simp

text \<open>
  The JSON copy of a root zone reads back as the zone that was written, addresses, TTLs, serial and
  time included, whenever it holds at least a hundred TLDs; a smaller file is refused with their number.
\<close>

lemma root_zone_json_roundtrip:
  assumes "\<And>n d. (n, d) \<in> set (rz_delegations data) \<Longrightarrow> n_from_str L (n_to_string L n) = Some n \<and> zd_servers d \<noteq> []"
    and "nm_ok L (rz_delegations data)"
  shows "try_load_json L (Some (save_json L data)) =
    (if length (rz_delegations data) < 100 then Inl (Too_Few_Delegations (length (rz_delegations data))) else Inr data)"
proof -
  have "fold (load_json_entry L) (zj_delegations (save_json L data)) [] = rz_delegations data"
    using load_json_entries [of "rz_delegations data" L "[]"] assms by (simp add: save_json_def)
  then show ?thesis by (simp add: try_load_json_def Let_def) (simp add: save_json_def)
qed

end
