(* ===== verification/Acl.thy ===== *)
theory Acl
  imports Text_Parse Response Cache
begin

text \<open>
  \<open>src/acl.rs\<close>: the access control list for recursion, read from the environment, and its test of
  an address. The module is not part of the compiled program (no \<open>mod acl\<close>); it is modelled as
  the specification of what it would decide.

  Lemmas: every entry has a prefix length within the width of its address, so that no shift of
  the test is out of range; the test with masks is the arithmetic one on prefixes; a list with no
  valid entry refuses everybody.
\<close>

section \<open>The list\<close>

record acl_entry =
  ae_network :: ip_addr
  ae_prefix_len :: u8

record acl =
  ac_entries :: "acl_entry list"
  ac_default_allow :: bool

definition ip_width :: "ip_addr \<Rightarrow> nat" where
  "ip_width ip = (case ip of V4 _ \<Rightarrow> 32 | V6 _ \<Rightarrow> 128)"

definition parse_cidr :: "string \<Rightarrow> acl_entry option" where
  "parse_cidr s =
     (case (case split_once (CHR ''/'') s of
              Some (a, b) \<Rightarrow> map_option (\<lambda>v. (a, of_nat v :: u8)) (parse_unsigned (2 ^ 8) b)
            | None \<Rightarrow> Some (s, if CHR '':'' \<in> set s then 128 else 32)) of
        None \<Rightarrow> None
      | Some (ip_part, prefix_part) \<Rightarrow>
          (case parse_ip ip_part of
             None \<Rightarrow> None
           | Some ip \<Rightarrow>
               (let max_prefix = (case ip of V4 _ \<Rightarrow> 32 | V6 _ \<Rightarrow> 128) in
                if prefix_part > max_prefix then None else Some \<lparr>ae_network = ip, ae_prefix_len = prefix_part\<rparr>)))"

definition DEFAULT_CLIENTS :: string where
  "DEFAULT_CLIENTS =
     ''127.0.0.0/8,::1/128,'' @ ''10.0.0.0/8,172.16.0.0/12,192.168.0.0/16,'' @ ''169.254.0.0/16,fe80::/10,fc00::/7''"

definition acl_from_env :: "env \<Rightarrow> acl" where
  "acl_from_env env =
     (if env ''DISABLE_ACL'' = Some ''1'' then \<lparr>ac_entries = [], ac_default_allow = True\<rparr>
      else let spec = (case env ''ALLOWED_CLIENTS'' of Some s \<Rightarrow> s | None \<Rightarrow> DEFAULT_CLIENTS);
               entries = filter_map (\<lambda>part. let part = trim part in if part = [] then None else parse_cidr part) (split_on (CHR '','') spec) in
           \<lparr>ac_entries = entries, ac_default_allow = False\<rparr>)"

section \<open>The test\<close>

definition normalize_ip :: "ip_addr \<Rightarrow> ip_addr" where
  "normalize_ip ip = (case ip of V6 v6 \<Rightarrow> (case to_ipv4_mapped v6 of Some v4 \<Rightarrow> V4 v4 | None \<Rightarrow> ip) | V4 _ \<Rightarrow> ip)"

definition cidr_contains :: "ip_addr \<Rightarrow> u8 \<Rightarrow> ip_addr \<Rightarrow> bool" where
  "cidr_contains network prefix_len ip =
     (case (network, ip) of
        (V4 net, V4 check) \<Rightarrow>
          (let mask = (if prefix_len = 0 then 0 else push_bit (unat (32 - (ucast prefix_len :: u32))) (-1)) in
           (net AND mask) = (check AND mask))
      | (V6 net, V6 check) \<Rightarrow>
          (let mask = (if prefix_len = 0 then 0 else push_bit (unat (128 - (ucast prefix_len :: u32))) (-1)) in
           (net AND mask) = (check AND mask))
      | _ \<Rightarrow> False)"

definition is_allowed :: "acl \<Rightarrow> ip_addr \<Rightarrow> bool" where
  "is_allowed acl ip =
     (if ac_default_allow acl then True
      else let ip = normalize_ip ip in list_ex (\<lambda>e. cidr_contains (ae_network e) (ae_prefix_len e) ip) (ac_entries acl))"

section \<open>Entries are well formed\<close>

lemma parse_cidr_width: "parse_cidr s = Some e \<Longrightarrow> unat (ae_prefix_len e) \<le> ip_width (ae_network e)"
  by (auto simp: parse_cidr_def Let_def ip_width_def not_less word_le_nat_alt split: option.splits prod.splits if_splits ip_addr.splits)


section \<open>Masks and prefixes\<close>

text \<open>The reference: two addresses of one family that agree on their first \<open>len\<close> bits.\<close>

definition same_prefix :: "ip_addr \<Rightarrow> nat \<Rightarrow> ip_addr \<Rightarrow> bool" where
  "same_prefix network len ip =
     (case (network, ip) of
        (V4 net, V4 a) \<Rightarrow> unat net div 2 ^ (32 - len) = unat a div 2 ^ (32 - len)
      | (V6 net, V6 a) \<Rightarrow> unat net div 2 ^ (128 - len) = unat a div 2 ^ (128 - len)
      | _ \<Rightarrow> False)"

lemma mask_high_eq:
  fixes a b :: "'a::len word"
  shows "(a AND NOT (mask n)) = (b AND NOT (mask n)) \<longleftrightarrow> drop_bit n a = drop_bit n b"
proof
  assume "a AND NOT (mask n) = b AND NOT (mask n)"
  then have "drop_bit n (a AND NOT (mask n)) = drop_bit n (b AND NOT (mask n))" by simp
  moreover have "drop_bit n (x AND NOT (mask n)) = drop_bit n x" for x :: "'a word"
    by (rule bit_word_eqI) (auto simp: bit_simps dest: bit_imp_le_length)
  ultimately show "drop_bit n a = drop_bit n b" by simp
next
  assume *: "drop_bit n a = drop_bit n b"
  have "bit a k = bit b k" if "n \<le> k" for k
    using arg_cong [OF *, of "\<lambda>w. bit w (k - n)"] that by (simp add: bit_simps)
  then show "a AND NOT (mask n) = b AND NOT (mask n)"
    by (intro bit_word_eqI) (auto simp: bit_simps)
qed

lemma drop_bit_eq_iff:
  fixes a b :: "'a::len word"
  shows "drop_bit n a = drop_bit n b \<longleftrightarrow> unat a div 2 ^ n = unat b div 2 ^ n"
  by (simp add: word_unat_eq_iff unat_drop_bit)

lemma cidr_contains_prefix:
  assumes "unat len \<le> ip_width network"
  shows "cidr_contains network len ip = same_prefix network (unat len) ip"
proof -
  have sub: "unat (k - (ucast len :: u32)) = unat k - unat len" if "unat len \<le> unat k" for k :: u32
    using that by (simp add: unat_sub word_le_nat_alt unat_ucast_u8)
  have zero: "unat (a :: u32) div 2 ^ 32 = 0" "unat (b :: u128) div 2 ^ 128 = 0" for a b
  proof -
    have "unat a < 2 ^ 32" "unat b < 2 ^ 128" by (rule order_less_le_trans [OF unsigned_less]; simp)+
    then show "unat a div 2 ^ 32 = 0" "unat b div 2 ^ 128 = 0" by (simp_all only: div_less)
  qed
  show ?thesis
    using assms zero
    by (auto simp: cidr_contains_def same_prefix_def Let_def mask_high_eq drop_bit_eq_iff sub ip_width_def split: ip_addr.splits)
qed

text \<open>
  The list admits exactly the clients it names: with \<open>DISABLE_ACL=1\<close> everybody; otherwise an address,
  an IPv4-mapped one taken as IPv4, is admitted if and only if it agrees with the network of some
  entry, in its address family, on the bits of the prefix. A list without a valid entry admits nobody.
\<close>

lemma acl_decision:
  "is_allowed (acl_from_env env) ip =
     (env ''DISABLE_ACL'' = Some ''1'' \<or>
      (\<exists>part \<in> set (split_on (CHR '','') (case env ''ALLOWED_CLIENTS'' of Some s \<Rightarrow> s | None \<Rightarrow> DEFAULT_CLIENTS)).
         \<exists>e. trim part \<noteq> [] \<and> parse_cidr (trim part) = Some e \<and>
             same_prefix (ae_network e) (unat (ae_prefix_len e)) (normalize_ip ip)))"
  by (auto simp: is_allowed_def acl_from_env_def Let_def list_ex_iff set_filter_map cidr_contains_prefix parse_cidr_width
      split: if_splits)

text \<open>
  An entry given as an IPv4-mapped IPv6 network of at least 96 bits matches no client at all, since
  the clients it names are compared as IPv4 addresses.
\<close>

lemma mapped_entry_never_matches:
  assumes "drop_bit 32 net = 0xFFFF" and "96 \<le> len" and "len \<le> 128"
  shows "\<not> cidr_contains (V6 net) len (normalize_ip ip)"
proof
  have len: "96 \<le> unat len" "unat len \<le> 128" using assms(2,3) by (simp_all add: word_le_nat_alt)
  assume "cidr_contains (V6 net) len (normalize_ip ip)"
  with len have sp: "same_prefix (V6 net) (unat len) (normalize_ip ip)" by (simp add: cidr_contains_prefix ip_width_def)
  then obtain b where b: "normalize_ip ip = V6 b" "unat net div 2 ^ (128 - unat len) = unat b div 2 ^ (128 - unat len)"
    by (auto simp: same_prefix_def split: ip_addr.splits)
  have "unat net div 2 ^ 32 = unat b div 2 ^ 32"
  proof -
    have "(2 :: nat) ^ 32 = 2 ^ (128 - unat len) * 2 ^ (32 - (128 - unat len))" using len by (simp flip: power_add)
    then show ?thesis using b(2) by (simp only: div_mult2_eq)
  qed
  then have "drop_bit 32 b = drop_bit 32 net" by (simp add: drop_bit_eq_iff)
  with b(1) assms(1) show False
    by (auto simp: normalize_ip_def to_ipv4_mapped_def split: ip_addr.splits option.splits if_splits)
qed

end
