(* ===== verification/Transports.thy ===== *)
theory Transports
  imports Engine_Safety
begin

text \<open>
  \<open>src/transports/udp.rs\<close>, \<open>tcp.rs\<close>, \<open>dot.rs\<close> and \<open>doq.rs\<close>: how datagrams, byte streams and QUIC
  streams become calls of \<open>process_dns_query\<close> and how its outcomes are sent.

  The handlers take the service as an argument, \<open>serve\<close>; it is instantiated by
  \<open>serve_query\<close>. A byte stream is the list of bytes that \<open>read_exact\<close> obtains before the first read
  that fails, be it by the end of the stream, an error or a timeout, all of which end the loop
  alike; whether a frame could be written is an oracle. The semaphores of the listeners are
  counters of permits. Sockets, the TLS and QUIC handshakes and logging are not modelled.

  Lemmas: the loop on a stream of frames does what the sequence of its messages prescribes, with
  answers in the order of the queries and exact lengths; it calls the service at most once per 14
  bytes received; every answer comes from a reachable state of the engine; the UDP listener sends at most
  one reply per datagram, to its sender, and keeps within its permits.
\<close>

section \<open>Frames\<close>

definition outcome_wire :: "process_outcome \<Rightarrow> bytes option" where
  "outcome_wire out = (case out of Out_Success w \<Rightarrow> Some w | Out_ServFail w \<Rightarrow> Some w | Out_Truncated w \<Rightarrow> Some w
     | Out_Dropped \<Rightarrow> None | Out_Malformed \<Rightarrow> None)"

definition to_be_bytes16 :: "u16 \<Rightarrow> bytes" where
  "to_be_bytes16 n = [ucast (drop_bit 8 n), ucast n]"

definition from_be_bytes16 :: "u8 \<Rightarrow> u8 \<Rightarrow> u16" where
  "from_be_bytes16 a b = push_bit 8 (ucast a) OR ucast b"

text \<open>\<open>(resp_wire.len() as u16).to_be_bytes()\<close> and the message: the cast wraps.\<close>

definition frame :: "bytes \<Rightarrow> bytes" where
  "frame wire = to_be_bytes16 (of_nat (length wire)) @ wire"

definition valid_len :: "nat \<Rightarrow> bool" where
  "valid_len n \<longleftrightarrow> MIN_DNS_MSG_SIZE \<le> n \<and> n \<le> MAX_TCP_MSG_SIZE"

section \<open>TCP and DoT\<close>

text \<open>
  \<open>handle_length_prefixed_stream\<close>: the frames written, in order, and the state of the service.
  \<open>writable k\<close> tells whether the \<open>k\<close>th frame could be written and flushed in time.
\<close>

function handle_length_prefixed_stream ::
  "(bytes \<Rightarrow> string \<Rightarrow> ip_addr \<Rightarrow> 's \<Rightarrow> process_outcome \<times> 's) \<Rightarrow> string \<Rightarrow> ip_addr \<Rightarrow> (nat \<Rightarrow> bool) \<Rightarrow> nat \<Rightarrow> bytes \<Rightarrow> 's \<Rightarrow> bytes list \<times> 's" where
  "handle_length_prefixed_stream serve protocol client_ip writable k input st =
     (if length input < 2 then ([], st)
      else let req_len = unat (from_be_bytes16 (input ! 0) (input ! 1)); rest = drop 2 input in
        if \<not> valid_len req_len then ([], st)
        else if length rest < req_len then ([], st)
        else case serve (take req_len rest) protocol client_ip st of (outcome, st') \<Rightarrow>
          (case outcome_wire outcome of
             Some resp_wire \<Rightarrow>
               if length resp_wire > MAX_TCP_MSG_SIZE then ([], st')
               else if writable k
                    then (case handle_length_prefixed_stream serve protocol client_ip writable (Suc k) (drop req_len rest) st' of
                            (out, st'') \<Rightarrow> (frame resp_wire # out, st''))
                    else ([], st')
           | None \<Rightarrow>
               if outcome = Out_Dropped then handle_length_prefixed_stream serve protocol client_ip writable k (drop req_len rest) st'
               else ([], st')))"
  by pat_completeness auto
termination by (relation "measure (\<lambda>(_, _, _, _, _, input, _). length input)") auto

declare handle_length_prefixed_stream.simps [simp del]

text \<open>The tasks of \<open>run_tcp_listener\<close> and \<open>run_dot_listener\<close>; a failed or late TLS handshake ends the latter.\<close>

definition tcp_connection ::
  "(bytes \<Rightarrow> string \<Rightarrow> ip_addr \<Rightarrow> 's \<Rightarrow> process_outcome \<times> 's) \<Rightarrow> ip_addr \<Rightarrow> (nat \<Rightarrow> bool) \<Rightarrow> bytes \<Rightarrow> 's \<Rightarrow> bytes list \<times> 's" where
  "tcp_connection serve peer_ip writable input st = handle_length_prefixed_stream serve ''TCP'' peer_ip writable 0 input st"

definition dot_connection ::
  "(bytes \<Rightarrow> string \<Rightarrow> ip_addr \<Rightarrow> 's \<Rightarrow> process_outcome \<times> 's) \<Rightarrow> bool \<Rightarrow> ip_addr \<Rightarrow> (nat \<Rightarrow> bool) \<Rightarrow> bytes \<Rightarrow> 's \<Rightarrow> bytes list \<times> 's" where
  "dot_connection serve handshake peer_ip writable input st =
     (if handshake then handle_length_prefixed_stream serve ''DoT'' peer_ip writable 0 input st else ([], st))"

text \<open>
  The specification on messages: the queries a stream carries, and what a connection does with a
  sequence of queries.
\<close>

function deframe :: "bytes \<Rightarrow> bytes list" where
  "deframe input =
     (if length input < 2 then []
      else let req_len = unat (from_be_bytes16 (input ! 0) (input ! 1)); rest = drop 2 input in
        if \<not> valid_len req_len \<or> length rest < req_len then [] else take req_len rest # deframe (drop req_len rest))"
  by pat_completeness auto
termination by (relation "measure length") auto

declare deframe.simps [simp del]

fun serve_messages ::
  "(bytes \<Rightarrow> 's \<Rightarrow> process_outcome \<times> 's) \<Rightarrow> (nat \<Rightarrow> bool) \<Rightarrow> nat \<Rightarrow> bytes list \<Rightarrow> 's \<Rightarrow> bytes list \<times> 's" where
  "serve_messages serve writable k [] st = ([], st)"
| "serve_messages serve writable k (q # qs) st =
     (case serve q st of
        (Out_Dropped, st) \<Rightarrow> serve_messages serve writable k qs st
      | (Out_Malformed, st) \<Rightarrow> ([], st)
      | (outcome, st) \<Rightarrow>
          (let w = the (outcome_wire outcome) in
           if length w \<le> 65535 \<and> writable k
           then (case serve_messages serve writable (Suc k) qs st of (ws, st) \<Rightarrow> (w # ws, st))
           else ([], st)))"

lemma stream_refines:
  "handle_length_prefixed_stream serve protocol ip writable k input st =
     (case serve_messages (\<lambda>q. serve q protocol ip) writable k (deframe input) st of (ws, st') \<Rightarrow> (map frame ws, st'))"
proof (induction input arbitrary: k st rule: measure_induct_rule [of length])
  case (less input)
  show ?case
  proof (cases "length input < 2")
    case True
    then show ?thesis by (simp add: handle_length_prefixed_stream.simps [of _ _ _ _ _ input] deframe.simps [of input])
  next
    case False
    define n where "n = unat (from_be_bytes16 (input ! 0) (input ! 1))"
    define rest where "rest = drop 2 input"
    show ?thesis
    proof (cases "valid_len n \<and> \<not> length rest < n")
      case stop: False
      then show ?thesis using False
        by (auto simp: handle_length_prefixed_stream.simps [of _ _ _ _ _ input] deframe.simps [of input] n_def rest_def Let_def)
    next
      case True
      obtain outcome st' where s: "serve (take n rest) protocol ip st = (outcome, st')" by (metis surj_pair)
      have d: "deframe input = take n rest # deframe (drop n rest)"
        using False True by (subst deframe.simps) (simp add: n_def rest_def Let_def)
      have h: "handle_length_prefixed_stream serve protocol ip writable k input st =
        (case outcome_wire outcome of
             Some w \<Rightarrow>
               if length w > MAX_TCP_MSG_SIZE then ([], st')
               else if writable k
                    then (case handle_length_prefixed_stream serve protocol ip writable (Suc k) (drop n rest) st' of (out, st'') \<Rightarrow> (frame w # out, st''))
                    else ([], st')
           | None \<Rightarrow> if outcome = Out_Dropped then handle_length_prefixed_stream serve protocol ip writable k (drop n rest) st' else ([], st'))"
        using False True s unfolding n_def rest_def by (subst handle_length_prefixed_stream.simps) (simp add: Let_def del: One_nat_def)
      have shorter: "length (drop n rest) < length input" using False by (simp add: rest_def)
      note ih = less.IH [OF shorter, where st = st']
      show ?thesis
      proof (cases "outcome_wire outcome")
        case None
        with s d h ih [where k = k] show ?thesis by (cases outcome) (simp_all add: outcome_wire_def)
      next
        case (Some w)
        with s d h ih [where k = "Suc k"] show ?thesis
          by (cases outcome) (auto simp: outcome_wire_def MAX_TCP_MSG_SIZE_def split: prod.splits)
      qed
    qed
  qed
qed

section \<open>The framing\<close>

lemma be_bytes16_inverse: "from_be_bytes16 (ucast (drop_bit 8 n)) (ucast n) = n"
proof (rule bit_word_eqI)
  fix i assume "i < LENGTH(16)"
  then show "bit (from_be_bytes16 (ucast (drop_bit 8 n)) (ucast n)) i = bit n i"
    by (cases "i < 8") (auto simp: from_be_bytes16_def bit_simps)
qed

lemma frame_length:
  assumes "length w \<le> 65535"
  shows "unat (from_be_bytes16 (frame w ! 0) (frame w ! 1)) = length w" and "drop 2 (frame w @ rest) = w @ rest"
    and "length (frame w) = length w + 2"
proof -
  have "unat (of_nat (length w) :: u16) = length w" using assms by (intro unat_of_nat_less) simp
  then show "unat (from_be_bytes16 (frame w ! 0) (frame w ! 1)) = length w"
    by (simp add: frame_def to_be_bytes16_def be_bytes16_inverse)
qed (simp_all add: frame_def to_be_bytes16_def)

lemma deframe_frame:
  assumes "valid_len (length q)"
  shows "deframe (frame q @ rest) = q # deframe rest"
proof -
  have len: "length q \<le> 65535" using assms by (simp add: valid_len_def MAX_TCP_MSG_SIZE_def)
  have at: "(frame q @ rest) ! 0 = frame q ! 0" "(frame q @ rest) ! 1 = frame q ! 1" "\<not> length (frame q @ rest) < 2"
    by (simp_all add: frame_def to_be_bytes16_def)
  show ?thesis
    using assms by (subst deframe.simps) (simp only: at frame_length [OF len] Let_def if_False, simp)
qed

lemma deframe_frames: "list_all (\<lambda>q. valid_len (length q)) qs \<Longrightarrow> deframe (concat (map frame qs) @ rest) = qs @ deframe rest"
  by (induction qs) (simp_all add: deframe_frame)

lemma serve_messages_short: "\<forall>w \<in> set (fst (serve_messages serve writable k qs st)). length w \<le> 65535"
proof (induction qs arbitrary: k st)
  case (Cons q qs)
  obtain out st1 where o: "serve q st = (out, st1)" by (metis surj_pair)
  show ?case using Cons.IH [where k = k and st = st1] Cons.IH [where k = "Suc k" and st = st1] o
    by (cases out) (auto simp: Let_def split: if_splits prod.splits)
qed simp

text \<open>
  C33. A TCP or TLS connection refines the exchange of messages it carries: on any bytes whatsoever the
  handler behaves as the message-level specification on the queries framed in them, answering in
  their order and stopping where the framing stops; a client that sends well-sized queries one
  after the other, however pipelined, has exactly those served; and each answer's prefix is its length.
\<close>

theorem tcp_stream_refines_messages:
  "handle_length_prefixed_stream serve protocol ip writable k input st =
     (case serve_messages (\<lambda>q. serve q protocol ip) writable k (deframe input) st of (ws, st') \<Rightarrow> (map frame ws, st')) \<and>
   (list_all (\<lambda>q. 12 \<le> length q \<and> length q \<le> 65535) qs \<longrightarrow> deframe (concat (map frame qs) @ rest) = qs @ deframe rest) \<and>
   (\<forall>w \<in> set (fst (serve_messages (\<lambda>q. serve q protocol ip) writable k (deframe input) st)).
      unat (from_be_bytes16 (frame w ! 0) (frame w ! 1)) = length w \<and> drop 2 (frame w) = w)"
proof (intro conjI impI ballI)
  show "handle_length_prefixed_stream serve protocol ip writable k input st =
     (case serve_messages (\<lambda>q. serve q protocol ip) writable k (deframe input) st of (ws, st') \<Rightarrow> (map frame ws, st'))"
    by (rule stream_refines)
  show "deframe (concat (map frame qs) @ rest) = qs @ deframe rest" if "list_all (\<lambda>q. 12 \<le> length q \<and> length q \<le> 65535) qs"
    using that by (intro deframe_frames) (simp add: valid_len_def MIN_DNS_MSG_SIZE_def MAX_TCP_MSG_SIZE_def)
  fix w assume "w \<in> set (fst (serve_messages (\<lambda>q. serve q protocol ip) writable k (deframe input) st))"
  then have "length w \<le> 65535" by (rule serve_messages_short [THEN bspec])
  from frame_length(1) [OF this] frame_length(2) [OF this, of "[]"] show "unat (from_be_bytes16 (frame w ! 0) (frame w ! 1)) = length w" "drop 2 (frame w) = w"
    by simp_all
qed

theorem tcp_stream_refines_messages_witness:
  "deframe (concat (map frame [replicate 12 0, replicate 13 7]) @ [0]) = [replicate 12 0, replicate 13 7] @ deframe [0]"
proof -
  have "list_all (\<lambda>q. 12 \<le> length q \<and> length q \<le> 65535) [replicate 12 (0 :: u8), replicate 13 7]" by simp
  with tcp_stream_refines_messages [where serve = "\<lambda>_ _ _ s. (Out_Dropped, s)" and input = "[]" and st = "()"
    and qs = "[replicate 12 0, replicate 13 7]" and rest = "[0]", THEN conjunct2, THEN conjunct1] show ?thesis by (rule mp)
qed

section \<open>The work of a connection\<close>

text \<open>The service with a counter of its calls.\<close>

definition counted ::
  "(bytes \<Rightarrow> string \<Rightarrow> ip_addr \<Rightarrow> 's \<Rightarrow> process_outcome \<times> 's) \<Rightarrow> bytes \<Rightarrow> string \<Rightarrow> ip_addr \<Rightarrow> 's \<times> nat \<Rightarrow> process_outcome \<times> 's \<times> nat" where
  "counted serve wire protocol ip sn = (case serve wire protocol ip (fst sn) of (out, s) \<Rightarrow> (out, s, Suc (snd sn)))"

lemma deframe_cost: "14 * length (deframe input) \<le> length input"
proof (induction input rule: measure_induct_rule [of length])
  case (less input)
  show ?case
  proof (cases "length input < 2")
    case True
    then show ?thesis by (simp add: deframe.simps [of input])
  next
    case False
    define n where "n = unat (from_be_bytes16 (input ! 0) (input ! 1))"
    show ?thesis
    proof (cases "valid_len n \<and> n \<le> length input - 2")
      case True
      have d: "deframe input = take n (drop 2 input) # deframe (drop n (drop 2 input))"
        using False True by (subst deframe.simps) (simp add: n_def Let_def)
      have "14 * length (deframe (drop n (drop 2 input))) \<le> length (drop n (drop 2 input))"
        by (rule less.IH) (use False in simp)
      with True d False show ?thesis by (auto simp: valid_len_def MIN_DNS_MSG_SIZE_def)
    next
      case stop: False
      with False show ?thesis by (subst deframe.simps) (auto simp: n_def Let_def)
    qed
  qed
qed

lemma serve_messages_counted:
  "case serve_messages (\<lambda>q. counted serve q protocol ip) writable k qs (s, n) of (ws, s', n') \<Rightarrow>
     n' \<le> n + length qs \<and> n + length ws \<le> n' \<and> serve_messages (\<lambda>q. serve q protocol ip) writable k qs s = (ws, s')"
proof (induction qs arbitrary: k n s)
  case (Cons q qs)
  obtain out s1 where o: "serve q protocol ip s = (out, s1)" by (metis surj_pair)
  show ?case using Cons.IH [where k = k and n = "Suc n" and s = s1] Cons.IH [where k = "Suc k" and n = "Suc n" and s = s1] o
    by (cases out) (auto simp: counted_def Let_def split: if_splits prod.splits)
qed simp

text \<open>
  C34. The loop of a connection ends on every input, and with bounded work: counting the calls of the
  service, a connection that sent \<open>n\<close> bytes has caused at most \<open>n div 14\<close> of them, and no more answers
  than calls; counting does not change what it does.
\<close>

theorem tcp_stream_work_bound:
  "case handle_length_prefixed_stream (counted serve) protocol ip writable k input (st, 0) of (out, st', calls) \<Rightarrow>
     calls \<le> length input div 14 \<and> length out \<le> calls \<and>
     handle_length_prefixed_stream serve protocol ip writable k input st = (out, st')"
proof -
  obtain ws st' n where m: "serve_messages (\<lambda>q. counted serve q protocol ip) writable k (deframe input) (st, 0) = (ws, st', n)"
    by (metis surj_pair)
  have "n \<le> length (deframe input) \<and> length ws \<le> n \<and> serve_messages (\<lambda>q. serve q protocol ip) writable k (deframe input) st = (ws, st')"
    using serve_messages_counted [where n = 0 and qs = "deframe input" and s = st and k = k and serve = serve and protocol = protocol and ip = ip and writable = writable] m by simp
  moreover have "length (deframe input) \<le> length input div 14" using deframe_cost [of input] by linarith
  ultimately show ?thesis using m by (auto simp: stream_refines)
qed

section \<open>Clients of the service\<close>

context dns_service
begin

text \<open>Every answer on a connection is one of the service, to a query of the stream, in a state that keeps the invariant.\<close>

lemma messages_inv:
  assumes "inv st" and "serve_messages (\<lambda>q. serve q protocol ip) writable k qs st = (ws, st')"
  shows "inv st' \<and> (\<forall>w \<in> set ws. \<exists>q \<in> set qs. \<exists>s s' out. inv s \<and> serve q protocol ip s = (out, s') \<and> outcome_wire out = Some w)"
  using assms
proof (induction qs arbitrary: k st ws)
  case (Cons q qs)
  obtain out st1 where o: "serve q protocol ip st = (out, st1)" by (metis surj_pair)
  have i1: "inv st1" by (rule serve_inv [OF Cons.prems(1) o])
  have here: "\<exists>s s' out'. inv s \<and> serve q protocol ip s = (out', s') \<and> outcome_wire out' = Some w" if "outcome_wire out = Some w" for w
    using Cons.prems(1) o that by blast
  show ?case
  proof (cases "outcome_wire out")
    case None
    with Cons.prems(2) o i1 Cons.IH [OF i1, of k ws] show ?thesis by (cases out) (auto simp: outcome_wire_def)
  next
    case (Some w)
    have "serve_messages (\<lambda>q. serve q protocol ip) writable k (q # qs) st =
      (if length w \<le> 65535 \<and> writable k
       then (case serve_messages (\<lambda>q. serve q protocol ip) writable (Suc k) qs st1 of (ws, s) \<Rightarrow> (w # ws, s)) else ([], st1))"
      using o Some by (cases out) (simp_all add: outcome_wire_def)
    with Cons.prems(2) i1 Cons.IH [OF i1, of "Suc k"] here [OF Some] show ?thesis by (auto split: if_splits prod.splits)
  qed
qed simp

lemma stream_inv:
  assumes "inv st" and "handle_length_prefixed_stream serve protocol ip writable k input st = (frames, st')"
  shows "inv st' \<and> (\<forall>f \<in> set frames. \<exists>q \<in> set (deframe input). \<exists>s s' out w.
    inv s \<and> serve q protocol ip s = (out, s') \<and> outcome_wire out = Some w \<and> f = frame w)"
proof -
  obtain ws where m: "serve_messages (\<lambda>q. serve q protocol ip) writable k (deframe input) st = (ws, st')" "frames = map frame ws"
    using assms(2) by (auto simp: stream_refines split: prod.splits)
  from messages_inv [OF assms(1) m(1)] m(2) show ?thesis by (auto, blast)
qed

end

text \<open>
  Every frame a connection sends comes from the engine in a state it can reach: it answers one of
  the queries of the stream, and when it is a success for a name outside the geo layer it is sound:
  built from a response that is not Bogus unless checking is off, with the AD bit only on data
  verified for the question. The connection leaves the engine in a reachable state, whatever the client sent.
\<close>

lemma tcp_answers_sound:
  assumes "app_ok A" and "engine_init A s0" and "environment A pick between" and "(engine_step A)\<^sup>*\<^sup>* s0 st"
    and "handle_length_prefixed_stream (serve_query A pick between) protocol ip writable 0 input st = (frames, st')"
  shows "(engine_step A)\<^sup>*\<^sup>* s0 st' \<and> (\<forall>f \<in> set frames. \<exists>q \<in> set (deframe input). \<exists>s1 s2 flight out w.
    (engine_step A)\<^sup>*\<^sup>* s0 s1 \<and> process_dns_query A q protocol ip flight s1 = (out, s2) \<and> outcome_wire out = Some w \<and> f = frame w \<and>
    (\<forall>pq. parse_and_validate_query (ap_lib A) q = Some pq \<and> geo_handles A pq s1 = None \<and> out = Out_Success w \<longrightarrow> sound_answer A pq s1 w))"
proof -
  note si = service.stream_inv [where ?s0.0 = s0, OF _ assms(5)]
  have final: "(engine_step A)\<^sup>*\<^sup>* s0 st'" using si assms(3,4) by blast
  have "\<exists>q \<in> set (deframe input). \<exists>s1 s2 flight out w.
    (engine_step A)\<^sup>*\<^sup>* s0 s1 \<and> process_dns_query A q protocol ip flight s1 = (out, s2) \<and> outcome_wire out = Some w \<and> f = frame w \<and>
    (\<forall>pq. parse_and_validate_query (ap_lib A) q = Some pq \<and> geo_handles A pq s1 = None \<and> out = Out_Success w \<longrightarrow> sound_answer A pq s1 w)"
    if f: "f \<in> set frames" for f
  proof -
    obtain q s s' out w where q: "q \<in> set (deframe input)" and r: "(engine_step A)\<^sup>*\<^sup>* s0 s"
      and sv: "serve_query A pick between q protocol ip s = (out, s')" and w: "outcome_wire out = Some w" "f = frame w"
      using si assms(3,4) f by blast
    let ?s = "between s"
    have reach: "(engine_step A)\<^sup>*\<^sup>* s0 ?s" using r assms(3) by (meson environment_def rtranclp_trans)
    have cell: "cell_value ?s (pq_cache_key pq) (pick ?s q)" if "parse_and_validate_query (ap_lib A) q = Some pq" for pq
      using assms(3) that by (simp add: environment_def)
    have pr: "process_dns_query A q protocol ip (pick ?s q) ?s = (out, s')" using sv by (simp add: serve_query_def)
    have "sound_answer A pq ?s w" if "parse_and_validate_query (ap_lib A) q = Some pq" "geo_handles A pq ?s = None" "out = Out_Success w" for pq
      using sound_answerI [OF assms(1,2) reach that(1) cell [OF that(1)] that(2)] pr that(3) by blast
    with q reach pr w show ?thesis by blast
  qed
  with final show ?thesis by blast
qed

lemma alone_environment: "environment A (\<lambda>_ _. Evaluate True) (\<lambda>st. st)"
  by (simp add: environment_def cell_value_def)

section \<open>Permits\<close>

text \<open>
  A semaphore with the tasks that hold its permits. \<open>run_tcp_listener\<close>, \<open>run_dot_listener\<close>,
  \<open>run_doq_listener\<close> and \<open>run_doh3_listener\<close> acquire before they serve a connection and drop it when
  there is no permit; the permit goes back when the task ends, however it ends.
\<close>

record 'a pool =
  pl_permits :: nat
  pl_tasks :: "'a list"

definition try_spawn :: "'a \<Rightarrow> 'a pool \<Rightarrow> 'a pool" where
  "try_spawn t p = (if pl_permits p = 0 then p else \<lparr>pl_permits = pl_permits p - 1, pl_tasks = pl_tasks p @ [t]\<rparr>)"

definition task_done :: "'a list \<Rightarrow> 'a list \<Rightarrow> 'a pool \<Rightarrow> 'a pool" where
  "task_done pre post p = \<lparr>pl_permits = pl_permits p + 1, pl_tasks = pre @ post\<rparr>"

definition UDP_PERMITS :: nat where "UDP_PERMITS = 2048"
definition TCP_PERMITS :: nat where "TCP_PERMITS = 512"
definition DOT_PERMITS :: nat where "DOT_PERMITS = 512"
definition DOQ_PERMITS :: nat where "DOQ_PERMITS = 512"
definition DOH3_PERMITS :: nat where "DOH3_PERMITS = 512"

lemma try_spawn_total: "pl_permits (try_spawn t p) + length (pl_tasks (try_spawn t p)) = pl_permits p + length (pl_tasks p)"
  by (simp add: try_spawn_def)

lemma task_done_total:
  "pl_tasks p = pre @ t # post \<Longrightarrow>
   pl_permits (task_done pre post p) + length (pl_tasks (task_done pre post p)) = pl_permits p + length (pl_tasks p)"
  by (simp add: task_done_def)

section \<open>UDP\<close>

type_synonym peer = "ip_addr \<times> u16"

record 's udp_listener =
  ul_pool :: "(bytes \<times> peer) pool"
  ul_service :: 's
  ul_sent :: "(bytes \<times> peer) list"

text \<open>\<open>run_udp_listener\<close> on one datagram, and the task it spawns.\<close>

definition udp_receive :: "bytes \<Rightarrow> peer \<Rightarrow> 's udp_listener \<Rightarrow> 's udp_listener" where
  "udp_receive wire peer l =
     (if length wire < MIN_DNS_MSG_SIZE then l
      else if length wire > MAX_UDP_QUERY_SIZE then l
      else l\<lparr>ul_pool := try_spawn (wire, peer) (ul_pool l)\<rparr>)"

definition udp_task ::
  "(bytes \<Rightarrow> string \<Rightarrow> ip_addr \<Rightarrow> 's \<Rightarrow> process_outcome \<times> 's) \<Rightarrow> bytes \<times> peer \<Rightarrow> 's udp_listener \<Rightarrow> 's udp_listener" where
  "udp_task serve t l =
     (case t of (req_wire, peer) \<Rightarrow>
        case serve req_wire ''UDP'' (fst peer) (ul_service l) of (outcome, s) \<Rightarrow>
          l\<lparr>ul_service := s,
            ul_sent := ul_sent l @ (case outcome_wire outcome of Some resp \<Rightarrow> [(resp, peer)] | None \<Rightarrow> [])\<rparr>)"

text \<open>The listener with the datagrams it has received so far.\<close>

inductive udp_step ::
  "(bytes \<Rightarrow> string \<Rightarrow> ip_addr \<Rightarrow> 's \<Rightarrow> process_outcome \<times> 's) \<Rightarrow>
   (bytes \<times> peer) list \<times> 's udp_listener \<Rightarrow> (bytes \<times> peer) list \<times> 's udp_listener \<Rightarrow> bool" for serve where
  udp_recv: "udp_step serve (rcv, l) (rcv @ [(wire, peer)], udp_receive wire peer l)"
| udp_run: "pl_tasks (ul_pool l) = pre @ t # post \<Longrightarrow>
    udp_step serve (rcv, l) (rcv, (udp_task serve t l)\<lparr>ul_pool := task_done pre post (ul_pool l)\<rparr>)"

inductive_cases udp_stepE: "udp_step serve x y"

definition udp_new :: "nat \<Rightarrow> 's \<Rightarrow> 's udp_listener" where
  "udp_new permits s = \<lparr>ul_pool = \<lparr>pl_permits = permits, pl_tasks = []\<rparr>, ul_service = s, ul_sent = []\<rparr>"

text \<open>An answer of the service to a datagram of acceptable size.\<close>

definition udp_answer ::
  "(bytes \<Rightarrow> string \<Rightarrow> ip_addr \<Rightarrow> 's \<Rightarrow> process_outcome \<times> 's) \<Rightarrow> (bytes \<times> peer) list \<Rightarrow> bytes \<times> peer \<Rightarrow> bool" where
  "udp_answer serve rcv rp \<longleftrightarrow> (\<exists>wire s s' out. (wire, snd rp) \<in> set rcv \<and> 12 \<le> length wire \<and> length wire \<le> 4096 \<and>
     serve wire ''UDP'' (fst (snd rp)) s = (out, s') \<and> outcome_wire out = Some (fst rp))"

definition udp_inv ::
  "(bytes \<Rightarrow> string \<Rightarrow> ip_addr \<Rightarrow> 's \<Rightarrow> process_outcome \<times> 's) \<Rightarrow> nat \<Rightarrow> (bytes \<times> peer) list \<times> 's udp_listener \<Rightarrow> bool" where
  "udp_inv serve permits x = (case x of (rcv, l) \<Rightarrow>
     pl_permits (ul_pool l) + length (pl_tasks (ul_pool l)) = permits \<and>
     (\<forall>p. count_list (map snd (ul_sent l)) p + count_list (map snd (pl_tasks (ul_pool l))) p \<le> count_list (map snd rcv) p) \<and>
     (\<forall>t \<in> set (pl_tasks (ul_pool l)). t \<in> set rcv \<and> 12 \<le> length (fst t) \<and> length (fst t) \<le> 4096) \<and>
     list_all (udp_answer serve rcv) (ul_sent l))"

lemma udp_inv_receive:
  assumes "udp_inv serve permits (rcv, l)"
  shows "udp_inv serve permits (rcv @ [(wire, p)], udp_receive wire p l)"
proof -
  have mono: "udp_answer serve rcv rp \<Longrightarrow> udp_answer serve (rcv @ [(wire, p)]) rp" for rp by (auto simp: udp_answer_def)
  have c: "count_list (map snd (ul_sent l)) q + count_list (map snd (pl_tasks (ul_pool l))) q \<le> count_list (map snd rcv) q" for q
    using assms by (simp add: udp_inv_def del: split_paired_All)
  have c': "count_list (map snd (ul_sent l)) q + count_list (map snd (pl_tasks (ul_pool l)) @ [p]) q \<le> count_list (map snd rcv @ [p]) q"
    "count_list (map snd (ul_sent l)) q + count_list (map snd (pl_tasks (ul_pool l))) q \<le> count_list (map snd rcv @ [p]) q" for q
    using c [of q] by simp_all
  show ?thesis
    using assms c' mono
    by (auto simp: udp_inv_def udp_receive_def try_spawn_def MIN_DNS_MSG_SIZE_def MAX_UDP_QUERY_SIZE_def list_all_iff)
qed

lemma udp_inv_task:
  assumes "udp_inv serve permits (rcv, l)" and t: "pl_tasks (ul_pool l) = pre @ t # post"
  shows "udp_inv serve permits (rcv, (udp_task serve t l)\<lparr>ul_pool := task_done pre post (ul_pool l)\<rparr>)"
proof -
  obtain wire p where tp: "t = (wire, p)" by (cases t)
  obtain out s where o: "serve wire ''UDP'' (fst p) (ul_service l) = (out, s)" by (metis surj_pair)
  have c: "count_list (map snd (ul_sent l)) q + count_list (map snd pre @ p # map snd post) q \<le> count_list (map snd rcv) q" for q
    using assms by (simp add: udp_inv_def tp del: split_paired_All count_list_append count_list.simps)
  have mem: "(wire, p) \<in> set rcv" "12 \<le> length wire" "length wire \<le> 4096" using assms by (auto simp: udp_inv_def tp)
  have ans: "udp_answer serve rcv (w, p)" if "outcome_wire out = Some w" for w
    using o mem that by (auto simp: udp_answer_def)
  have c': "count_list (map snd (ul_sent l) @ [p]) q + count_list (map snd pre @ map snd post) q \<le> count_list (map snd rcv) q"
    "count_list (map snd (ul_sent l)) q + count_list (map snd pre @ map snd post) q \<le> count_list (map snd rcv) q" for q
    using c [of q] by (auto split: if_splits)
  show ?thesis
    using assms c' ans o
    by (auto simp: udp_inv_def udp_task_def task_done_def tp list_all_iff split: option.splits)
qed

interpretation udp: transition_system "\<lambda>x. \<exists>s. x = ([], udp_new permits s)" "udp_step serve" "udp_inv serve permits" for permits serve
proof
  show "udp_inv serve permits x" if "\<exists>s. x = ([], udp_new permits s)" for x
    using that by (auto simp: udp_inv_def udp_new_def)
  show "udp_inv serve permits y" if "udp_inv serve permits x" "udp_step serve x y" for x y
    using that(2,1) by (cases rule: udp_stepE) (auto intro: udp_inv_receive udp_inv_task)
qed

text \<open>
  C35. The UDP listener, under every order of datagrams and completions, never runs more handlers than it
  has permits and loses none of them; sends replies only to the source of a datagram it received, of
  12 to 4096 bytes, and what the service answered to it; and sends any peer at most as many replies as
  that peer sent datagrams.
\<close>

theorem udp_listener_safe:
  assumes "(udp_step serve)\<^sup>*\<^sup>* ([], udp_new UDP_PERMITS s0) (rcv, l)"
  shows "length (pl_tasks (ul_pool l)) \<le> 2048 \<and> pl_permits (ul_pool l) + length (pl_tasks (ul_pool l)) = 2048 \<and>
    (\<forall>p. count_list (map snd (ul_sent l)) p \<le> count_list (map snd rcv) p) \<and>
    (\<forall>(resp, p) \<in> set (ul_sent l). \<exists>wire s s' out. (wire, p) \<in> set rcv \<and> 12 \<le> length wire \<and> length wire \<le> 4096 \<and>
       serve wire ''UDP'' (fst p) s = (out, s') \<and> outcome_wire out = Some resp)"
proof -
  have "udp_inv serve UDP_PERMITS (rcv, l)" by (rule udp.reachable_inv [OF _ assms]) blast
  then have "pl_permits (ul_pool l) + length (pl_tasks (ul_pool l)) = 2048"
    "\<forall>p. count_list (map snd (ul_sent l)) p + count_list (map snd (pl_tasks (ul_pool l))) p \<le> count_list (map snd rcv) p"
    "\<forall>rp \<in> set (ul_sent l). udp_answer serve rcv rp"
    by (simp_all add: udp_inv_def UDP_PERMITS_def list_all_iff)
  then show ?thesis by (auto intro: add_leD1 simp: udp_answer_def simp del: split_paired_All) fastforce
qed

theorem udp_listener_safe_witness:
  "\<exists>rcv l. (udp_step (\<lambda>w p ip s. (Out_Success [9], s)))\<^sup>*\<^sup>* ([], udp_new UDP_PERMITS ()) (rcv, l) \<and> ul_sent l = [([9], V4 1, 53)] \<and>
     length (pl_tasks (ul_pool l)) \<le> 2048"
proof -
  let ?serve = "\<lambda>w p ip s :: unit. (Out_Success [9], s)" and ?q = "(replicate 12 0, V4 1, 53) :: bytes \<times> peer"
  let ?l1 = "udp_receive (fst ?q) (snd ?q) (udp_new UDP_PERMITS ())"
  let ?l2 = "(udp_task ?serve ?q ?l1)\<lparr>ul_pool := task_done [] [] (ul_pool ?l1)\<rparr>"
  have s1: "udp_step ?serve ([], udp_new UDP_PERMITS ()) ([] @ [(fst ?q, snd ?q)], ?l1)" by (rule udp_recv)
  have t: "pl_tasks (ul_pool ?l1) = [] @ ?q # []"
    by (simp add: udp_receive_def udp_new_def try_spawn_def UDP_PERMITS_def MIN_DNS_MSG_SIZE_def MAX_UDP_QUERY_SIZE_def)
  have s2: "udp_step ?serve ([] @ [(fst ?q, snd ?q)], ?l1) ([] @ [(fst ?q, snd ?q)], ?l2)" by (rule udp_run [OF t])
  have r: "(udp_step ?serve)\<^sup>*\<^sup>* ([], udp_new UDP_PERMITS ()) ([] @ [(fst ?q, snd ?q)], ?l2)"
    using s1 s2 by (meson rtranclp.rtrancl_into_rtrancl rtranclp.rtrancl_refl)
  have "ul_sent ?l2 = [([9], V4 1, 53)]"
    by (simp add: udp_task_def udp_receive_def udp_new_def outcome_wire_def MIN_DNS_MSG_SIZE_def MAX_UDP_QUERY_SIZE_def)
  with r udp_listener_safe [OF r] show ?thesis by blast
qed

section \<open>DoQ\<close>

definition DOQ_PROTOCOL_ERROR :: u32 where "DOQ_PROTOCOL_ERROR = 0x2"
definition DOQ_EXCESSIVE_LOAD :: u32 where "DOQ_EXCESSIVE_LOAD = 0x4"

datatype doq_result = Doq_Closed | Doq_Reset u32 | Doq_Reply bytes

text \<open>The task of one bidirectional stream: its input, and whether the reply could be written.\<close>

definition handle_doq_stream ::
  "(bytes \<Rightarrow> string \<Rightarrow> ip_addr \<Rightarrow> 's \<Rightarrow> process_outcome \<times> 's) \<Rightarrow> ip_addr \<Rightarrow> bool \<Rightarrow> bytes \<Rightarrow> 's \<Rightarrow> doq_result \<times> 's" where
  "handle_doq_stream serve peer_ip writable input st =
     (if length input < 2 then (Doq_Closed, st)
      else let req_len = unat (from_be_bytes16 (input ! 0) (input ! 1)); rest = drop 2 input in
        if \<not> valid_len req_len then (Doq_Reset DOQ_PROTOCOL_ERROR, st)
        else if length rest < req_len then (Doq_Closed, st)
        else case serve (take req_len rest) ''DoQ'' peer_ip st of (outcome, st') \<Rightarrow>
          (case outcome of
             Out_Dropped \<Rightarrow> Doq_Reset DOQ_EXCESSIVE_LOAD
           | Out_Malformed \<Rightarrow> Doq_Reset DOQ_PROTOCOL_ERROR
           | _ \<Rightarrow> if writable then Doq_Reply (frame (the (outcome_wire outcome))) else Doq_Closed, st'))"

text \<open>A reply over 65535 bytes goes out under its length modulo 65536; the TCP handler closes the stream instead.\<close>

lemma doq_frame_length: "unat (from_be_bytes16 (frame w ! 0) (frame w ! 1)) = length w mod 65536"
proof -
  have "from_be_bytes16 (frame w ! 0) (frame w ! 1) = of_nat (length w)" by (simp add: frame_def to_be_bytes16_def be_bytes16_inverse)
  then show ?thesis by (simp add: unsigned_of_nat take_bit_eq_mod)
qed

lemma doq_stream_frame:
  assumes "valid_len (length q)"
  shows "handle_doq_stream serve ip True (frame q @ rest) st =
    (case serve q ''DoQ'' ip st of (outcome, st') \<Rightarrow>
       (case outcome of Out_Dropped \<Rightarrow> Doq_Reset DOQ_EXCESSIVE_LOAD | Out_Malformed \<Rightarrow> Doq_Reset DOQ_PROTOCOL_ERROR
        | _ \<Rightarrow> Doq_Reply (frame (the (outcome_wire outcome))), st'))"
proof -
  have len: "length q \<le> 65535" using assms by (simp add: valid_len_def MAX_TCP_MSG_SIZE_def)
  have at: "(frame q @ rest) ! 0 = frame q ! 0" "(frame q @ rest) ! 1 = frame q ! 1" "\<not> length (frame q @ rest) < 2"
    by (simp_all add: frame_def to_be_bytes16_def)
  show ?thesis
    using assms unfolding handle_doq_stream_def by (simp only: at frame_length [OF len] Let_def if_False) (simp split: prod.splits process_outcome.splits)
qed

end
