(* ===== verification/Listeners.thy ===== *)
theory Listeners
  imports Http_Transports
begin

text \<open>
  All listeners side by side, over one engine: \<open>run_udp_listener\<close> (\<open>src/transports/udp.rs\<close>), the connections of
  \<open>run_tcp_listener\<close> (\<open>tcp.rs\<close>), \<open>run_dot_listener\<close> (\<open>dot.rs\<close>), \<open>run_doq_listener\<close> (\<open>doq.rs\<close>) and
  \<open>run_doh3_listener\<close> (\<open>doh3.rs\<close>), and the routes of \<open>build_doh_router\<close> (\<open>doh.rs\<close>).

  A TCP or DoT connection is served one message at a time (\<open>stream_turn\<close>), so that datagrams, connections,
  QUIC streams, HTTP requests and the tasks of the engine interleave between any two messages. The
  connection that is served alone does what \<open>handle_length_prefixed_stream\<close> does.

  Lemmas: each listener keeps to its permits and loses none of them; every datagram, every frame and
  every HTTP answer to a query is a sound answer to a query its client sent.
\<close>

section \<open>Connections\<close>

text \<open>
  A byte stream with what is left to read, the number of frames written, and which of them can be
  written; a DoT connection is not ready before the TLS handshake.
\<close>

record conn =
  cn_peer :: ip_addr
  cn_ready :: bool
  cn_input :: bytes
  cn_written :: nat
  cn_writable :: "nat \<Rightarrow> bool"

text \<open>What \<open>accept\<close> gives; \<open>None\<close> is an error, after which the loop goes on.\<close>

type_synonym incoming = "ip_addr \<times> bytes \<times> (nat \<Rightarrow> bool)"

definition run_tcp_listener :: "incoming option \<Rightarrow> conn pool \<Rightarrow> conn pool" where
  "run_tcp_listener accepted p =
     (case accepted of
        Some (peer, input, writable) \<Rightarrow>
          try_spawn \<lparr>cn_peer = peer, cn_ready = True, cn_input = input, cn_written = 0, cn_writable = writable\<rparr> p
      | None \<Rightarrow> p)"

definition run_dot_listener :: "incoming option \<Rightarrow> conn pool \<Rightarrow> conn pool" where
  "run_dot_listener accepted p =
     (case accepted of
        Some (peer, input, writable) \<Rightarrow>
          try_spawn \<lparr>cn_peer = peer, cn_ready = False, cn_input = input, cn_written = 0, cn_writable = writable\<rparr> p
      | None \<Rightarrow> p)"

text \<open>The end of the handshake of a DoT connection, within its time or not.\<close>

definition dot_handshake :: "bool \<Rightarrow> conn list \<Rightarrow> conn \<Rightarrow> conn list \<Rightarrow> conn pool \<Rightarrow> conn pool" where
  "dot_handshake ok pre c post p = (if ok then p\<lparr>pl_tasks := pre @ c\<lparr>cn_ready := True\<rparr> # post\<rparr> else task_done pre post p)"

text \<open>
  One turn of the loop of \<open>handle_length_prefixed_stream\<close>: the frame written, if any, and the connection as it
  goes on; \<open>None\<close> when the loop ends.
\<close>

definition stream_turn :: "'s service \<Rightarrow> string \<Rightarrow> conn \<Rightarrow> 's \<Rightarrow> bytes option \<times> conn option \<times> 's" where
  "stream_turn serve protocol c st =
     (let input = cn_input c in
      if length input < 2 then (None, None, st)
      else let req_len = unat (from_be_bytes16 (input ! 0) (input ! 1)); rest = drop 2 input in
        if \<not> valid_len req_len then (None, None, st)
        else if length rest < req_len then (None, None, st)
        else case serve (take req_len rest) protocol (cn_peer c) st of (outcome, st') \<Rightarrow>
          (case outcome_wire outcome of
             Some resp_wire \<Rightarrow>
               if length resp_wire > MAX_TCP_MSG_SIZE then (None, None, st')
               else if cn_writable c (cn_written c)
                    then (Some (frame resp_wire), Some (c\<lparr>cn_input := drop req_len rest, cn_written := Suc (cn_written c)\<rparr>), st')
                    else (None, None, st')
           | None \<Rightarrow>
               if outcome = Out_Dropped then (None, Some (c\<lparr>cn_input := drop req_len rest\<rparr>), st')
               else (None, None, st')))"

text \<open>QUIC: the listener spawns first and takes the permit in the task; a failed handshake gives it back.\<close>

definition run_doq_listener :: "ip_addr option \<Rightarrow> ip_addr pool \<Rightarrow> ip_addr pool" where
  "run_doq_listener incoming p = (case incoming of Some peer \<Rightarrow> try_spawn peer p | None \<Rightarrow> p)"

definition run_doh3_listener :: "ip_addr option \<Rightarrow> ip_addr pool \<Rightarrow> ip_addr pool" where
  "run_doh3_listener incoming p = (case incoming of Some peer \<Rightarrow> try_spawn peer p | None \<Rightarrow> p)"

text \<open>
  A stream or a request of a live connection becomes a task of its own, without a permit
  (\<open>handle_doq_connection\<close>, \<open>handle_h3_connection\<close>); a request that cannot be resolved is dropped.
\<close>

definition handle_doq_connection :: "ip_addr \<Rightarrow> bytes \<times> bool \<Rightarrow> (ip_addr \<times> bytes \<times> bool) list \<Rightarrow> (ip_addr \<times> bytes \<times> bool) list" where
  "handle_doq_connection peer_ip stream tasks = tasks @ [(peer_ip, stream)]"

definition handle_h3_connection :: "ip_addr \<Rightarrow> h3_request option \<Rightarrow> (ip_addr \<times> h3_request) list \<Rightarrow> (ip_addr \<times> h3_request) list" where
  "handle_h3_connection client_ip resolved tasks = (case resolved of Some req \<Rightarrow> tasks @ [(client_ip, req)] | None \<Rightarrow> tasks)"

section \<open>The routes of DoH\<close>

text \<open>
  A request as \<open>axum\<close> hands it over: \<open>dr_query\<close> is \<open>None\<close> when the query string does not
  deserialize, else the parameter \<open>dns\<close>. \<open>reject\<close> is the text of its own refusals (no such method,
  bad query string, body over the limit); a HEAD request runs the GET handler and drops the body.
\<close>

datatype doh_method = M_GET | M_HEAD | M_POST | M_OPTIONS | M_Other

record doh_request =
  dr_path :: string
  dr_method :: doh_method
  dr_headers :: headers
  dr_query :: "string option option"
  dr_body :: bytes

definition no_body :: "http_reply \<times> 's \<Rightarrow> http_reply \<times> 's" where
  "no_body = (\<lambda>(reply, st). (reply\<lparr>hr_body := []\<rparr>, st))"

definition build_doh_router ::
  "('n, 's, 'f) http_env \<Rightarrow> (nat \<Rightarrow> string) \<Rightarrow> ('n, 's, 'f) engine service \<Rightarrow> u64 \<Rightarrow> ip_addr \<Rightarrow> doh_request \<Rightarrow>
   ('n, 's, 'f) engine \<Rightarrow> http_reply \<times> ('n, 's, 'f) engine" where
  "build_doh_router E reject serve now peer req st =
     (let refuse = (\<lambda>status. (text_reply status (reject status), st));
          doh_get = (case dr_query req of None \<Rightarrow> refuse 400 | Some dns \<Rightarrow> handle_doh_get E serve (dr_headers req) peer dns st) in
      if dr_path req = ''/dns-query'' then
        (case dr_method req of
           M_GET \<Rightarrow> doh_get
         | M_HEAD \<Rightarrow> no_body doh_get
         | M_POST \<Rightarrow> if length (dr_body req) > MAX_DOH_PAYLOAD then refuse 413 else handle_doh_post serve (dr_headers req) peer (dr_body req) st
         | M_OPTIONS \<Rightarrow> (handle_doh_options, st)
         | M_Other \<Rightarrow> refuse 405)
      else if dr_path req = ''/health'' then
        (case dr_method req of M_GET \<Rightarrow> (handle_health E st, st) | M_HEAD \<Rightarrow> no_body (handle_health E st, st) | _ \<Rightarrow> refuse 405)
      else if dr_path req = ''/metrics'' then
        (case dr_method req of M_GET \<Rightarrow> (handle_metrics E st, st) | M_HEAD \<Rightarrow> no_body (handle_metrics E st, st) | _ \<Rightarrow> refuse 405)
      else if dr_path req = ''/internal/peer-heartbeat'' then
        (if dr_method req \<noteq> M_POST then refuse 405
         else if length (dr_body req) > MAX_DOH_PAYLOAD then refuse 413
         else handle_peer_heartbeat E now (dr_headers req) peer (dr_body req) st)
      else refuse 404)"

section \<open>One connection alone\<close>

function run_alone :: "'s service \<Rightarrow> string \<Rightarrow> conn \<Rightarrow> 's \<Rightarrow> bytes list \<times> 's" where
  "run_alone serve protocol c st =
     (case stream_turn serve protocol c st of
        (sent, None, st') \<Rightarrow> ((case sent of Some f \<Rightarrow> [f] | None \<Rightarrow> []), st')
      | (sent, Some c', st') \<Rightarrow>
          (case run_alone serve protocol c' st' of (fs, st'') \<Rightarrow> ((case sent of Some f \<Rightarrow> [f] | None \<Rightarrow> []) @ fs, st'')))"
  by pat_completeness auto
termination
  by (relation "measure (\<lambda>(_, _, c, _). length (cn_input c))")
    (auto simp: stream_turn_def Let_def valid_len_def split: if_splits prod.splits option.splits)

declare run_alone.simps [simp del]

lemma run_alone_stream:
  "run_alone serve protocol c st =
   handle_length_prefixed_stream serve protocol (cn_peer c) (cn_writable c) (cn_written c) (cn_input c) st"
proof (induction serve protocol c st rule: run_alone.induct)
  case (1 serve protocol c st)
  show ?case
    unfolding run_alone.simps [of serve protocol c st] handle_length_prefixed_stream.simps [where input = "cn_input c"]
    using 1 by (auto simp: stream_turn_def Let_def split: prod.splits option.splits)
qed

text \<open>A turn serves the next query of the stream.\<close>

lemma stream_turn_cases:
  obtains (stop) "stream_turn serve protocol c st = (None, None, st)"
  | (turn) q out st' sent c' where "q \<in> set (deframe (cn_input c))" "serve q protocol (cn_peer c) st = (out, st')"
    "stream_turn serve protocol c st = (sent, c', st')"
    "\<And>f. sent = Some f \<Longrightarrow> \<exists>w. outcome_wire out = Some w \<and> f = frame w"
    "\<And>d. c' = Some d \<Longrightarrow> cn_peer d = cn_peer c \<and> set (deframe (cn_input d)) \<subseteq> set (deframe (cn_input c))"
proof (cases "stream_turn serve protocol c st = (None, None, st)")
  case True
  then show thesis by (rule stop)
next
  case False
  let ?input = "cn_input c"
  define n where "n = unat (from_be_bytes16 (?input ! 0) (?input ! 1))"
  have ok: "\<not> length ?input < 2" "valid_len n" "n \<le> length (drop 2 ?input)"
    using False by (auto simp: stream_turn_def Let_def n_def split: if_splits)
  have d: "deframe ?input = take n (drop 2 ?input) # deframe (drop n (drop 2 ?input))"
    using ok by (subst deframe.simps) (simp add: n_def Let_def)
  obtain out st' where o: "serve (take n (drop 2 ?input)) protocol (cn_peer c) st = (out, st')" by (metis surj_pair)
  have "\<exists>sent c'. stream_turn serve protocol c st = (sent, c', st')"
    using ok o by (auto simp: stream_turn_def Let_def n_def split: option.splits)
  then obtain sent c' where t: "stream_turn serve protocol c st = (sent, c', st')" by blast
  show thesis
  proof (rule turn [of "take n (drop 2 ?input)", OF _ o t])
    show "take n (drop 2 ?input) \<in> set (deframe ?input)" by (simp add: d)
    show "\<exists>w. outcome_wire out = Some w \<and> f = frame w" if "sent = Some f" for f
      using t ok o that by (auto simp: stream_turn_def Let_def n_def split: option.splits if_splits)
    show "cn_peer e = cn_peer c \<and> set (deframe (cn_input e)) \<subseteq> set (deframe ?input)" if "c' = Some e" for e
      using t ok o that d by (auto simp: stream_turn_def Let_def n_def split: option.splits if_splits)
  qed
qed

section \<open>The listeners together\<close>

text \<open>
  The engine, the five pools, the tasks of the QUIC streams and requests, what was received in datagrams
  and on byte streams, and what was sent.
\<close>

record ('n, 's, 'f) net_state =
  ns_engine :: "('n, 's, 'f) engine"
  ns_udp :: "(bytes \<times> peer) pool"
  ns_tcp :: "conn pool"
  ns_dot :: "conn pool"
  ns_doq :: "ip_addr pool"
  ns_doh3 :: "ip_addr pool"
  ns_streams :: "(ip_addr \<times> bytes \<times> bool) list"
  ns_requests :: "(ip_addr \<times> h3_request) list"
  ns_received :: "(string \<times> ip_addr \<times> bytes) list"
  ns_frames :: "(string \<times> ip_addr \<times> bytes) list"
  ns_datagrams :: "(bytes \<times> peer) list"
  ns_replies :: "(ip_addr \<times> h3_request \<times> http_reply) list"
  ns_doh_replies :: "(ip_addr \<times> doh_request \<times> http_reply) list"

text \<open>What the UDP listener sees of it.\<close>

definition udp_view :: "('n, 's, 'f) net_state \<Rightarrow> ('n, 's, 'f) engine udp_listener" where
  "udp_view n = \<lparr>ul_pool = ns_udp n, ul_service = ns_engine n, ul_sent = ns_datagrams n\<rparr>"

text \<open>The part in the single flight that a query gets if it is served now.\<close>

definition flights_ok :: "('n, 's, 'f) app \<Rightarrow> ('n, 's, 'f) engine \<Rightarrow> (bytes \<Rightarrow> 'n flight) \<Rightarrow> bool" where
  "flights_ok A st flight \<longleftrightarrow>
     (\<forall>wire pq. parse_and_validate_query (ap_lib A) wire = Some pq \<longrightarrow> cell_value st (pq_cache_key pq) (flight wire))"

definition serve_now :: "('n, 's, 'f) app \<Rightarrow> (bytes \<Rightarrow> 'n flight) \<Rightarrow> ('n, 's, 'f) engine service" where
  "serve_now A flight wire protocol ip st = process_dns_query A wire protocol ip (flight wire) st"

text \<open>The pool after a turn of one of its connections.\<close>

definition turn_pool :: "conn list \<Rightarrow> conn option \<Rightarrow> conn list \<Rightarrow> conn pool \<Rightarrow> conn pool" where
  "turn_pool pre c post p = (case c of Some c' \<Rightarrow> p\<lparr>pl_tasks := pre @ c' # post\<rparr> | None \<Rightarrow> task_done pre post p)"

definition sent_frame :: "string \<Rightarrow> ip_addr \<Rightarrow> bytes option \<Rightarrow> (string \<times> ip_addr \<times> bytes) list" where
  "sent_frame protocol ip f = (case f of Some w \<Rightarrow> [(protocol, ip, w)] | None \<Rightarrow> [])"

inductive net_step ::
  "('n, 's, 'f) app \<Rightarrow> ('n, 's, 'f) http_env \<Rightarrow> ('n, 's, 'f) net_state \<Rightarrow> ('n, 's, 'f) net_state \<Rightarrow> bool" for A E where
  net_engine: "engine_step A (ns_engine n) st \<Longrightarrow> net_step A E n (n\<lparr>ns_engine := st\<rparr>)"
| net_udp_recv: "net_step A E n (n\<lparr>ns_udp := ul_pool (udp_receive wire peer (udp_view n)),
    ns_received := ns_received n @ [(''UDP'', fst peer, wire)]\<rparr>)"
| net_udp_task: "pl_tasks (ns_udp n) = pre @ t # post \<Longrightarrow> flights_ok A (ns_engine n) flight \<Longrightarrow>
    udp_task (serve_now A flight) t (udp_view n) = l \<Longrightarrow>
    net_step A E n (n\<lparr>ns_engine := ul_service l, ns_udp := task_done pre post (ns_udp n), ns_datagrams := ul_sent l\<rparr>)"
| net_doh: "flights_ok A (ns_engine n) flight \<Longrightarrow>
    build_doh_router E reject (serve_now A flight) (now_of A (ns_engine n)) peer dreq (ns_engine n) = (reply, st) \<Longrightarrow>
    net_step A E n (n\<lparr>ns_engine := st, ns_doh_replies := ns_doh_replies n @ [(peer, dreq, reply)]\<rparr>)"
| net_tcp_accept: "net_step A E n (n\<lparr>ns_tcp := run_tcp_listener (Some (peer, input, writable)) (ns_tcp n),
    ns_received := ns_received n @ [(''TCP'', peer, input)]\<rparr>)"
| net_tcp_turn: "pl_tasks (ns_tcp n) = pre @ c # post \<Longrightarrow> flights_ok A (ns_engine n) flight \<Longrightarrow>
    stream_turn (serve_now A flight) ''TCP'' c (ns_engine n) = (sent, c', st) \<Longrightarrow>
    net_step A E n (n\<lparr>ns_engine := st, ns_tcp := turn_pool pre c' post (ns_tcp n), ns_frames := ns_frames n @ sent_frame ''TCP'' (cn_peer c) sent\<rparr>)"
| net_dot_accept: "net_step A E n (n\<lparr>ns_dot := run_dot_listener (Some (peer, input, writable)) (ns_dot n),
    ns_received := ns_received n @ [(''DoT'', peer, input)]\<rparr>)"
| net_dot_handshake: "pl_tasks (ns_dot n) = pre @ c # post \<Longrightarrow> \<not> cn_ready c \<Longrightarrow>
    net_step A E n (n\<lparr>ns_dot := dot_handshake ok pre c post (ns_dot n)\<rparr>)"
| net_dot_turn: "pl_tasks (ns_dot n) = pre @ c # post \<Longrightarrow> cn_ready c \<Longrightarrow> flights_ok A (ns_engine n) flight \<Longrightarrow>
    stream_turn (serve_now A flight) ''DoT'' c (ns_engine n) = (sent, c', st) \<Longrightarrow>
    net_step A E n (n\<lparr>ns_engine := st, ns_dot := turn_pool pre c' post (ns_dot n), ns_frames := ns_frames n @ sent_frame ''DoT'' (cn_peer c) sent\<rparr>)"
| net_doq_accept: "net_step A E n (n\<lparr>ns_doq := run_doq_listener (Some peer) (ns_doq n)\<rparr>)"
| net_doq_close: "pl_tasks (ns_doq n) = pre @ peer # post \<Longrightarrow> net_step A E n (n\<lparr>ns_doq := task_done pre post (ns_doq n)\<rparr>)"
| net_doq_open: "peer \<in> set (pl_tasks (ns_doq n)) \<Longrightarrow>
    net_step A E n (n\<lparr>ns_streams := handle_doq_connection peer (input, writable) (ns_streams n),
      ns_received := ns_received n @ [(''DoQ'', peer, input)]\<rparr>)"
| net_doq_stream: "ns_streams n = pre @ (peer, input, writable) # post \<Longrightarrow> flights_ok A (ns_engine n) flight \<Longrightarrow>
    handle_doq_stream (serve_now A flight) peer writable input (ns_engine n) = (result, st) \<Longrightarrow>
    net_step A E n (n\<lparr>ns_engine := st, ns_streams := pre @ post,
      ns_frames := ns_frames n @ sent_frame ''DoQ'' peer (case result of Doq_Reply f \<Rightarrow> Some f | _ \<Rightarrow> None)\<rparr>)"
| net_doh3_accept: "net_step A E n (n\<lparr>ns_doh3 := run_doh3_listener (Some peer) (ns_doh3 n)\<rparr>)"
| net_doh3_close: "pl_tasks (ns_doh3 n) = pre @ peer # post \<Longrightarrow> net_step A E n (n\<lparr>ns_doh3 := task_done pre post (ns_doh3 n)\<rparr>)"
| net_doh3_open: "peer \<in> set (pl_tasks (ns_doh3 n)) \<Longrightarrow>
    net_step A E n (n\<lparr>ns_requests := handle_h3_connection peer (Some req) (ns_requests n)\<rparr>)"
| net_doh3_request: "ns_requests n = pre @ (peer, req) # post \<Longrightarrow> flights_ok A (ns_engine n) flight \<Longrightarrow>
    handle_h3_request E (serve_now A flight) (now_of A (ns_engine n)) peer req (ns_engine n) = (reply, st) \<Longrightarrow>
    net_step A E n (n\<lparr>ns_engine := st, ns_requests := pre @ post, ns_replies := ns_replies n @ [(peer, req, reply)]\<rparr>)"

inductive_cases net_stepE: "net_step A E n n'"

definition net_new :: "('n, 's, 'f) engine \<Rightarrow> ('n, 's, 'f) net_state" where
  "net_new st =
     \<lparr>ns_engine = st, ns_udp = \<lparr>pl_permits = UDP_PERMITS, pl_tasks = []\<rparr>,
      ns_tcp = \<lparr>pl_permits = TCP_PERMITS, pl_tasks = []\<rparr>, ns_dot = \<lparr>pl_permits = DOT_PERMITS, pl_tasks = []\<rparr>,
      ns_doq = \<lparr>pl_permits = DOQ_PERMITS, pl_tasks = []\<rparr>, ns_doh3 = \<lparr>pl_permits = DOH3_PERMITS, pl_tasks = []\<rparr>,
      ns_streams = [], ns_requests = [], ns_received = [], ns_frames = [], ns_datagrams = [], ns_replies = [],
      ns_doh_replies = []\<rparr>"

section \<open>The invariant\<close>

text \<open>An answer of the engine, in a state it can reach, to a query.\<close>

definition answered ::
  "('n, 's, 'f) app \<Rightarrow> ('n, 's, 'f) engine \<Rightarrow> string \<Rightarrow> ip_addr \<Rightarrow> bytes \<Rightarrow> bytes \<Rightarrow> bool" where
  "answered A s0 protocol ip q w \<longleftrightarrow> (\<exists>s1 s2 flight out.
     (engine_step A)\<^sup>*\<^sup>* s0 s1 \<and> process_dns_query A q protocol ip flight s1 = (out, s2) \<and> outcome_wire out = Some w \<and>
     (\<forall>pq. parse_and_validate_query (ap_lib A) q = Some pq \<and> geo_handles A pq s1 = None \<and> out = Out_Success w \<longrightarrow> sound_answer A pq s1 w))"

lemma serve_now_answered:
  assumes "app_ok A" and "engine_init A s0" and "(engine_step A)\<^sup>*\<^sup>* s0 st" and "flights_ok A st flight"
    and "serve_now A flight q protocol ip st = (out, st')"
  shows "(engine_step A)\<^sup>*\<^sup>* s0 st'" and "outcome_wire out = Some w \<Longrightarrow> answered A s0 protocol ip q w"
proof -
  have pr: "process_dns_query A q protocol ip (flight q) st = (out, st')" using assms(5) by (simp add: serve_now_def)
  have cell: "cell_value st (pq_cache_key pq) (flight q)" if "parse_and_validate_query (ap_lib A) q = Some pq" for pq
    using assms(4) that by (simp add: flights_ok_def)
  have "engine_step A st st'" by (rule step_query [OF cell pr])
  with assms(3) show "(engine_step A)\<^sup>*\<^sup>* s0 st'" by (rule rtranclp.rtrancl_into_rtrancl)
  have "sound_answer A pq st w" if "parse_and_validate_query (ap_lib A) q = Some pq" "geo_handles A pq st = None" "out = Out_Success w" for pq
    using sound_answerI [OF assms(1-3) that(1) cell [OF that(1)] that(2)] pr that(3) by blast
  with assms(3) pr show "answered A s0 protocol ip q w" if "outcome_wire out = Some w" unfolding answered_def using that by blast
qed

definition pool_ok :: "nat \<Rightarrow> 'a pool \<Rightarrow> bool" where
  "pool_ok permits p \<longleftrightarrow> pl_permits p + length (pl_tasks p) = permits"

text \<open>The queries a connection has yet to send are among those of a stream its peer opened.\<close>

definition conns_ok :: "(string \<times> ip_addr \<times> bytes) list \<Rightarrow> string \<Rightarrow> conn pool \<Rightarrow> bool" where
  "conns_ok received protocol p \<longleftrightarrow> (\<forall>c \<in> set (pl_tasks p). \<exists>input. (protocol, cn_peer c, input) \<in> set received \<and>
     set (deframe (cn_input c)) \<subseteq> set (deframe input))"

definition frame_ok ::
  "('n, 's, 'f) app \<Rightarrow> ('n, 's, 'f) engine \<Rightarrow> (string \<times> ip_addr \<times> bytes) list \<Rightarrow> string \<times> ip_addr \<times> bytes \<Rightarrow> bool" where
  "frame_ok A s0 received = (\<lambda>(protocol, ip, f). \<exists>input q w. (protocol, ip, input) \<in> set received \<and> q \<in> set (deframe input) \<and>
     f = frame w \<and> answered A s0 protocol ip q w)"

definition reply_ok ::
  "('n, 's, 'f) app \<Rightarrow> ('n, 's, 'f) http_env \<Rightarrow> ('n, 's, 'f) engine \<Rightarrow> ip_addr \<times> h3_request \<times> http_reply \<Rightarrow> bool" where
  "reply_ok A E s0 = (\<lambda>(ip, req, reply). h3_path req = ''/dns-query'' \<and> hr_status reply = 200 \<longrightarrow>
     (\<exists>q. h3_query_bytes E req = Inr q \<and> answered A s0 ''DoH3'' ip q (hr_body reply)))"

text \<open>The query a DoH request carries, and the answers over HTTP/2 and UDP.\<close>

definition doh_query :: "('n, 's, 'f) http_env \<Rightarrow> doh_request \<Rightarrow> bytes \<Rightarrow> bool" where
  "doh_query E req q \<longleftrightarrow> dr_method req = M_POST \<and> q = dr_body req \<or>
     dr_method req = M_GET \<and> (\<exists>d. dr_query req = Some (Some d) \<and> decode_dns_param (he_b64 E) (trim d) = Some q)"

definition doh_reply_ok ::
  "('n, 's, 'f) app \<Rightarrow> ('n, 's, 'f) http_env \<Rightarrow> ('n, 's, 'f) engine \<Rightarrow> ip_addr \<times> doh_request \<times> http_reply \<Rightarrow> bool" where
  "doh_reply_ok A E s0 = (\<lambda>(ip, req, reply).
     dr_path req = ''/dns-query'' \<and> (dr_method req = M_GET \<or> dr_method req = M_POST) \<and> hr_status reply = 200 \<longrightarrow>
     (\<exists>q. doh_query E req q \<and> answered A s0 ''DoH'' (extract_client_ip (dr_headers req) ip) q (hr_body reply)))"

definition datagram_ok ::
  "('n, 's, 'f) app \<Rightarrow> ('n, 's, 'f) engine \<Rightarrow> (string \<times> ip_addr \<times> bytes) list \<Rightarrow> bytes \<times> peer \<Rightarrow> bool" where
  "datagram_ok A s0 received = (\<lambda>(w, p). \<exists>q. (''UDP'', fst p, q) \<in> set received \<and> answered A s0 ''UDP'' (fst p) q w)"

definition net_inv ::
  "('n, 's, 'f) app \<Rightarrow> ('n, 's, 'f) http_env \<Rightarrow> ('n, 's, 'f) engine \<Rightarrow> ('n, 's, 'f) net_state \<Rightarrow> bool" where
  "net_inv A E s0 n \<longleftrightarrow> (engine_step A)\<^sup>*\<^sup>* s0 (ns_engine n) \<and>
     pool_ok UDP_PERMITS (ns_udp n) \<and> pool_ok TCP_PERMITS (ns_tcp n) \<and> pool_ok DOT_PERMITS (ns_dot n) \<and> pool_ok DOQ_PERMITS (ns_doq n) \<and> pool_ok DOH3_PERMITS (ns_doh3 n) \<and>
     conns_ok (ns_received n) ''TCP'' (ns_tcp n) \<and> conns_ok (ns_received n) ''DoT'' (ns_dot n) \<and>
     (\<forall>(ip, input, writable) \<in> set (ns_streams n). (''DoQ'', ip, input) \<in> set (ns_received n)) \<and>
     (\<forall>(wire, p) \<in> set (pl_tasks (ns_udp n)). (''UDP'', fst p, wire) \<in> set (ns_received n)) \<and>
     list_all (frame_ok A s0 (ns_received n)) (ns_frames n) \<and> list_all (datagram_ok A s0 (ns_received n)) (ns_datagrams n) \<and>
     list_all (reply_ok A E s0) (ns_replies n) \<and> list_all (doh_reply_ok A E s0) (ns_doh_replies n)"

text \<open>Pools.\<close>

lemma pool_ok_spawn: "pool_ok k p \<Longrightarrow> pool_ok k (try_spawn t p)"
  by (simp add: pool_ok_def try_spawn_total)

lemma pool_ok_done: "pool_ok k p \<Longrightarrow> pl_tasks p = pre @ t # post \<Longrightarrow> pool_ok k (task_done pre post p)"
  by (simp add: pool_ok_def task_done_total)

lemma pool_ok_replace: "pool_ok k p \<Longrightarrow> pl_tasks p = pre @ t # post \<Longrightarrow> pool_ok k (p\<lparr>pl_tasks := pre @ t' # post\<rparr>)"
  by (simp add: pool_ok_def)

lemma pool_ok_turn: "pool_ok k p \<Longrightarrow> pl_tasks p = pre @ t # post \<Longrightarrow> pool_ok k (turn_pool pre c post p)"
  by (simp add: turn_pool_def pool_ok_done pool_ok_replace split: option.splits)

lemmas pool_simps = pool_ok_spawn pool_ok_done pool_ok_replace pool_ok_turn

lemma conns_ok_mono: "conns_ok rcv protocol p \<Longrightarrow> set rcv \<subseteq> set rcv' \<Longrightarrow> conns_ok rcv' protocol p"
  unfolding conns_ok_def by blast

lemma conns_ok_spawn:
  "conns_ok rcv protocol p \<Longrightarrow> (protocol, cn_peer c, cn_input c) \<in> set rcv \<Longrightarrow> conns_ok rcv protocol (try_spawn c p)"
  by (auto simp: conns_ok_def try_spawn_def)

lemma conns_ok_done: "conns_ok rcv protocol p \<Longrightarrow> pl_tasks p = pre @ c # post \<Longrightarrow> conns_ok rcv protocol (task_done pre post p)"
  by (simp add: conns_ok_def task_done_def)

lemma conns_ok_replace:
  assumes "conns_ok rcv protocol p" and "pl_tasks p = pre @ c # post"
    and "cn_peer d = cn_peer c" and "set (deframe (cn_input d)) \<subseteq> set (deframe (cn_input c))"
  shows "conns_ok rcv protocol (p\<lparr>pl_tasks := pre @ d # post\<rparr>)"
proof -
  obtain input where "(protocol, cn_peer c, input) \<in> set rcv" "set (deframe (cn_input c)) \<subseteq> set (deframe input)"
    using assms(1,2) by (auto simp: conns_ok_def)
  with assms have "\<exists>input. (protocol, cn_peer d, input) \<in> set rcv \<and> set (deframe (cn_input d)) \<subseteq> set (deframe input)" by auto
  with assms(1,2) show ?thesis by (auto simp: conns_ok_def)
qed

lemma conns_ok_turn:
  assumes "conns_ok rcv protocol p" and "pl_tasks p = pre @ c # post"
    and "\<And>d. c' = Some d \<Longrightarrow> cn_peer d = cn_peer c \<and> set (deframe (cn_input d)) \<subseteq> set (deframe (cn_input c))"
  shows "conns_ok rcv protocol (turn_pool pre c' post p)"
proof (cases c')
  case None
  then show ?thesis using conns_ok_done [OF assms(1,2)] by (simp add: turn_pool_def)
next
  case (Some d)
  then show ?thesis using conns_ok_replace [OF assms(1,2), of d] assms(3) [OF Some] by (simp add: turn_pool_def)
qed

lemma frame_ok_mono: "list_all (frame_ok A s0 rcv) fs \<Longrightarrow> set rcv \<subseteq> set rcv' \<Longrightarrow> list_all (frame_ok A s0 rcv') fs"
  unfolding list_all_iff frame_ok_def by blast

lemma datagram_ok_mono: "list_all (datagram_ok A s0 rcv) ds \<Longrightarrow> set rcv \<subseteq> set rcv' \<Longrightarrow> list_all (datagram_ok A s0 rcv') ds"
  unfolding list_all_iff datagram_ok_def by blast

text \<open>The kinds of service.\<close>

lemma turn_sound:
  assumes ok: "app_ok A" "engine_init A s0" and r: "(engine_step A)\<^sup>*\<^sup>* s0 st" and fl: "flights_ok A st flight"
    and t: "stream_turn (serve_now A flight) protocol c st = (sent, c', st')"
    and p: "conns_ok rcv protocol p" "pl_tasks p = pre @ c # post"
  shows "(engine_step A)\<^sup>*\<^sup>* s0 st'" and "list_all (frame_ok A s0 rcv) (sent_frame protocol (cn_peer c) sent)"
    and "conns_ok rcv protocol (turn_pool pre c' post p)"
proof (atomize (full), cases rule: stream_turn_cases [of "serve_now A flight" protocol c st])
  case stop
  then show "(engine_step A)\<^sup>*\<^sup>* s0 st' \<and> list_all (frame_ok A s0 rcv) (sent_frame protocol (cn_peer c) sent) \<and> conns_ok rcv protocol (turn_pool pre c' post p)"
    using r t conns_ok_done [OF p] by (simp add: sent_frame_def turn_pool_def)
next
  case (turn q out st1 sent1 c1)
  then have e: "st1 = st'" "sent1 = sent" "c1 = c'" using t by simp_all
  note sv = serve_now_answered [OF ok r fl turn(2)]
  obtain input where i: "(protocol, cn_peer c, input) \<in> set rcv" "q \<in> set (deframe input)"
    using p turn(1) by (fastforce simp: conns_ok_def)
  have "list_all (frame_ok A s0 rcv) (sent_frame protocol (cn_peer c) sent)"
  proof (cases sent)
    case (Some f)
    then obtain w where w: "outcome_wire out = Some w" "f = frame w" using turn(4) e by blast
    then have "frame_ok A s0 rcv (protocol, cn_peer c, f)" using i sv(2) unfolding frame_ok_def by blast
    then show ?thesis by (simp add: sent_frame_def Some)
  qed (simp add: sent_frame_def)
  moreover have "conns_ok rcv protocol (turn_pool pre c' post p)" by (rule conns_ok_turn [OF p]) (use turn(5) e in blast)
  ultimately show "(engine_step A)\<^sup>*\<^sup>* s0 st' \<and> list_all (frame_ok A s0 rcv) (sent_frame protocol (cn_peer c) sent) \<and> conns_ok rcv protocol (turn_pool pre c' post p)"
    using sv(1) e by simp
qed

lemma doq_stream_cases:
  assumes "handle_doq_stream serve ip writable input st = (result, st')"
  obtains "st' = st" "\<And>f. result \<noteq> Doq_Reply f"
  | q out where "q \<in> set (deframe input)" "serve q ''DoQ'' ip st = (out, st')"
    "\<And>f. result = Doq_Reply f \<Longrightarrow> \<exists>w. outcome_wire out = Some w \<and> f = frame w"
proof -
  define n where "n = unat (from_be_bytes16 (input ! 0) (input ! 1))"
  show thesis
  proof (cases "\<not> length input < 2 \<and> valid_len n \<and> n \<le> length (drop 2 input)")
    case True
    then have q: "take n (drop 2 input) \<in> set (deframe input)" by (subst deframe.simps) (simp add: n_def Let_def)
    obtain out s1 where o: "serve (take n (drop 2 input)) ''DoQ'' ip st = (out, s1)" by (metis surj_pair)
    have s1: "s1 = st'" using assms True o by (auto simp: handle_doq_stream_def Let_def n_def)
    show thesis
      by (rule that(2) [OF q o [unfolded s1]])
        (use assms True o in \<open>auto simp: handle_doq_stream_def Let_def n_def outcome_wire_def split: process_outcome.splits if_splits\<close>)
  next
    case False
    with assms show thesis by (intro that(1)) (auto simp: handle_doq_stream_def Let_def n_def split: if_splits)
  qed
qed

lemma doq_sound:
  assumes ok: "app_ok A" "engine_init A s0" and r: "(engine_step A)\<^sup>*\<^sup>* s0 st" and fl: "flights_ok A st flight"
    and h: "handle_doq_stream (serve_now A flight) ip writable input st = (result, st')" and i: "(''DoQ'', ip, input) \<in> set rcv"
  shows "(engine_step A)\<^sup>*\<^sup>* s0 st' \<and>
    list_all (frame_ok A s0 rcv) (sent_frame ''DoQ'' ip (case result of Doq_Reply f \<Rightarrow> Some f | _ \<Rightarrow> None))"
  using h
proof (cases rule: doq_stream_cases)
  case 1
  with r show ?thesis by (auto simp: sent_frame_def split: doq_result.splits)
next
  case (2 q out)
  note sv = serve_now_answered [OF ok r fl 2(2)]
  have "frame_ok A s0 rcv (''DoQ'', ip, f)" if "result = Doq_Reply f" for f
    using 2(1) 2(3) [OF that] i sv(2) unfolding frame_ok_def by blast
  with sv(1) show ?thesis by (auto simp: sent_frame_def split: doq_result.splits)
qed

lemma h3_heartbeat_step:
  assumes "h3_heartbeat E (now_of A st) ip req st = (reply, st')"
  shows "(engine_step A)\<^sup>*\<^sup>* st st'"
proof -
  have "st' = st \<or> (\<exists>geo payload. en_geo st = Some geo \<and> st' = st\<lparr>en_geo := Some (apply_peer_heartbeat (now_of A st) payload geo)\<rparr>)"
    using assms by (auto simp: h3_heartbeat_def Let_def split: option.splits if_splits)
  then show ?thesis using step_heartbeat [of st _ A] by blast
qed

lemma h3_query_error: "h3_query_bytes E req = Inl reply \<Longrightarrow> hr_status reply \<noteq> 200"
  by (auto simp: h3_query_bytes_def text_reply_def split: http_method.splits option.splits if_splits)

lemma h3_sound:
  assumes ok: "app_ok A" "engine_init A s0" and r: "(engine_step A)\<^sup>*\<^sup>* s0 st" and fl: "flights_ok A st flight"
    and h: "handle_h3_request E (serve_now A flight) (now_of A st) ip req st = (reply, st')"
  shows "(engine_step A)\<^sup>*\<^sup>* s0 st' \<and> reply_ok A E s0 (ip, req, reply)"
proof (cases "h3_path req = ''/dns-query''")
  case True
  show ?thesis
  proof (cases "h3_query_bytes E req")
    case (Inl e)
    then show ?thesis using h True r h3_query_error [OF Inl] by (auto simp: handle_h3_request_def reply_ok_def)
  next
    case (Inr q)
    obtain out where o: "serve_now A flight q ''DoH3'' ip st = (out, st')" and reply: "reply = h3_outcome out"
      using h True Inr by (auto simp: handle_h3_request_def split: prod.splits)
    note sv = serve_now_answered [OF ok r fl o]
    have "outcome_wire out = Some (hr_body reply)" if "hr_status reply = 200"
      using that by (cases out) (simp_all add: reply h3_outcome_def outcome_wire_def)
    with sv Inr show ?thesis by (simp add: reply_ok_def)
  qed
next
  case False
  then have "(engine_step A)\<^sup>*\<^sup>* st st'"
    using h h3_heartbeat_step [of E A st ip req] by (auto simp: handle_h3_request_def split: if_splits)
  with r False show ?thesis by (simp add: reply_ok_def)
qed

lemma udp_sound:
  assumes ok: "app_ok A" "engine_init A s0" and r: "(engine_step A)\<^sup>*\<^sup>* s0 (ns_engine n)" and fl: "flights_ok A (ns_engine n) flight"
    and t: "udp_task (serve_now A flight) (wire, p) (udp_view n) = l" and i: "(''UDP'', fst p, wire) \<in> set rcv"
    and d: "list_all (datagram_ok A s0 rcv) (ns_datagrams n)"
  shows "(engine_step A)\<^sup>*\<^sup>* s0 (ul_service l) \<and> list_all (datagram_ok A s0 rcv) (ul_sent l)"
proof -
  obtain out st' where o: "serve_now A flight wire ''UDP'' (fst p) (ns_engine n) = (out, st')" by (metis surj_pair)
  note sv = serve_now_answered [OF ok r fl o]
  have "datagram_ok A s0 rcv (w, p)" if "outcome_wire out = Some w" for w
    using sv(2) [OF that] i unfolding datagram_ok_def by blast
  with sv(1) d o t show ?thesis by (auto simp: udp_task_def udp_view_def split: option.splits)
qed

lemma doh_get_cases:
  assumes "handle_doh_get E serve headers peer dns st = (reply, st')"
  obtains "st' = st" "hr_status reply \<noteq> 200"
  | d q out where "dns = Some d" "decode_dns_param (he_b64 E) (trim d) = Some q"
    "serve q ''DoH'' (extract_client_ip headers peer) st = (out, st')" "reply = handle_dns_outcome out"
  using assms by (auto simp: handle_doh_get_def serve_doh_def text_reply_def split: if_splits option.splits prod.splits)

lemma doh_post_cases:
  assumes "handle_doh_post serve headers peer body st = (reply, st')"
  obtains "st' = st" "hr_status reply \<noteq> 200"
  | out where "serve body ''DoH'' (extract_client_ip headers peer) st = (out, st')" "reply = handle_dns_outcome out"
  using assms by (auto simp: handle_doh_post_def serve_doh_def text_reply_def Let_def split: if_splits prod.splits)

lemma dns_outcome_wire: "hr_status (handle_dns_outcome out) = 200 \<Longrightarrow> outcome_wire out = Some (hr_body (handle_dns_outcome out))"
  by (cases out) (simp_all add: handle_dns_outcome_def text_reply_def make_dns_response_def outcome_wire_def)

text \<open>A handler of queries: it leaves a reachable state, and a 200 is an answer.\<close>

definition serves :: "('n, 's, 'f) app \<Rightarrow> ('n, 's, 'f) engine \<Rightarrow> ip_addr \<Rightarrow> (bytes \<Rightarrow> bool) \<Rightarrow> http_reply \<times> ('n, 's, 'f) engine \<Rightarrow> bool" where
  "serves A s0 ip carries = (\<lambda>(reply, st'). (engine_step A)\<^sup>*\<^sup>* s0 st' \<and>
     (hr_status reply = 200 \<longrightarrow> (\<exists>q. carries q \<and> answered A s0 ''DoH'' ip q (hr_body reply))))"

lemma doh_get_serves:
  assumes ok: "app_ok A" "engine_init A s0" and r: "(engine_step A)\<^sup>*\<^sup>* s0 st" and fl: "flights_ok A st flight"
  shows "serves A s0 (extract_client_ip headers peer) (\<lambda>q. \<exists>d. dns = Some d \<and> decode_dns_param (he_b64 E) (trim d) = Some q)
    (handle_doh_get E (serve_now A flight) headers peer dns st)"
proof (cases "handle_doh_get E (serve_now A flight) headers peer dns st")
  case (Pair reply st')
  then show ?thesis
  proof (cases rule: doh_get_cases)
    case 1
    with r Pair show ?thesis by (simp add: serves_def)
  next
    case (2 d q out)
    note sv = serve_now_answered [OF ok r fl 2(3)]
    show ?thesis using sv 2 dns_outcome_wire [of out] unfolding Pair by (auto simp: serves_def)
  qed
qed

lemma doh_post_serves:
  assumes ok: "app_ok A" "engine_init A s0" and r: "(engine_step A)\<^sup>*\<^sup>* s0 st" and fl: "flights_ok A st flight"
  shows "serves A s0 (extract_client_ip headers peer) (\<lambda>q. q = body) (handle_doh_post (serve_now A flight) headers peer body st)"
proof (cases "handle_doh_post (serve_now A flight) headers peer body st")
  case (Pair reply st')
  then show ?thesis
  proof (cases rule: doh_post_cases)
    case 1
    with r Pair show ?thesis by (simp add: serves_def)
  next
    case (2 out)
    note sv = serve_now_answered [OF ok r fl 2(1)]
    show ?thesis using sv 2 dns_outcome_wire [of out] unfolding Pair by (auto simp: serves_def)
  qed
qed

lemma peer_heartbeat_step:
  assumes "handle_peer_heartbeat E (now_of A st) headers ip body st = (reply, st')"
  shows "(engine_step A)\<^sup>*\<^sup>* st st'"
proof -
  have "st' = st \<or> (\<exists>geo payload. en_geo st = Some geo \<and> st' = st\<lparr>en_geo := Some (apply_peer_heartbeat (now_of A st) payload geo)\<rparr>)"
    using assms by (auto simp: handle_peer_heartbeat_def split: option.splits if_splits)
  then show ?thesis using step_heartbeat [of st _ A] by blast
qed

lemma doh_sound:
  assumes ok: "app_ok A" "engine_init A s0" and r: "(engine_step A)\<^sup>*\<^sup>* s0 st" and fl: "flights_ok A st flight"
    and h: "build_doh_router E reject (serve_now A flight) (now_of A st) peer req st = (reply, st')"
  shows "(engine_step A)\<^sup>*\<^sup>* s0 st' \<and> doh_reply_ok A E s0 (peer, req, reply)"
proof (cases "dr_path req = ''/dns-query''")
  case True
  let ?ip = "extract_client_ip (dr_headers req) peer"
  have get: "serves A s0 ?ip (\<lambda>q. \<exists>d. dns = Some d \<and> decode_dns_param (he_b64 E) (trim d) = Some q)
    (handle_doh_get E (serve_now A flight) (dr_headers req) peer dns st)" for dns by (rule doh_get_serves [OF ok r fl])
  have post: "serves A s0 ?ip (\<lambda>q. q = dr_body req) (handle_doh_post (serve_now A flight) (dr_headers req) peer (dr_body req) st)"
    by (rule doh_post_serves [OF ok r fl])
  show ?thesis
  proof (cases "dr_method req")
    case M_GET
    show ?thesis
    proof (cases "dr_query req")
      case None
      then show ?thesis using h True M_GET r by (auto simp: build_doh_router_def doh_reply_ok_def text_reply_def)
    next
      case (Some dns)
      then have "handle_doh_get E (serve_now A flight) (dr_headers req) peer dns st = (reply, st')"
        using h True M_GET by (simp add: build_doh_router_def)
      with get [of dns] show ?thesis by (auto simp: serves_def doh_reply_ok_def doh_query_def Some M_GET)
    qed
  next
    case M_HEAD
    show ?thesis
    proof (cases "dr_query req")
      case None
      then show ?thesis using h True M_HEAD r by (auto simp: build_doh_router_def doh_reply_ok_def no_body_def)
    next
      case (Some dns)
      then obtain reply' where "handle_doh_get E (serve_now A flight) (dr_headers req) peer dns st = (reply', st')"
        using h True M_HEAD by (auto simp: build_doh_router_def no_body_def split: prod.splits)
      with get [of dns] show ?thesis by (simp add: serves_def doh_reply_ok_def M_HEAD)
    qed
  next
    case M_POST
    show ?thesis
    proof (cases "length (dr_body req) > MAX_DOH_PAYLOAD")
      case True
      with h \<open>dr_path req = ''/dns-query''\<close> M_POST r show ?thesis by (auto simp: build_doh_router_def doh_reply_ok_def text_reply_def)
    next
      case False
      then have "handle_doh_post (serve_now A flight) (dr_headers req) peer (dr_body req) st = (reply, st')"
        using h True M_POST by (simp add: build_doh_router_def)
      with post show ?thesis by (auto simp: serves_def doh_reply_ok_def doh_query_def M_POST)
    qed
  qed (use h True r in \<open>auto simp: build_doh_router_def doh_reply_ok_def\<close>)
next
  case False
  have "(engine_step A)\<^sup>*\<^sup>* st st'"
    using h False peer_heartbeat_step [of E A st "dr_headers req" peer "dr_body req"]
    by (auto simp: build_doh_router_def Let_def no_body_def split: if_splits doh_method.splits)
  with r False show ?thesis by (simp add: doh_reply_ok_def)
qed

lemma net_step_inv:
  assumes ok: "app_ok A" "engine_init A s0" and inv: "net_inv A E s0 n" and step: "net_step A E n n'"
  shows "net_inv A E s0 n'"
proof -
  have reach: "(engine_step A)\<^sup>*\<^sup>* s0 (ns_engine n)" and tcp: "conns_ok (ns_received n) ''TCP'' (ns_tcp n)"
    and dot: "conns_ok (ns_received n) ''DoT'' (ns_dot n)" using inv by (simp_all add: net_inv_def)
  have grown: "conns_ok (ns_received n @ [x]) ''TCP'' (ns_tcp n)" "conns_ok (ns_received n @ [x]) ''DoT'' (ns_dot n)"
    "list_all (frame_ok A s0 (ns_received n @ [x])) (ns_frames n)"
    "list_all (datagram_ok A s0 (ns_received n @ [x])) (ns_datagrams n)" for x
    using inv conns_ok_mono [OF tcp, of "ns_received n @ [x]"] conns_ok_mono [OF dot, of "ns_received n @ [x]"]
      frame_ok_mono [of A s0 "ns_received n" "ns_frames n" "ns_received n @ [x]"]
      datagram_ok_mono [of A s0 "ns_received n" "ns_datagrams n" "ns_received n @ [x]"] by (auto simp: net_inv_def)
  from step show ?thesis
  proof cases
    case (net_engine st)
    then show ?thesis using inv reach by (auto simp: net_inv_def intro: rtranclp.rtrancl_into_rtrancl)
  next
    case (net_udp_recv wire peer)
    then show ?thesis using inv grown by (auto simp: net_inv_def udp_receive_def udp_view_def pool_simps) (auto simp: try_spawn_def split: if_splits)
  next
    case (net_udp_task pre t post flight l)
    obtain wire p where t: "t = (wire, p)" by (cases t)
    have i: "(''UDP'', fst p, wire) \<in> set (ns_received n)" and d: "list_all (datagram_ok A s0 (ns_received n)) (ns_datagrams n)"
      using inv net_udp_task(2) t by (auto simp: net_inv_def)
    note u = udp_sound [OF ok reach net_udp_task(3) net_udp_task(4) [unfolded t] i d]
    have "pool_ok UDP_PERMITS (task_done pre post (ns_udp n))" using inv pool_ok_done [OF _ net_udp_task(2)] by (simp add: net_inv_def)
    moreover have "pl_tasks (task_done pre post (ns_udp n)) = pre @ post" by (simp add: task_done_def)
    ultimately show ?thesis using inv u net_udp_task(2) unfolding net_udp_task(1) by (auto simp: net_inv_def)
  next
    case (net_doh flight reject peer dreq reply st)
    note h = doh_sound [OF ok reach net_doh(2,3)]
    show ?thesis using inv h unfolding net_doh(1) by (simp add: net_inv_def)
  next
    case (net_tcp_accept peer input writable)
    then show ?thesis using inv grown by (auto simp: net_inv_def run_tcp_listener_def pool_simps intro!: conns_ok_spawn)
  next
    case (net_tcp_turn pre c post flight sent c' st)
    note t = turn_sound [OF ok reach net_tcp_turn(3,4) tcp net_tcp_turn(2)]
    show ?thesis using inv t net_tcp_turn(2) unfolding net_tcp_turn(1) by (simp add: net_inv_def pool_simps)
  next
    case (net_dot_accept peer input writable)
    then show ?thesis using inv grown by (auto simp: net_inv_def run_dot_listener_def pool_simps intro!: conns_ok_spawn)
  next
    case (net_dot_handshake pre c post ok)
    then show ?thesis using inv conns_ok_done [OF dot net_dot_handshake(2)] conns_ok_replace [OF dot net_dot_handshake(2), of "c\<lparr>cn_ready := True\<rparr>"]
      by (auto simp: net_inv_def dot_handshake_def pool_simps)
  next
    case (net_dot_turn pre c post flight sent c' st)
    note t = turn_sound [OF ok reach net_dot_turn(4,5) dot net_dot_turn(2)]
    show ?thesis using inv t net_dot_turn(2) unfolding net_dot_turn(1) by (simp add: net_inv_def pool_simps)
  next
    case (net_doq_accept peer)
    then show ?thesis using inv by (simp add: net_inv_def run_doq_listener_def pool_simps)
  next
    case (net_doq_close pre peer post)
    then show ?thesis using inv by (simp add: net_inv_def pool_simps)
  next
    case (net_doq_open peer input writable)
    then show ?thesis using inv grown by (auto simp: net_inv_def handle_doq_connection_def)
  next
    case (net_doq_stream pre peer input writable post flight result st)
    then have "(''DoQ'', peer, input) \<in> set (ns_received n)" using inv by (auto simp: net_inv_def)
    note d = doq_sound [OF ok reach net_doq_stream(3,4) this]
    show ?thesis using inv d net_doq_stream(2) unfolding net_doq_stream(1) by (auto simp: net_inv_def)
  next
    case (net_doh3_accept peer)
    then show ?thesis using inv by (simp add: net_inv_def run_doh3_listener_def pool_simps)
  next
    case (net_doh3_close pre peer post)
    then show ?thesis using inv by (simp add: net_inv_def pool_simps)
  next
    case (net_doh3_open peer req)
    then show ?thesis using inv by (simp add: net_inv_def)
  next
    case (net_doh3_request pre peer req post flight reply st)
    note h = h3_sound [OF ok reach net_doh3_request(3,4)]
    show ?thesis using inv h unfolding net_doh3_request(1) by (simp add: net_inv_def)
  qed
qed

interpretation nets: transition_system "\<lambda>n. n = net_new s0 \<and> app_ok A \<and> engine_init A s0" "net_step A E"
  "\<lambda>n. app_ok A \<and> engine_init A s0 \<longrightarrow> net_inv A E s0 n" for A E s0
proof unfold_locales
  show "app_ok A \<and> engine_init A s0 \<longrightarrow> net_inv A E s0 n" if "n = net_new s0 \<and> app_ok A \<and> engine_init A s0" for n
    using that by (simp add: net_inv_def net_new_def pool_ok_def conns_ok_def)
  show "app_ok A \<and> engine_init A s0 \<longrightarrow> net_inv A E s0 n'" if "app_ok A \<and> engine_init A s0 \<longrightarrow> net_inv A E s0 n" "net_step A E n n'" for n n'
    using that net_step_inv by blast
qed

text \<open>
  C32. All six transports together, with datagrams, connections, streams and requests
  interleaved in any order between any two messages and with the tasks of the engine: UDP serves at most 2048
  queries at a time, TCP, DoT, DoQ and DoH3 at most 512 connections each, and no permit gets lost; every
  datagram and every frame sent to a peer is the engine's answer, from a state it can reach, to a query in what that
  peer sent, and every DoH and DoH3 reply with status 200 to a query (GET or POST) is the answer to the query of its request; a success for a name outside the geo
  layer is sound: built from a response that is not Bogus unless checking is off, with the AD bit only on
  data verified for the question.
\<close>

theorem listeners_sound:
  assumes "app_ok A" and "engine_init A s0" and "(net_step A E)\<^sup>*\<^sup>* (net_new s0) n"
  shows "pl_permits (ns_udp n) + length (pl_tasks (ns_udp n)) = 2048 \<and>
    pl_permits (ns_tcp n) + length (pl_tasks (ns_tcp n)) = 512 \<and> pl_permits (ns_dot n) + length (pl_tasks (ns_dot n)) = 512 \<and>
    pl_permits (ns_doq n) + length (pl_tasks (ns_doq n)) = 512 \<and> pl_permits (ns_doh3 n) + length (pl_tasks (ns_doh3 n)) = 512 \<and>
    (engine_step A)\<^sup>*\<^sup>* s0 (ns_engine n) \<and>
    (\<forall>(protocol, ip, f) \<in> set (ns_frames n). \<exists>input q w. (protocol, ip, input) \<in> set (ns_received n) \<and> q \<in> set (deframe input) \<and>
       f = frame w \<and> answered A s0 protocol ip q w) \<and>
    (\<forall>(w, p) \<in> set (ns_datagrams n). \<exists>q. (''UDP'', fst p, q) \<in> set (ns_received n) \<and> answered A s0 ''UDP'' (fst p) q w) \<and>
    (\<forall>(ip, req, reply) \<in> set (ns_doh_replies n).
       dr_path req = ''/dns-query'' \<and> (dr_method req = M_GET \<or> dr_method req = M_POST) \<and> hr_status reply = 200 \<longrightarrow>
       (\<exists>q. doh_query E req q \<and> answered A s0 ''DoH'' (extract_client_ip (dr_headers req) ip) q (hr_body reply))) \<and>
    (\<forall>(ip, req, reply) \<in> set (ns_replies n). h3_path req = ''/dns-query'' \<and> hr_status reply = 200 \<longrightarrow>
       (\<exists>q. h3_query_bytes E req = Inr q \<and> answered A s0 ''DoH3'' ip q (hr_body reply)))"
proof -
  have "net_inv A E s0 n" using nets.reachable_inv [OF _ assms(3)] assms(1,2) by blast
  then show ?thesis
    unfolding net_inv_def pool_ok_def UDP_PERMITS_def TCP_PERMITS_def DOT_PERMITS_def DOQ_PERMITS_def DOH3_PERMITS_def list_all_iff frame_ok_def reply_ok_def
      datagram_ok_def doh_reply_ok_def
    by (intro conjI) simp_all
qed

lemma stream_turn_frame:
  assumes "valid_len (length q)" and "serve q protocol (cn_peer c) st = (out, st')" and "cn_input c = frame q @ rest"
    and "outcome_wire out = Some w" and "length w \<le> MAX_TCP_MSG_SIZE" and "cn_writable c (cn_written c)"
  shows "stream_turn serve protocol c st = (Some (frame w), Some (c\<lparr>cn_input := rest, cn_written := Suc (cn_written c)\<rparr>), st')"
proof -
  have len: "length q \<le> 65535" using assms(1) by (simp add: valid_len_def MAX_TCP_MSG_SIZE_def)
  have at: "(frame q @ rest) ! 0 = frame q ! 0" "(frame q @ rest) ! 1 = frame q ! 1" "\<not> length (frame q @ rest) < 2" "drop 2 (frame q @ rest) = q @ rest"
    by (simp_all add: frame_def to_be_bytes16_def)
  show ?thesis unfolding stream_turn_def assms(3) using assms(1,2,4-6) by (simp only: at frame_length [OF len] Let_def if_False) simp
qed

theorem listeners_sound_witness:
  "\<exists>n. (net_step idle_app demo_http)\<^sup>*\<^sup>* (net_new idle_engine) n \<and> ns_frames n = [(''TCP'', V4 0x7F000001, frame [0])] \<and>
     pl_permits (ns_tcp n) + length (pl_tasks (ns_tcp n)) = 512 \<and> answered idle_app idle_engine ''TCP'' (V4 0x7F000001) (replicate 12 0) [0]"
proof -
  let ?ip = "V4 0x7F000001" and ?q = "replicate 12 (0 :: u8)" and ?flight = "\<lambda>_. Evaluate True"
  let ?c = "\<lparr>cn_peer = ?ip, cn_ready = True, cn_input = frame ?q @ [], cn_written = 0, cn_writable = \<lambda>_. True\<rparr>"
  define n1 where "n1 = (net_new idle_engine)\<lparr>ns_tcp := run_tcp_listener (Some (?ip, frame ?q @ [], \<lambda>_. True)) (ns_tcp (net_new idle_engine)),
    ns_received := ns_received (net_new idle_engine) @ [(''TCP'', ?ip, frame ?q @ [])]\<rparr>"
  have fl: "flights_ok idle_app (ns_engine n1) ?flight" by (simp add: flights_ok_def cell_value_def)
  obtain st where a: "serve_now idle_app ?flight ?q ''TCP'' ?ip idle_engine = (Out_Success [0], st)"
    using idle_answer by (auto simp: serve_now_def)
  let ?c' = "?c\<lparr>cn_input := [], cn_written := 1\<rparr>"
  have t: "stream_turn (serve_now idle_app ?flight) ''TCP'' ?c (ns_engine n1) = (Some (frame [0]), Some ?c', st)"
    using stream_turn_frame [of ?q "serve_now idle_app ?flight" "''TCP''" ?c idle_engine "Out_Success [0]" st "[]" "[0]"] a
    by (simp add: n1_def net_new_def valid_len_def MIN_DNS_MSG_SIZE_def MAX_TCP_MSG_SIZE_def outcome_wire_def)
  have p: "pl_tasks (ns_tcp n1) = [] @ ?c # []" by (simp add: n1_def net_new_def run_tcp_listener_def try_spawn_def TCP_PERMITS_def)
  define n2 where "n2 = n1\<lparr>ns_engine := st, ns_tcp := turn_pool [] (Some ?c') [] (ns_tcp n1),
    ns_frames := ns_frames n1 @ sent_frame ''TCP'' (cn_peer ?c) (Some (frame [0]))\<rparr>"
  have "net_step idle_app demo_http (net_new idle_engine) n1" unfolding n1_def by (rule net_tcp_accept)
  moreover have "net_step idle_app demo_http n1 n2" unfolding n2_def by (rule net_tcp_turn [OF p fl t])
  ultimately have r: "(net_step idle_app demo_http)\<^sup>*\<^sup>* (net_new idle_engine) n2" by (meson rtranclp.rtrancl_into_rtrancl rtranclp.rtrancl_refl)
  have f: "ns_frames n2 = [(''TCP'', ?ip, frame [0])]" "pl_permits (ns_tcp n2) + length (pl_tasks (ns_tcp n2)) = 512"
    using listeners_sound [OF idle_app_ok idle_init r] by (simp_all add: n2_def n1_def net_new_def sent_frame_def)
  have "answered idle_app idle_engine ''TCP'' ?ip ?q [0]"
    using serve_now_answered(2) [OF idle_app_ok idle_init rtranclp.rtrancl_refl _ a] fl by (simp add: n1_def net_new_def outcome_wire_def)
  with r f show ?thesis by blast
qed

end
