(* ===== verification/Startup.thy ===== *)
theory Startup
  imports Root_Zone Http_Transports Geo_Config
begin

text \<open>
  \<open>src/main.rs\<close>: the start of the server, with the ports and the fallback of its sockets
  (also \<open>bind_quic_endpoint\<close> of \<open>src/transports/quic.rs\<close>), the certificates of \<open>src/tls.rs\<close>, the
  download of \<open>src/tranco.rs\<close>, and the ratio of \<open>src/metrics.rs\<close> with the
  page that shows it.

  \<open>server_start\<close> puts the components together in the order of \<open>main\<close>: the geo layer from the
  environment, the answer cache from disk, the root zone into the recursor's delegations, the rate
  limiter; \<open>start_doh\<close> is the last listener to start. The contents of the files, the network and the
  sockets are arguments; spawning is not modelled, and the shutdown is in \<open>Persistence\<close>.

  Lemmas: the state at start-up is an initial state of the engine's transition system, every socket
  is on its port or the fallback, and a generated certificate can be loaded again.
\<close>

section \<open>Sockets\<close>

datatype io_error = PermissionDenied | Other_Io

definition bind_with_fallback :: "(u16 \<Rightarrow> io_error + 'sock) \<Rightarrow> u16 \<Rightarrow> u16 \<Rightarrow> io_error + 'sock \<times> u16" where
  "bind_with_fallback bind preferred fallback =
     (case bind preferred of
        Inr s \<Rightarrow> Inr (s, preferred)
      | Inl PermissionDenied \<Rightarrow> (case bind fallback of Inr s \<Rightarrow> Inr (s, fallback) | Inl e \<Rightarrow> Inl e)
      | Inl e \<Rightarrow> Inl e)"

definition env_port :: "env \<Rightarrow> string \<Rightarrow> u16 \<Rightarrow> u16" where
  "env_port env k def = (case Option.bind (env k) (parse_unsigned (2 ^ 16)) of Some v \<Rightarrow> of_nat v | None \<Rightarrow> def)"

record server_ports =
  sp_dns :: u16
  sp_dot :: u16
  sp_doq :: u16
  sp_doh :: u16
  sp_doh3 :: u16

definition ports_from_env :: "env \<Rightarrow> server_ports" where
  "ports_from_env env =
     \<lparr>sp_dns = env_port env ''DNS_PORT'' 53, sp_dot = env_port env ''DOT_PORT'' 853, sp_doq = env_port env ''DOQ_PORT'' 853,
      sp_doh = env_port env ''DOH_PORT'' 443, sp_doh3 = env_port env ''DOH3_PORT'' 443\<rparr>"

section \<open>Certificates\<close>

text \<open>
  \<open>src/tls.rs\<close>. \<open>rustls_pemfile\<close> (\<open>pem_certs\<close>, \<open>pem_key\<close>, whose inner \<open>None\<close> is a file without a
  key) and \<open>rcgen\<close> (\<open>pem_generate\<close>, the two PEM texts) are parameters. A path is absent (\<open>None\<close>), there but
  unreadable (\<open>Some None\<close>), or has contents. \<open>writable\<close>: where the program may write; failures to write are ignored.
\<close>

record ('c, 'k) pem_lib =
  pem_certs :: "bytes \<Rightarrow> 'c list option"
  pem_key :: "bytes \<Rightarrow> 'k option option"
  pem_generate :: "(bytes \<times> bytes) option"

record ('c, 'k) loaded_cert =
  lc_certs :: "'c list"
  lc_key :: 'k
  lc_cert_file :: string
  lc_key_file :: string

datatype tls_error = Unreadable | Bad_Pem | No_Key | Not_Generated | Bad_Certificate

type_synonym pem_files = "string \<Rightarrow> bytes option option"

definition parse_pair :: "('c, 'k) pem_lib \<Rightarrow> string \<Rightarrow> string \<Rightarrow> bytes \<Rightarrow> bytes \<Rightarrow> tls_error + ('c, 'k) loaded_cert" where
  "parse_pair P cert_path key_path cert_pem key_pem =
     (case pem_certs P cert_pem of
        None \<Rightarrow> Inl Bad_Pem
      | Some certs \<Rightarrow>
          (case pem_key P key_pem of
             None \<Rightarrow> Inl Bad_Pem
           | Some None \<Rightarrow> Inl No_Key
           | Some (Some key) \<Rightarrow> Inr \<lparr>lc_certs = certs, lc_key = key, lc_cert_file = cert_path, lc_key_file = key_path\<rparr>))"

definition write_file :: "(string \<Rightarrow> bool) \<Rightarrow> string \<Rightarrow> bytes \<Rightarrow> pem_files \<Rightarrow> pem_files" where
  "write_file writable path contents fs = (if writable path then fs(path \<mapsto> Some contents) else fs)"

definition load_or_generate ::
  "('c, 'k) pem_lib \<Rightarrow> (string \<Rightarrow> bool) \<Rightarrow> string \<Rightarrow> string \<Rightarrow> pem_files \<Rightarrow> (tls_error + ('c, 'k) loaded_cert) \<times> pem_files" where
  "load_or_generate P writable cert_path key_path fs =
     (case (fs cert_path, fs key_path) of
        (Some cert_bytes, Some key_bytes) \<Rightarrow>
          ((case (cert_bytes, key_bytes) of
              (Some c, Some k) \<Rightarrow> parse_pair P cert_path key_path c k
            | _ \<Rightarrow> Inl Unreadable), fs)
      | _ \<Rightarrow>
          (case pem_generate P of
             None \<Rightarrow> (Inl Not_Generated, fs)
           | Some (cert_pem, key_pem) \<Rightarrow>
               (parse_pair P ''selfsigned_cert.pem'' ''selfsigned_key.pem'' cert_pem key_pem,
                write_file writable ''selfsigned_key.pem'' key_pem (write_file writable ''selfsigned_cert.pem'' cert_pem fs))))"

text \<open>
  A certificate that was loaded can be loaded again from the files it names (as the HTTPS listener
  does), where the program may write the generated pair.
\<close>

lemma load_or_generate_files:
  assumes "load_or_generate P writable cert_path key_path fs = (Inr loaded, fs')"
    and "writable ''selfsigned_cert.pem''" "writable ''selfsigned_key.pem''"
  shows "fst (load_or_generate P writable (lc_cert_file loaded) (lc_key_file loaded) fs') = Inr loaded"
  using assms
  by (auto simp: load_or_generate_def parse_pair_def write_file_def split: option.splits prod.splits)

text \<open>
  The sockets in the order they are bound; TCP takes the port UDP got. The certificate is loaded
  between the plain and the encrypted listeners; \<open>usable\<close> tells whether rustls accepts it
  (\<open>with_single_cert\<close>, the same test for DoT, DoQ and DoH3). The first failure ends the program.
\<close>

datatype start_error = Io io_error | Tls tls_error | Bad_Address

definition bind_port :: "(u16 \<Rightarrow> io_error + 'sock) \<Rightarrow> u16 \<Rightarrow> u16 \<Rightarrow> start_error + 'sock \<times> u16" where
  "bind_port bind preferred fallback = (case bind_with_fallback bind preferred fallback of Inl e \<Rightarrow> Inl (Io e) | Inr r \<Rightarrow> Inr r)"

definition bind_all ::
  "(u16 \<Rightarrow> io_error + 'sock) \<Rightarrow> (u16 \<Rightarrow> io_error + 'sock) \<Rightarrow> (u16 \<Rightarrow> io_error + 'sock) \<Rightarrow> tls_error + 'cert \<Rightarrow> ('cert \<Rightarrow> bool) \<Rightarrow>
   server_ports \<Rightarrow> start_error + ('sock \<times> u16) list" where
  "bind_all udp tcp quic loaded usable p =
     (case bind_port udp (sp_dns p) 5053 of Inl e \<Rightarrow> Inl e | Inr u \<Rightarrow>
      case bind_port tcp (snd u) 5053 of Inl e \<Rightarrow> Inl e | Inr t \<Rightarrow>
      case loaded of Inl e \<Rightarrow> Inl (Tls e) | Inr cert \<Rightarrow>
      if \<not> usable cert then Inl (Tls Bad_Certificate) else
      case bind_port tcp (sp_dot p) 8853 of Inl e \<Rightarrow> Inl e | Inr dot \<Rightarrow>
      case bind_port quic (sp_doq p) 8853 of Inl e \<Rightarrow> Inl e | Inr doq \<Rightarrow>
      case bind_port quic (sp_doh3 p) 8443 of Inl e \<Rightarrow> Inl e | Inr doh3 \<Rightarrow>
      case bind_port tcp (sp_doh p) 8443 of Inl e \<Rightarrow> Inl e | Inr doh \<Rightarrow> Inr [u, t, dot, doq, doh3, doh])"

text \<open>
  The end of the start: the test socket of DoH is dropped; in the plain HTTP mode the port is bound again, else
  the certificate is read again from its files by \<open>axum_server\<close> (\<open>tls_config\<close>). \<open>addr_ok\<close>: the host and the port parse as an
  address.
\<close>

datatype ('sock, 'cfg) doh_server = Doh_Plain 'sock | Doh_Tls u16 'cfg

definition doh_no_tls :: "env \<Rightarrow> bool" where
  "doh_no_tls env = (env ''DOH_NO_TLS'' = Some ''1'')"

definition start_doh ::
  "env \<Rightarrow> bool \<Rightarrow> (u16 \<Rightarrow> io_error + 'sock) \<Rightarrow> (string \<Rightarrow> string \<Rightarrow> tls_error + 'cfg) \<Rightarrow> ('c, 'k) loaded_cert \<Rightarrow> u16 \<Rightarrow>
   start_error + ('sock, 'cfg) doh_server" where
  "start_doh env addr_ok bind tls_config loaded port =
     (if \<not> addr_ok then Inl Bad_Address
      else if doh_no_tls env then (case bind port of Inl e \<Rightarrow> Inl (Io e) | Inr s \<Rightarrow> Inr (Doh_Plain s))
      else (case tls_config (lc_cert_file loaded) (lc_key_file loaded) of
              Inl e \<Rightarrow> Inl (Tls e)
            | Inr cfg \<Rightarrow> Inr (Doh_Tls port cfg)))"

text \<open>HTTPS starts with the certificate that was loaded, where the generated pair could be written.\<close>

lemma start_doh_tls:
  assumes "load_or_generate P writable cert_path key_path fs = (Inr loaded, fs')"
    and "writable ''selfsigned_cert.pem''" "writable ''selfsigned_key.pem''" and "\<not> doh_no_tls env"
  shows "start_doh env True bind (\<lambda>c k. fst (load_or_generate P writable c k fs')) loaded port = Inr (Doh_Tls port loaded)"
  using load_or_generate_files [OF assms(1-3)] assms(4) by (simp add: start_doh_def)

lemma bind_portE:
  assumes "(case bind_port bind preferred fallback of Inl e \<Rightarrow> Inl e | Inr r \<Rightarrow> f r) = Inr socks"
  obtains s port where "bind port = Inr s" "port \<in> {preferred, fallback}" "f (s, port) = Inr socks"
  using assms by (auto simp: bind_port_def bind_with_fallback_def split: sum.splits io_error.splits)

lemma loadedE:
  assumes "(case loaded of Inl e \<Rightarrow> Inl (Tls e) | Inr cert \<Rightarrow> if \<not> usable cert then Inl (Tls e') else f cert) = Inr socks"
  obtains cert where "loaded = Inr cert" "usable cert" "f cert = Inr socks"
  using assms by (auto split: sum.splits if_splits)

text \<open>All six sockets are bound, each on the port that was asked for or its fallback, with an accepted certificate.\<close>

lemma bind_all_ports:
  assumes "bind_all udp tcp quic loaded usable p = Inr socks"
  shows "(\<exists>cert. loaded = Inr cert \<and> usable cert) \<and>
    list_all2 (\<lambda>(s, port) (bind, choices). bind port = Inr s \<and> port \<in> choices) socks
      [(udp, {sp_dns p, 5053}), (tcp, {sp_dns p, 5053}), (tcp, {sp_dot p, 8853}), (quic, {sp_doq p, 8853}),
       (quic, {sp_doh3 p, 8443}), (tcp, {sp_doh p, 8443})]"
  using assms unfolding bind_all_def
  by (elim bind_portE loadedE) (simp only: Inr_inject, auto)

section \<open>Metrics\<close>

definition hit_ratio :: "'f f64 \<Rightarrow> metrics \<Rightarrow> 'f" where
  "hit_ratio F m =
     (let total = mt_cache_hits m + mt_cache_misses m in
      if total = 0 then f_lit F 0 0 else f_div F (f_of_u64 F (mt_cache_hits m)) (f_of_u64 F total))"

text \<open>
  The page of \<open>src/transports/metrics_handler.rs\<close> as a tree; its text is \<open>serde_json\<close>'s. The counts of
  the cache (approximate in \<open>moka\<close>) and of the flights, and the path of the zone file, are arguments.
\<close>

datatype 'f json = J_Null | J_Num nat | J_F64 'f | J_Str string | J_Obj "(string \<times> 'f json) list"

definition j_opt :: "('a \<Rightarrow> 'f json) \<Rightarrow> 'a option \<Rightarrow> 'f json" where
  "j_opt f x = (case x of None \<Rightarrow> J_Null | Some y \<Rightarrow> f y)"

fun state_debug :: "root_zone_state \<Rightarrow> string" where
  "state_debug Valid = ''Valid''"
| "state_debug StaleButUsable = ''StaleButUsable''"
| "state_debug TooOld = ''TooOld''"
| "state_debug Missing = ''Missing''"

definition build_metrics_payload :: "'f f64 \<Rightarrow> nat \<Rightarrow> nat \<Rightarrow> string option \<Rightarrow> metrics \<Rightarrow> root_zone_status \<Rightarrow> 'f json" where
  "build_metrics_payload F entries in_flight source_path snap rz =
     (let num = (\<lambda>w :: u64. J_Num (unat w)) in
      J_Obj
       [(''cache'', J_Obj
          [(''entries'', J_Num entries), (''hits'', num (mt_cache_hits snap)), (''misses'', num (mt_cache_misses snap)),
           (''insertions'', num (mt_cache_insertions snap)), (''evictions'', num (mt_cache_evictions snap)),
           (''hit_ratio'', J_F64 (hit_ratio F snap)), (''stale_served'', num (mt_stale_served snap))]),
        (''negative_cache'', J_Obj [(''hits'', num (mt_negative_hits snap)), (''insertions'', num (mt_negative_insertions snap))]),
        (''singleflight'', J_Obj
          [(''leaders'', num (mt_singleflight_leader snap)), (''coalesced'', num (mt_singleflight_coalesced snap)),
           (''in_flight'', J_Num in_flight)]),
        (''prefetch'', J_Obj
          [(''attempts'', num (mt_prefetch_attempts snap)), (''success'', num (mt_prefetch_success snap)),
           (''failure'', num (mt_prefetch_failure snap))]),
        (''root_zone'', J_Obj
          [(''state'', J_Str (state_debug (zs_state rz))), (''serial'', j_opt (\<lambda>w. J_Num (unat w)) (zs_serial rz)),
           (''loaded_at'', j_opt num (zs_loaded_at rz)), (''tld_count'', J_Num (zs_tld_count rz)),
           (''file_age_days'', j_opt num (zs_file_age_days rz)), (''source_path'', j_opt J_Str source_path),
           (''source_url'', j_opt J_Str (zs_source_url rz)), (''last_refresh_attempt'', j_opt num (zs_last_refresh_attempt rz)),
           (''last_refresh_success'', j_opt num (zs_last_refresh_success rz)),
           (''consecutive_failures'', J_Num (unat (zs_consecutive_failures rz)))])])"

section \<open>The server\<close>

record 'j server_files =
  sf_cache :: "'j cache_file"
  sf_zone_text :: "string option"
  sf_zone_json :: "root_zone_cache_json option"

definition geo_layer ::
  "('n, 's, 'f) app \<Rightarrow> (string \<Rightarrow> (ip_addr \<Rightarrow> 'f city option) option) \<Rightarrow> u64 \<Rightarrow> ('n, 'f) geo_config \<Rightarrow> ('n, 'f) geo_state option" where
  "geo_layer A open_db now cfg = (if gc_enabled cfg then Some (geo_state_new open_db now cfg) else None)"

text \<open>
  The heartbeat loop \<open>main\<close> spawns: who signs, with what secret, how often and to whom; \<open>None\<close> when
  the mesh is off. Its rounds are \<open>heartbeat_posts\<close>.
\<close>

definition peer_mesh :: "('n, 'f) geo_config \<Rightarrow> (string \<times> bytes \<times> u64 \<times> (string \<times> string) list) option" where
  "peer_mesh cfg =
     (case gc_self_node cfg of
        None \<Rightarrow> None
      | Some self_name \<Rightarrow>
          if \<not> gc_enabled cfg \<or> gc_peer_secret cfg = [] then None
          else let targets = peer_targets cfg in
               if targets = [] then None else Some (self_name, gc_peer_secret cfg, gc_peer_heartbeat_interval_secs cfg, targets))"

text \<open>
  \<open>download_and_extract\<close> of \<open>src/tranco.rs\<close> up to the lines of the archive: \<open>None\<close> is a request that fails.
  \<open>dl_unpack\<close> (the zip library) gives the lines of the first member, none for an empty archive.
\<close>

record download =
  dl_success :: bool
  dl_content_length :: "u64 option"
  dl_body :: "bytes option"

definition MAX_DOWNLOAD_SIZE_BYTES :: u64 where "MAX_DOWNLOAD_SIZE_BYTES = 25 * 1024 * 1024"

definition download_and_extract :: "(bytes \<Rightarrow> string list option) \<Rightarrow> download option \<Rightarrow> string list option" where
  "download_and_extract unpack resp =
     (case resp of
        None \<Rightarrow> None
      | Some r \<Rightarrow>
          if \<not> dl_success r then None
          else if (case dl_content_length r of Some n \<Rightarrow> n > MAX_DOWNLOAD_SIZE_BYTES | None \<Rightarrow> False) then None
          else Option.bind (dl_body r) unpack)"

definition env_usize :: "env \<Rightarrow> string \<Rightarrow> nat \<Rightarrow> nat" where
  "env_usize env k def = (case Option.bind (env k) (parse_unsigned (2 ^ 64)) of Some v \<Rightarrow> v | None \<Rightarrow> def)"

text \<open>The warm-up task of \<open>main\<close>: nothing unless \<open>WARM_LIMIT\<close> is positive.\<close>

definition prewarm ::
  "('n, 's, 'f) app \<Rightarrow> (bytes \<Rightarrow> string list option) \<Rightarrow> download option \<Rightarrow> string list option \<Rightarrow> bool \<Rightarrow>
   ('n, 's, 'f) engine \<Rightarrow> ('n, 's, 'f) engine \<times> string list option" where
  "prewarm A unpack resp tranco_file created st =
     (let limit = env_usize (ap_env A) ''WARM_LIMIT'' 0 in
      if limit > 0 then
        (case get_or_download_tranco limit tranco_file (download_and_extract unpack resp) created of
           (domains, file') \<Rightarrow> (preload_domains A domains st, file'))
      else (st, tranco_file))"

definition start_manager :: "'j server_files \<Rightarrow> delegation_cache \<Rightarrow> root_zone_manager" where
  "start_manager files cache =
     \<lparr>rm_status = root_zone_status_default, rm_delegations = cache, rm_text_file = sf_zone_text files, rm_json_file = sf_zone_json files\<rparr>"

text \<open>The result: whether the root zone is being downloaded, its manager, and the engine.\<close>

definition server_start ::
  "('n, 's, 'f) app \<Rightarrow> (string \<Rightarrow> 'f option) \<Rightarrow> (string \<Rightarrow> (ip_addr \<Rightarrow> 'f city option) option) \<Rightarrow> ('j \<Rightarrow> cache_entry option) \<Rightarrow>
   'j server_files \<Rightarrow> 's rstate vstate \<Rightarrow> (bool \<times> root_zone_manager \<times> ('n, 's, 'f) engine) option" where
  "server_start A parse_f64 open_db from_value files dns =
     Option.bind (geo_config_from_env (ap_lib A) parse_f64 (ap_env A)) (\<lambda>cfg.
       let now = net_now (ap_net A) (rs_net (vs_net dns));
           (downloading, m) = manager_start (ap_lib A) (root_zone_config_from_env (ap_env A)) now (start_manager files (rs_cache (vs_net dns)))
       in Some (downloading, m,
            engine_start A from_value (sf_cache files) (geo_layer A open_db now cfg)
              (dns\<lparr>vs_net := (vs_net dns)\<lparr>rs_cache := rm_delegations m\<rparr>\<rparr>)))"

lemma server_start_init:
  assumes "server_start A parse_f64 open_db Some files dns = Some (downloading, m, st)"
    and "0 \<le> env_i64 (ap_env A) ''RATE_LIMIT_BURST'' 300" and "env_i64 (ap_env A) ''RATE_LIMIT_BURST'' 300 < 2 ^ 62"
    and "file_ok (ap_lib A) Some (sf_cache files)" and "vinv (ap_lib A) dns"
  shows "engine_init A st" and "rs_cache (vs_net (en_dns st)) = rm_delegations m"
  using assms by (auto simp: server_start_def engine_init_def engine_start_def Let_def split: bind_splits prod.splits)

lemma manager_start_zone:
  assumes "initial_zone L cfg now m = Some data"
  shows "rm_delegations (snd (manager_start L cfg now m)) = install_to_cache L now data (rm_delegations m)"
    and "fst (manager_start L cfg now m) = False"
  using assms by (simp_all add: manager_start_def Let_def)

lemma server_start_zone:
  assumes "server_start A parse_f64 open_db from_value files dns = Some (downloading, m, st)"
    and "initial_zone (ap_lib A) (root_zone_config_from_env (ap_env A)) (net_now (ap_net A) (rs_net (vs_net dns)))
      (start_manager files (rs_cache (vs_net dns))) = Some data"
  shows "\<not> downloading" and "rs_net (vs_net (en_dns st)) = rs_net (vs_net dns)"
    and "rs_cache (vs_net (en_dns st)) = install_to_cache (ap_lib A) (net_now (ap_net A) (rs_net (vs_net dns))) data (rs_cache (vs_net dns))"
  using assms(1) manager_start_zone [OF assms(2)]
  by (auto simp: server_start_def engine_start_def start_manager_def Let_def split: bind_splits prod.splits)

text \<open>What an installation leaves for a name of the zone, and for the names that are not in it.\<close>

lemma install_to_cache_live:
  assumes "distinct (map (\<lambda>(tld, _). name_key L tld) (rz_delegations data))"
    and "(tld, del) \<in> set (rz_delegations data)" and "zd_servers del \<noteq> []"
  shows "dm_get (install_to_cache L now data []) (name_key L tld) = Some \<lparr>de_servers = zd_servers del,
    de_expires_at = saturating_add now (min (ucast (zd_ttl del)) ROOT_ZONE_TTL_CAP_SECS), de_source = RootZone\<rparr>"
proof -
  let ?P = "\<lambda>(t, d). name_key L t = name_key L tld \<and> zd_servers d \<noteq> []"
  obtain t d where f: "List.find ?P (rz_delegations data) = Some (t, d)"
    using assms(2,3) by (cases "List.find ?P (rz_delegations data)") (auto simp: find_None_iff)
  then have "(t, d) \<in> set (rz_delegations data)" "name_key L t = name_key L tld" by (auto simp: find_Some_iff in_set_conv_nth)
  with assms(1,2) have "(t, d) = (tld, del)" unfolding distinct_map inj_on_def by fastforce
  with f show ?thesis unfolding install_to_cache_def install_fold_get [OF assms(1)] by simp
qed

lemma install_to_cache_absent:
  assumes "distinct (map (\<lambda>(tld, _). name_key L tld) (rz_delegations data))"
    and "\<forall>(tld, _) \<in> set (rz_delegations data). name_key L tld \<noteq> k"
  shows "dm_get (install_to_cache L now data []) k = None"
proof -
  have "List.find (\<lambda>(t, d). name_key L t = k \<and> zd_servers d \<noteq> []) (rz_delegations data) = None"
    using assms(2) by (auto simp: find_None_iff)
  then show ?thesis unfolding install_to_cache_def install_fold_get [OF assms(1)] by (simp add: dm_retain_def dm_get_def)
qed

end
