(* ===== verification/Persistence.thy ===== *)
theory Persistence
  imports Startup
begin

text \<open>
  The answer cache across restarts: how \<open>src/cache.rs\<close> lays an entry out in the JSON file
  (\<open>base64_bytes\<close> and the \<open>serde\<close> attributes of \<open>CacheEntry\<close>), and when \<open>src/main.rs\<close> writes the
  file (every two minutes, and at shutdown) and reads it (at the next start).

  \<open>server_step\<close> is the life of the server over any number of runs: steps of the engine, saves whose
  file operations may fail, orderly shutdowns and crashes, each followed by a new start from the file
  left behind.

  Lemmas: an entry reads back as it was written, an entry without a status is discarded, and
  the file the program leaves behind is one its next run can trust.
\<close>

section \<open>The layout of an entry\<close>

text \<open>
  \<open>serde\<close> and \<open>serde_json\<close>: how a value holds the fields of a struct, unsigned numbers, strings and
  the names of enum variants. \<open>base64\<close>'s standard engine is a pair of functions.
\<close>

record 'j serde =
  sd_struct :: "(string \<times> 'j) list \<Rightarrow> 'j"
  sd_field :: "'j \<Rightarrow> string \<Rightarrow> 'j option"
  sd_of_uint :: "nat \<Rightarrow> 'j"
  sd_uint :: "'j \<Rightarrow> nat option"
  sd_of_str :: "string \<Rightarrow> 'j"
  sd_str :: "'j \<Rightarrow> string option"
  sd_of_variant :: "string \<Rightarrow> 'j"
  sd_variant :: "'j \<Rightarrow> string option"

record base64_engine =
  b64_encode :: "bytes \<Rightarrow> string"
  b64_decode :: "string \<Rightarrow> bytes option"

definition serialize :: "base64_engine \<Rightarrow> 'j serde \<Rightarrow> bytes \<Rightarrow> 'j" where
  "serialize B S bytes = sd_of_str S (b64_encode B bytes)"

definition deserialize :: "base64_engine \<Rightarrow> 'j serde \<Rightarrow> 'j \<Rightarrow> bytes option" where
  "deserialize B S j = Option.bind (sd_str S j) (\<lambda>s. b64_decode B (trim s))"

fun status_name :: "dnssec_status \<Rightarrow> string" where
  "status_name Secure = ''Secure''"
| "status_name InsecureUnsigned = ''InsecureUnsigned''"
| "status_name InsecureUnknown = ''InsecureUnknown''"
| "status_name Bogus = ''Bogus''"

definition status_of_name :: "string \<Rightarrow> dnssec_status option" where
  "status_of_name s = List.find (\<lambda>v. status_name v = s) [Secure, InsecureUnsigned, InsecureUnknown, Bogus]"

fun kind_name :: "entry_kind \<Rightarrow> string" where
  "kind_name Positive = ''Positive''"
| "kind_name Negative = ''Negative''"

definition kind_of_name :: "string \<Rightarrow> entry_kind option" where
  "kind_of_name s = List.find (\<lambda>v. kind_name v = s) [Positive, Negative]"

definition entry_to_value :: "base64_engine \<Rightarrow> 'j serde \<Rightarrow> cache_entry \<Rightarrow> 'j" where
  "entry_to_value B S e = sd_struct S
     [(''raw_wire'', serialize B S (ce_raw_wire e)),
      (''min_ttl'', sd_of_uint S (unat (ce_min_ttl e))),
      (''cached_at'', sd_of_uint S (unat (ce_cached_at e))),
      (''last_revalidated_at'', sd_of_uint S (unat (ce_last_revalidated_at e))),
      (''dnssec_status'', sd_of_variant S (status_name (ce_dnssec_status e))),
      (''kind'', sd_of_variant S (kind_name (ce_kind e)))]"

text \<open>A number out of the range of its field is an error.\<close>

definition uint_field :: "'j serde \<Rightarrow> 'j \<Rightarrow> string \<Rightarrow> ('w :: len) word option" where
  "uint_field S j f = Option.bind (Option.bind (sd_field S j f) (sd_uint S))
     (\<lambda>n. if n < 2 ^ LENGTH('w) then Some (of_nat n) else None)"

definition status_field :: "'j serde \<Rightarrow> 'j \<Rightarrow> dnssec_status option" where
  "status_field S j = Option.bind (Option.bind (sd_field S j ''dnssec_status'') (sd_variant S)) status_of_name"

text \<open>\<open>kind\<close> is the one field that may be missing.\<close>

definition kind_field :: "'j serde \<Rightarrow> 'j \<Rightarrow> entry_kind option" where
  "kind_field S j = (case sd_field S j ''kind'' of None \<Rightarrow> Some Positive | Some v \<Rightarrow> Option.bind (sd_variant S v) kind_of_name)"

definition entry_from_value :: "base64_engine \<Rightarrow> 'j serde \<Rightarrow> 'j \<Rightarrow> cache_entry option" where
  "entry_from_value B S j =
     (case (Option.bind (sd_field S j ''raw_wire'') (deserialize B S), uint_field S j ''min_ttl'', uint_field S j ''cached_at'',
            uint_field S j ''last_revalidated_at'', status_field S j, kind_field S j) of
        (Some wire, Some ttl, Some cached_at, Some revalidated, Some status, Some kind) \<Rightarrow>
          Some \<lparr>ce_raw_wire = wire, ce_min_ttl = ttl, ce_cached_at = cached_at, ce_last_revalidated_at = revalidated,
                ce_dnssec_status = status, ce_kind = kind\<rparr>
      | _ \<Rightarrow> None)"

text \<open>What is relied on of the two libraries: each reads what it wrote, and base64 has its alphabet.\<close>

definition serde_laws :: "'j serde \<Rightarrow> bool" where
  "serde_laws S \<longleftrightarrow> (\<forall>fs k. distinct (map fst fs) \<longrightarrow> sd_field S (sd_struct S fs) k = map_of fs k) \<and>
     (\<forall>n < 2 ^ 64. sd_uint S (sd_of_uint S n) = Some n) \<and> (\<forall>s. sd_str S (sd_of_str S s) = Some s) \<and>
     (\<forall>v. sd_variant S (sd_of_variant S v) = Some v)"

definition base64_laws :: "base64_engine \<Rightarrow> bool" where
  "base64_laws B \<longleftrightarrow> (\<forall>w. b64_decode B (b64_encode B w) = Some w \<and> set (b64_encode B w) \<subseteq> set (CHR ''='' # b64_chars))"

section \<open>Round trip\<close>

lemma trim_all_plain:
  assumes "list_all plain s"
  shows "trim s = s"
proof (cases "length s \<ge> 2")
  case True
  then show ?thesis using assms by (rule trim_id)
next
  case False
  then consider "s = []" | a where "s = [a]" by (cases s; cases "tl s") auto
  then show ?thesis
  proof cases
    case 1
    have "trim_start [] = []" "trim_rev [] = []" by (subst trim_start.simps, simp) (subst trim_rev.simps, simp)
    then show ?thesis by (simp add: 1 trim_def)
  next
    case 2
    with assms have "ws_len [a] = 0" "ws_len_end [a] = 0" by (simp_all add: ws_len_plain ws_len_end_plain)
    then have "trim_start [a] = [a]" "trim_rev [a] = [a]"
      unfolding trim_start.simps [of "[a]"] trim_rev.simps [of "[a]"] by simp_all
    then show ?thesis by (simp add: 2 trim_def)
  qed
qed

lemma b64_plain: "set s \<subseteq> set (CHR ''='' # b64_chars) \<Longrightarrow> list_all plain s"
proof -
  assume s: "set s \<subseteq> set (CHR ''='' # b64_chars)"
  have "plain (CHR ''='')" by (simp add: plain_def)
  then have "\<forall>c \<in> set (CHR ''='' # b64_chars). plain c" using b64_chars_plain unfolding list_all_iff by simp
  with s show ?thesis unfolding list_all_iff by blast
qed

lemma deserialize_serialize: "base64_laws B \<Longrightarrow> serde_laws S \<Longrightarrow> deserialize B S (serialize B S w) = Some w"
  unfolding deserialize_def serialize_def by (simp add: base64_laws_def serde_laws_def trim_all_plain b64_plain)

lemma status_names: "status_of_name (status_name v) = Some v"
  by (cases v) (simp_all add: status_of_name_def)

lemma kind_names: "kind_of_name (kind_name v) = Some v"
  by (cases v) (simp_all add: kind_of_name_def)

lemma uint_field_written:
  fixes w :: "('w :: len) word"
  assumes "serde_laws S" and "LENGTH('w) \<le> 64" and "sd_field S j f = Some (sd_of_uint S (unat w))"
  shows "uint_field S j f = Some w"
proof -
  have "unat w < 2 ^ LENGTH('w)" by (rule unsigned_less)
  moreover from this have "unat w < 2 ^ 64" using assms(2) by (meson less_le_trans one_le_numeral power_increasing)
  ultimately show ?thesis using assms(1,3) by (simp add: uint_field_def serde_laws_def)
qed

lemma entry_roundtrip:
  assumes "base64_laws B" and "serde_laws S"
  shows "entry_from_value B S (entry_to_value B S e) = Some e"
proof -
  let ?j = "entry_to_value B S e"
  have f: "sd_field S ?j k = map_of [(''raw_wire'', serialize B S (ce_raw_wire e)), (''min_ttl'', sd_of_uint S (unat (ce_min_ttl e))),
      (''cached_at'', sd_of_uint S (unat (ce_cached_at e))), (''last_revalidated_at'', sd_of_uint S (unat (ce_last_revalidated_at e))),
      (''dnssec_status'', sd_of_variant S (status_name (ce_dnssec_status e))), (''kind'', sd_of_variant S (kind_name (ce_kind e)))] k" for k
    using assms(2) unfolding serde_laws_def entry_to_value_def by simp
  have u: "uint_field S ?j ''min_ttl'' = Some (ce_min_ttl e)" "uint_field S ?j ''cached_at'' = Some (ce_cached_at e)"
    "uint_field S ?j ''last_revalidated_at'' = Some (ce_last_revalidated_at e)"
    by (rule uint_field_written [OF assms(2)]; simp add: f)+
  have v: "status_field S ?j = Some (ce_dnssec_status e)" "kind_field S ?j = Some (ce_kind e)"
    using assms(2) by (simp_all add: status_field_def kind_field_def f serde_laws_def status_names kind_names)
  show ?thesis unfolding entry_from_value_def u v by (simp add: f deserialize_serialize [OF assms])
qed

text \<open>Entries of older versions, which had no status, are discarded.\<close>

lemma entry_from_value_status:
  assumes "entry_from_value B S j = Some e"
  shows "\<exists>v. sd_field S j ''dnssec_status'' = Some v \<and> sd_variant S v = Some (status_name (ce_dnssec_status e))"
proof -
  have "status_field S j = Some (ce_dnssec_status e)" using assms by (auto simp: entry_from_value_def split: option.splits)
  moreover have "status_of_name n = Some s \<Longrightarrow> status_name s = n" for n s unfolding status_of_name_def by (auto simp only: find_Some_iff)
  ultimately show ?thesis by (auto simp: status_field_def bind_eq_Some_conv)
qed

section \<open>Saving and starting again\<close>

text \<open>Whether the temporary file can be created, written and renamed. A blocking task that fails leaves what it did.\<close>

record save_io =
  io_created :: bool
  io_written :: bool
  io_renamed :: bool

definition save_cache_to_disk_async ::
  "(cache_entry \<Rightarrow> 'j) \<Rightarrow> env \<Rightarrow> u64 \<Rightarrow> save_io \<Rightarrow> dns_cache \<Rightarrow> 'j cache_file \<Rightarrow> 'j cache_file" where
  "save_cache_to_disk_async to_value env now io cache old =
     save_cache_to_disk_sync to_value env now (io_created io) (io_written io) (io_renamed io) cache old"

text \<open>One tick of the task that saves the cache every 120 seconds, and the end of \<open>main\<close>.\<close>

definition persist_tick ::
  "('n, 's, 'f) app \<Rightarrow> base64_engine \<Rightarrow> 'j serde \<Rightarrow> save_io \<Rightarrow> ('n, 's, 'f) engine \<Rightarrow> 'j cache_file \<Rightarrow> 'j cache_file" where
  "persist_tick A B S io st old = save_cache_to_disk_async (entry_to_value B S) (ap_env A) (now_of A st) io (en_cache st) old"

definition shutdown ::
  "('n, 's, 'f) app \<Rightarrow> base64_engine \<Rightarrow> 'j serde \<Rightarrow> save_io \<Rightarrow> ('n, 's, 'f) engine \<Rightarrow> 'j cache_file \<Rightarrow> 'j cache_file" where
  "shutdown A B S io st old = save_cache_to_disk_async (entry_to_value B S) (ap_env A) (now_of A st) io (en_cache st) old"

text \<open>A start: the validator's caches are empty, the other files are whatever is there.\<close>

definition starts ::
  "('n, 's, 'f) app \<Rightarrow> (string \<Rightarrow> 'f option) \<Rightarrow> (string \<Rightarrow> (ip_addr \<Rightarrow> 'f city option) option) \<Rightarrow> ('j \<Rightarrow> cache_entry option) \<Rightarrow>
   'j cache_file \<Rightarrow> ('n, 's, 'f) engine \<Rightarrow> bool" where
  "starts A parse_f64 open_db from_value file st \<longleftrightarrow>
     (\<exists>files dns downloading m. sf_cache files = file \<and> vs_keys dns = [] \<and> vs_signed dns = [] \<and>
        server_start A parse_f64 open_db from_value files dns = Some (downloading, m, st))"

inductive server_step ::
  "('n, 's, 'f) app \<Rightarrow> base64_engine \<Rightarrow> 'j serde \<Rightarrow> (string \<Rightarrow> 'f option) \<Rightarrow> (string \<Rightarrow> (ip_addr \<Rightarrow> 'f city option) option) \<Rightarrow>
   ('n, 's, 'f) engine \<times> 'j cache_file \<Rightarrow> ('n, 's, 'f) engine \<times> 'j cache_file \<Rightarrow> bool"
  for A :: "('n, 's, 'f) app" and B :: base64_engine and S :: "'j serde" and parse_f64 open_db where
  srv_run: "engine_step A st st' \<Longrightarrow> server_step A B S parse_f64 open_db (st, file) (st', file)"
| srv_persist: "server_step A B S parse_f64 open_db (st, file) (st, persist_tick A B S io st file)"
| srv_shutdown: "starts A parse_f64 open_db (entry_from_value B S) (shutdown A B S io st file) st' \<Longrightarrow>
    server_step A B S parse_f64 open_db (st, file) (st', shutdown A B S io st file)"
| srv_crash: "starts A parse_f64 open_db (entry_from_value B S) file st' \<Longrightarrow>
    server_step A B S parse_f64 open_db (st, file) (st', file)"

section \<open>The file can be trusted\<close>

text \<open>Loading through a decoder is loading what it decodes.\<close>

definition decode_file :: "('j \<Rightarrow> cache_entry option) \<Rightarrow> 'j cache_file \<Rightarrow> cache_entry cache_file" where
  "decode_file from_value file =
     (case file of
        Json_Object raw \<Rightarrow> Json_Object (filter_map (\<lambda>(k, v). map_option (Pair k) (from_value v)) raw)
      | No_File \<Rightarrow> No_File | Open_Failed \<Rightarrow> Open_Failed | Bad_Json \<Rightarrow> Bad_Json)"

lemma load_entries_decoded:
  "load_entries evict from_value now ms raw c =
   load_entries evict Some now ms (filter_map (\<lambda>(k, v). map_option (Pair k) (from_value v)) raw) c"
proof (induction raw arbitrary: c)
  case (Cons kv raw)
  obtain k v where "kv = (k, v)" by (cases kv)
  then show ?case using Cons by (cases "from_value v") (simp_all add: load_entries_Cons)
qed (simp add: load_entries_def)

lemma load_decoded: "load_cache_from_disk evict from_value env now cfile c = load_cache_from_disk evict Some env now (decode_file from_value cfile) c"
  by (cases cfile) (simp_all add: load_cache_from_disk_def decode_file_def load_entries_decoded [of evict from_value])

lemma server_start_decoded:
  "server_start A parse_f64 open_db from_value files dns = Some (downloading, m, st) \<longleftrightarrow>
   server_start A parse_f64 open_db Some \<lparr>sf_cache = decode_file from_value (sf_cache files), sf_zone_text = sf_zone_text files,
     sf_zone_json = sf_zone_json files\<rparr> dns = Some (downloading, m, st)"
  by (simp add: server_start_def engine_start_def start_manager_def load_decoded [of _ from_value])

lemma file_ok_decoded: "file_ok L from_value cfile \<Longrightarrow> file_ok L Some (decode_file from_value cfile)"
  by (cases cfile) (auto simp: file_ok_def decode_file_def dest!: filter_map_memD split: option.splits)

lemma starts_init:
  assumes "starts A parse_f64 open_db from_value file st" and "file_ok (ap_lib A) from_value file"
    and "0 \<le> env_i64 (ap_env A) ''RATE_LIMIT_BURST'' 300" and "env_i64 (ap_env A) ''RATE_LIMIT_BURST'' 300 < 2 ^ 62"
  shows "engine_init A st"
proof -
  obtain files dns d m where f: "sf_cache files = file" and v: "vs_keys dns = []" "vs_signed dns = []"
    and s: "server_start A parse_f64 open_db from_value files dns = Some (d, m, st)"
    using assms(1) unfolding starts_def by blast
  have "vinv (ap_lib A) dns" using v by (simp add: vinv_def keys_inv_def signed_inv_def)
  then show ?thesis
    using server_start_init(1) [OF s [unfolded server_start_decoded [of A parse_f64 open_db from_value]]] assms(3,4) f file_ok_decoded [OF assms(2)] by simp
qed

text \<open>What the program writes, its next run may read: the kept entries are entries of the cache.\<close>

lemma save_file_ok:
  assumes "base64_laws B" and "serde_laws S" and "dm_ok cache" and "\<And>k e. dm_get cache k = Some e \<Longrightarrow> entry_ok L k e"
    and "file_ok L (entry_from_value B S) old"
  shows "file_ok L (entry_from_value B S) (save_cache_to_disk_async (entry_to_value B S) env now io cache old)"
proof -
  have "entry_ok L k e" if "(k, e) \<in> set cache" for k e
    using that assms(3,4) by (simp add: dm_ok_def dm_get_def)
  then show ?thesis using assms(5)
    by (auto simp: save_cache_to_disk_async_def save_cache_to_disk_sync_def file_ok_def Let_def entry_roundtrip [OF assms(1,2)])
qed

text \<open>An entry that is loaded into an empty cache stands in the file.\<close>

lemma load_origin:
  assumes "evict_ok evict" and "dm_get (load_cache_from_disk evict from_value env now cfile create_cache) k = Some e"
  shows "\<exists>raw j. cfile = Json_Object raw \<and> (k, j) \<in> set raw \<and> from_value j = Some e"
proof (cases cfile)
  case (Json_Object raw)
  have "moka.every evict (\<lambda>k e. \<exists>j. (k, j) \<in> set raw \<and> from_value j = Some e) create_cache"
    unfolding moka.every_def using assms(1) by (simp add: create_cache_def)
  then have "moka.every evict (\<lambda>k e. \<exists>j. (k, j) \<in> set raw \<and> from_value j = Some e) (load_entries evict from_value now (max_stale_secs env) raw create_cache)"
    by (rule load_entries_every) blast
  with assms(2) show ?thesis by (auto simp: Json_Object load_cache_from_disk_def dest: moka.everyD)
qed (use assms(2) in \<open>simp_all add: load_cache_from_disk_def create_cache_def\<close>)

definition setup_ok :: "('n, 's, 'f) app \<Rightarrow> base64_engine \<Rightarrow> 'j serde \<Rightarrow> bool" where
  "setup_ok A B S \<longleftrightarrow> app_ok A \<and> base64_laws B \<and> serde_laws S \<and>
     0 \<le> env_i64 (ap_env A) ''RATE_LIMIT_BURST'' 300 \<and> env_i64 (ap_env A) ''RATE_LIMIT_BURST'' 300 < 2 ^ 62"

definition server_inv :: "('n, 's, 'f) app \<Rightarrow> base64_engine \<Rightarrow> 'j serde \<Rightarrow> ('n, 's, 'f) engine \<times> 'j cache_file \<Rightarrow> bool" where
  "server_inv A B S = (\<lambda>(st, cfile). engine_inv A st \<and> file_ok (ap_lib A) (entry_from_value B S) cfile)"

lemma save_inv:
  assumes "setup_ok A B S" and "server_inv A B S (st, cfile)"
  shows "file_ok (ap_lib A) (entry_from_value B S) (save_cache_to_disk_async (entry_to_value B S) env now io (en_cache st) cfile)"
proof (rule save_file_ok)
  have every: "moka.every (ap_evict A) (entry_ok (ap_lib A)) (en_cache st)"
    using assms(2) by (simp add: server_inv_def engine_inv_def core_inv_def)
  then show "dm_ok (en_cache st)" by (simp add: moka.every_def)
  show "entry_ok (ap_lib A) k e" if "dm_get (en_cache st) k = Some e" for k e using every that by (rule moka.everyD)
qed (use assms in \<open>simp_all add: setup_ok_def server_inv_def\<close>)

lemma starts_inv:
  assumes "setup_ok A B S" and "starts A parse_f64 open_db (entry_from_value B S) cfile st"
    and "file_ok (ap_lib A) (entry_from_value B S) cfile"
  shows "server_inv A B S (st, cfile)"
proof -
  have "engine_init A st" by (rule starts_init [OF assms(2,3)]) (use assms(1) in \<open>simp_all add: setup_ok_def\<close>)
  then have "engine_inv A st" using engine_init_inv assms(1) unfolding setup_ok_def by blast
  with assms(3) show ?thesis by (simp add: server_inv_def)
qed

interpretation srv: transition_system
  "\<lambda>(st, cfile). starts A parse_f64 open_db (entry_from_value B S) cfile st \<and> file_ok (ap_lib A) (entry_from_value B S) cfile"
  "server_step A B S parse_f64 open_db" "\<lambda>s. setup_ok A B S \<longrightarrow> server_inv A B S s" for A B S parse_f64 open_db
proof unfold_locales
  fix s s' assume inv: "setup_ok A B S \<longrightarrow> server_inv A B S s" and step: "server_step A B S parse_f64 open_db s s'"
  show "setup_ok A B S \<longrightarrow> server_inv A B S s'"
  proof
    assume ok: "setup_ok A B S"
    then have i: "server_inv A B S s" using inv by blast
    from step show "server_inv A B S s'"
    proof cases
      case (srv_run st st' cfile)
      then show ?thesis using i ok eng.step_inv [of A st st'] by (simp add: setup_ok_def server_inv_def)
    next
      case (srv_persist st cfile io)
      then show ?thesis using i save_inv [OF ok, of st cfile] by (simp add: server_inv_def persist_tick_def)
    next
      case (srv_shutdown cfile io st st')
      then show ?thesis using i save_inv [OF ok] starts_inv [OF ok] by (simp add: shutdown_def)
    next
      case (srv_crash cfile st' st)
      then show ?thesis using i starts_inv [OF ok] by (simp add: server_inv_def)
    qed
  qed
qed (use starts_inv in auto)

section \<open>Properties\<close>

text \<open>
  C28. The cache survives a restart: what is saved in the program's own layout and loaded later, into a
  cache that evicts nothing, is exactly the entries that are still fresh or stale by then. Whatever
  file is found, and with any eviction, an entry that is loaded stands in the file with its
  status and is not expired: entries without a status are discarded.
\<close>

theorem cache_survives_restart:
  assumes "base64_laws B" and "serde_laws S" and "dm_ok cache" and "now \<le> now'"
  shows "(dm_get (load_cache_from_disk id (entry_from_value B S) env now'
        (save_cache_to_disk_async (entry_to_value B S) env now \<lparr>io_created = True, io_written = True, io_renamed = True\<rparr> cache old) create_cache) k =
      (case dm_get cache k of
         Some e \<Rightarrow> if freshness env e now' = Expired then None else Some e
       | None \<Rightarrow> None)) \<and>
    (\<forall>evict cfile e. evict_ok evict \<longrightarrow> dm_get (load_cache_from_disk evict (entry_from_value B S) env now' cfile create_cache) k = Some e \<longrightarrow>
       freshness env e now' \<noteq> Expired \<and>
       (\<exists>raw j. cfile = Json_Object raw \<and> (k, j) \<in> set raw \<and> entry_from_value B S j = Some e \<and>
          (\<exists>v. sd_field S j ''dnssec_status'' = Some v \<and> sd_variant S v = Some (status_name (ce_dnssec_status e)))))"
proof (intro conjI allI impI)
  show "dm_get (load_cache_from_disk id (entry_from_value B S) env now'
        (save_cache_to_disk_async (entry_to_value B S) env now \<lparr>io_created = True, io_written = True, io_renamed = True\<rparr> cache old) create_cache) k =
      (case dm_get cache k of Some e \<Rightarrow> if freshness env e now' = Expired then None else Some e | None \<Rightarrow> None)"
    using save_load_roundtrip [OF assms(3) _ assms(4), of "entry_from_value B S" "entry_to_value B S"] entry_roundtrip [OF assms(1,2)] by (simp add: save_cache_to_disk_async_def)
  fix evict and cfile :: "'a cache_file" and e
  assume ev: "evict_ok evict" and l: "dm_get (load_cache_from_disk evict (entry_from_value B S) env now' cfile create_cache) k = Some e"
  show "freshness env e now' \<noteq> Expired" by (rule load_discards_expired [OF ev l])
  obtain raw j where "cfile = Json_Object raw" "(k, j) \<in> set raw" "entry_from_value B S j = Some e"
    using load_origin [OF ev l] by blast
  then show "\<exists>raw j. cfile = Json_Object raw \<and> (k, j) \<in> set raw \<and> entry_from_value B S j = Some e \<and>
          (\<exists>v. sd_field S j ''dnssec_status'' = Some v \<and> sd_variant S v = Some (status_name (ce_dnssec_status e)))"
    by (intro exI [of _ raw] exI [of _ j]) (simp add: entry_from_value_status [of B S j e])
qed

text \<open>
  C6. The trust in the cache file is earned: in any life of the server, over any number of saves (their file
  operations may fail), shutdowns, crashes and restarts, that begins with no cache file or one of validated answers,
  every answer in the cache was validated as Secure or as unsigned, with the evidence for it, has a positive lifetime,
  and belongs to the question of its key; and so does every entry of the file that can be read.
\<close>

theorem cache_validated_across_restarts:
  assumes "app_ok A" and "base64_laws B" and "serde_laws S"
    and "0 \<le> env_i64 (ap_env A) ''RATE_LIMIT_BURST'' 300" and "env_i64 (ap_env A) ''RATE_LIMIT_BURST'' 300 < 2 ^ 62"
    and "starts A parse_f64 open_db (entry_from_value B S) file0 st0" and "file_ok (ap_lib A) (entry_from_value B S) file0"
    and "(server_step A B S parse_f64 open_db)\<^sup>*\<^sup>* (st0, file0) (st, cfile)"
    and "dm_get (en_cache st) key = Some e"
  shows "(ce_dnssec_status e = Secure \<or> ce_dnssec_status e = InsecureUnsigned) \<and> ce_min_ttl e > 0 \<and>
    (\<exists>m n t. key = canonical_cache_key (ap_lib A) n t \<and> msg_to_bytes (ap_lib A) m = Some (ce_raw_wire e) \<and>
       is_cacheable m \<and> justified (ap_lib A) m n t (ce_dnssec_status e)) \<and>
    file_ok (ap_lib A) (entry_from_value B S) cfile"
proof -
  have "setup_ok A B S" using assms(1-5) by (simp add: setup_ok_def)
  then have inv: "server_inv A B S (st, cfile)" using srv.reachable_inv [OF _ assms(8)] assms(6,7) by auto
  then have "entry_ok (ap_lib A) key e" and f: "file_ok (ap_lib A) (entry_from_value B S) cfile"
    using assms(9) by (auto simp: server_inv_def engine_inv_def core_inv_def intro: moka.everyD)
  then show ?thesis unfolding entry_ok_def is_cacheable_dnssec_def by blast
qed

section \<open>Witnesses\<close>

text \<open>The two libraries in small: base64 with its padding, and JSON trees.\<close>

definition b64_digit :: "char \<Rightarrow> nat" where
  "b64_digit c = length (takeWhile (\<lambda>d. d \<noteq> c) b64_chars)"

fun b64_read :: "string \<Rightarrow> bytes option" where
  "b64_read [] = Some []"
| "b64_read (p # q # r # s # rest) =
     (let a = of_nat (b64_digit p * 4 + b64_digit q div 16); b = of_nat (b64_digit q mod 16 * 16 + b64_digit r div 4);
          c = of_nat (b64_digit r mod 4 * 64 + b64_digit s) in
      if r = CHR ''='' then Some [a]
      else if s = CHR ''='' then Some [a, b]
      else map_option (\<lambda>bs. a # b # c # bs) (b64_read rest))"
| "b64_read _ = None"

lemma b64_digit_char: "b64_digit (b64_char n) = n mod 64"
proof -
  have "\<forall>i \<in> set [0..<64]. b64_digit (b64_chars ! i) = i" by code_simp
  then show ?thesis by (simp add: b64_char_def)
qed

lemma b64_char_pad: "b64_char n \<noteq> CHR ''=''"
  using b64_char_mem [of n] b64_chars_plain by (auto simp: list_all_iff)

lemma unat_u8_lt: "unat (a :: u8) < 256"
  using unsigned_less [of a] by simp

lemma b64_split: "r < 4 \<Longrightarrow> q < 16 \<Longrightarrow> (r * 16 + q) mod 64 = r * 16 + q \<and> (r * 16 + q) div 16 = r \<and> (r * 16 + q) mod 16 = (q :: nat)"
  by auto

lemma b64_split': "r < 16 \<Longrightarrow> q < 4 \<Longrightarrow> (r * 4 + q) mod 64 = r * 4 + q \<and> (r * 4 + q) div 4 = r \<and> (r * 4 + q) mod 4 = (q :: nat)"
  by auto

text \<open>The bytes of a group from its digits.\<close>

lemma b64_groups:
  fixes a b c :: u8
  shows "of_nat (unat a div 4 mod 64 * 4 + (unat a mod 4 * 16 + unat b div 16) mod 64 div 16) = a"
    and "of_nat ((unat a mod 4 * 16 + unat b div 16) mod 64 mod 16 * 16 + (unat b mod 16 * 4 + unat c div 64) mod 64 div 4) = b"
    and "of_nat ((unat b mod 16 * 4 + unat c div 64) mod 64 mod 4 * 64 + unat c mod 64 mod 64) = c"
proof -
  have lt: "unat b div 16 < 16" "unat c div 64 < 4" "unat a div 4 < 64"
    using unat_u8_lt [of a] unat_u8_lt [of b] unat_u8_lt [of c] by (simp_all add: less_mult_imp_div_less)
  note s = b64_split [of "unat a mod 4" "unat b div 16"] b64_split' [of "unat b mod 16" "unat c div 64"]
  show "of_nat (unat a div 4 mod 64 * 4 + (unat a mod 4 * 16 + unat b div 16) mod 64 div 16) = a" using s lt by simp
  show "of_nat ((unat a mod 4 * 16 + unat b div 16) mod 64 mod 16 * 16 + (unat b mod 16 * 4 + unat c div 64) mod 64 div 4) = b" using s lt by simp
  show "of_nat ((unat b mod 16 * 4 + unat c div 64) mod 64 mod 4 * 64 + unat c mod 64 mod 64) = c" using s lt by simp
qed

lemma b64_read_std: "b64_read (b64_std w) = Some w"
proof (induction w rule: b64_std.induct)
  case (2 a)
  show ?case using b64_groups(1) [of a 0] by (simp add: b64_digit_char)
next
  case (3 a b)
  show ?case using b64_groups(1) [of a b] b64_groups(2) [of a b 0] by (simp add: b64_digit_char b64_char_pad)
next
  case (4 a b c rest)
  then show ?case using b64_groups(1) [of a b] b64_groups(2) [of a b c] b64_groups(3) [of b c] by (simp add: b64_digit_char b64_char_pad)
qed simp

definition std_base64 :: base64_engine where
  "std_base64 = \<lparr>b64_encode = b64_std, b64_decode = b64_read\<rparr>"

definition json_serde :: "int json serde" where
  "json_serde =
     \<lparr>sd_struct = J_Obj, sd_field = (\<lambda>j k. case j of J_Obj fs \<Rightarrow> map_of fs k | _ \<Rightarrow> None),
      sd_of_uint = J_Num, sd_uint = (\<lambda>j. case j of J_Num n \<Rightarrow> Some n | _ \<Rightarrow> None),
      sd_of_str = J_Str, sd_str = (\<lambda>j. case j of J_Str t \<Rightarrow> Some t | _ \<Rightarrow> None),
      sd_of_variant = J_Str, sd_variant = (\<lambda>j. case j of J_Str t \<Rightarrow> Some t | _ \<Rightarrow> None)\<rparr>"

lemma std_base64_laws: "base64_laws std_base64"
proof -
  have "set (b64_std w) \<subseteq> set (CHR ''='' # b64_chars)" for w using b64_std_shape [of w] by auto
  then show ?thesis by (simp add: base64_laws_def std_base64_def b64_read_std)
qed

lemma json_serde_laws: "serde_laws json_serde"
  by (simp add: serde_laws_def json_serde_def)

definition saved :: save_io where
  "saved = \<lparr>io_created = True, io_written = True, io_renamed = True\<rparr>"

theorem cache_survives_restart_witness:
  "dm_get (load_cache_from_disk id (entry_from_value std_base64 json_serde) (\<lambda>_. None) 1100
     (save_cache_to_disk_async (entry_to_value std_base64 json_serde) (\<lambda>_. None) 1050 saved [(''a'', entry_example)] No_File) create_cache) ''a'' =
   Some entry_example"
proof -
  have "freshness (\<lambda>_. None) entry_example 1100 \<noteq> Expired"
    by (simp add: freshness_def freshness_at_def entry_example_def max_stale_secs_def env_u64_def DEFAULT_MAX_STALE_SECS_def
        saturating_sub_def saturating_add_def)
  moreover have "dm_ok [(''a'', entry_example)]" by (simp add: dm_ok_def)
  ultimately show ?thesis
    using cache_survives_restart [OF std_base64_laws json_serde_laws, of "[(''a'', entry_example)]" 1050 1100 "\<lambda>_. None" No_File "''a''"]
    by (simp add: saved_def dm_get_def)
qed

text \<open>A server without network or configuration: its start, and the file it leaves.\<close>

lemma idle_starts:
  "\<exists>st. starts idle_app (\<lambda>_. None) (\<lambda>_. None) from_value cfile st \<and> now_of idle_app st = 1000 \<and>
     en_cache st = load_cache_from_disk (\<lambda>c. c) from_value (\<lambda>_. None) 1000 cfile create_cache"
proof -
  have "parse_nodes (\<lambda>_. None :: int option) (\<lambda>_. None) = Some []"
    unfolding parse_nodes_def by (subst parse_nodes_from.simps) (simp add: env_nonempty_def)
  then obtain cfg where cfg: "geo_config_from_env anchor_lib (\<lambda>_. None :: int option) (\<lambda>_. None) = Some cfg" by (simp add: geo_config_from_env_def)
  let ?files = "\<lparr>sf_cache = cfile, sf_zone_text = None, sf_zone_json = None\<rparr>"
  let ?dns = "\<lparr>vs_budget = budget_default, vs_keys = [], vs_signed = [], vs_net = \<lparr>rs_cache = [], rs_net = ()\<rparr>\<rparr>"
  obtain d m st where s: "server_start idle_app (\<lambda>_. None) (\<lambda>_. None) from_value ?files ?dns = Some (d, m, st)"
    and st: "now_of idle_app st = 1000" "en_cache st = load_cache_from_disk (\<lambda>c. c) from_value (\<lambda>_. None) 1000 cfile create_cache"
    using cfg by (auto simp: server_start_def engine_start_def idle_app_def idle_net_def now_of_def Let_def split_beta)
  have "starts idle_app (\<lambda>_. None) (\<lambda>_. None) from_value cfile st"
    unfolding starts_def by (intro exI [of _ ?files] exI [of _ ?dns] exI [of _ d] exI [of _ m]) (simp add: s)
  with st show ?thesis by blast
qed

definition idle_file :: "int json cache_file" where
  "idle_file = Json_Object [(idle_key, entry_to_value std_base64 json_serde idle_entry)]"

lemmas idle_roundtrip = entry_roundtrip [OF std_base64_laws json_serde_laws]

lemma idle_entry_kept: "freshness_at idle_entry 1000 (max_stale_secs (\<lambda>_. None)) \<noteq> Expired"
  using idle_fresh by (simp add: freshness_def idle_app_def)

lemma idle_load: "load_cache_from_disk (\<lambda>c. c) (entry_from_value std_base64 json_serde) (\<lambda>_. None) 1000 idle_file create_cache = [(idle_key, idle_entry)]"
  by (simp add: load_cache_from_disk_def idle_file_def load_entries_def idle_roundtrip idle_entry_kept cache_insert_def create_cache_def
      dm_insert_def)

lemma idle_file_ok: "file_ok (ap_lib idle_app) (entry_from_value std_base64 json_serde) idle_file"
  using idle_entry_ok by (simp add: file_ok_def idle_file_def idle_roundtrip)

theorem cache_validated_across_restarts_witness:
  "\<exists>st0 st. starts idle_app (\<lambda>_. None) (\<lambda>_. None) (entry_from_value std_base64 json_serde) idle_file st0 \<and>
     (server_step idle_app std_base64 json_serde (\<lambda>_. None) (\<lambda>_. None))\<^sup>*\<^sup>* (st0, idle_file) (st, idle_file) \<and>
     dm_get (en_cache st) idle_key = Some idle_entry \<and> ce_min_ttl idle_entry > 0"
proof -
  let ?starts = "starts idle_app (\<lambda>_. None) (\<lambda>_. None) (entry_from_value std_base64 json_serde)"
  obtain st0 where st0: "?starts idle_file st0" "en_cache st0 = [(idle_key, idle_entry)]" "now_of idle_app st0 = 1000"
    using idle_starts [of "entry_from_value std_base64 json_serde" idle_file] idle_load by auto
  have same: "shutdown idle_app std_base64 json_serde saved st0 idle_file = idle_file"
    using idle_entry_kept unfolding shutdown_def st0 by (simp add: save_cache_to_disk_async_def save_cache_to_disk_sync_def saved_def idle_file_def idle_app_def)
  have step: "(server_step idle_app std_base64 json_serde (\<lambda>_. None) (\<lambda>_. None))\<^sup>*\<^sup>* (st0, idle_file) (st0, idle_file)"
    using srv_shutdown [of idle_app "\<lambda>_. None" "\<lambda>_. None" std_base64 json_serde saved st0 idle_file st0] st0(1) unfolding same
    by (intro r_into_rtranclp) blast
  have cap: "0 \<le> env_i64 (ap_env idle_app) ''RATE_LIMIT_BURST'' 300" "env_i64 (ap_env idle_app) ''RATE_LIMIT_BURST'' 300 < 2 ^ 62"
    by (simp_all add: env_i64_def idle_app_def)
  have get: "dm_get (en_cache st0) idle_key = Some idle_entry" by (simp add: st0 dm_get_def)
  show ?thesis
    using cache_validated_across_restarts [OF idle_app_ok std_base64_laws json_serde_laws cap st0(1) idle_file_ok step get] st0(1) step get by blast
qed

end
