(* ===== verification/Harness.thy ===== *)
theory Harness
  imports Negative Rate_Limit
begin

text \<open>
  \<open>verify_test/src/main.rs\<close>: the stand-alone program that checks signatures of a few zones with its
  own copy of the canonical octets and both RSA libraries. What it prints is the value of \<open>probe\<close>;
  the two responses it fetches are arguments. \<open>emit\<close> is \<open>RData::emit\<close> of \<open>hickory_proto\<close> with
  canonical names, which the program uses for every record type.

  Lemmas: where the emitter agrees with the resolver's own encoding (types without names, names in
  lower case) and no wildcard is involved, the program signs the octets the resolver signs; and
  a verdict of the program is a verdict of the resolver.
\<close>

definition fetch_message :: "'n lib \<Rightarrow> 'n \<Rightarrow> rtype \<Rightarrow> 'n message" where
  "fetch_message L qname qtype =
     (let m = msg_new L in m\<lparr>m_id := 0x1234, m_type := MT_Query, m_opcode := OC_Query, m_rd := True,
        m_queries := m_queries m @ [\<lparr>q_name = qname, q_type = qtype, q_class = IN\<rparr>],
        m_edns := Some ((edns_new L)\<lparr>e_version := 0, e_max_payload := 4096, e_dnssec_ok := True\<rparr>)\<rparr>)"

definition parse_rsa_pubkey :: "bytes \<Rightarrow> (bytes \<times> bytes) option" where
  "parse_rsa_pubkey bs =
     (case bs of
        [] \<Rightarrow> None
      | b0 # t \<Rightarrow>
          (case (if b0 = 0
                 then (case t of b1 # b2 # r \<Rightarrow> Some (unat b1 * 256 + unat b2, r) | _ \<Rightarrow> None)
                 else Some (unat b0, t)) of
             None \<Rightarrow> None
           | Some (exp_len, rest) \<Rightarrow>
               if exp_len = 0 \<or> length rest < exp_len then None else Some (take exp_len rest, drop exp_len rest)))"

definition reconstruct_wildcard_text :: "'n lib \<Rightarrow> 'n \<Rightarrow> u8 \<Rightarrow> 'n option" where
  "reconstruct_wildcard_text L owner num_labels =
     (if unat num_labels \<ge> length (label_list L owner) then Some owner
      else let parts = split_on (CHR ''.'') (trim_end_matches (CHR ''.'') (n_to_ascii L owner));
               skip = length parts - unat num_labels
           in n_from_str L (''*.'' @ join_with ''.'' (drop skip parts) @ ''.''))"

definition manual_tbs_record :: "'n lib \<Rightarrow> ('n rdata \<Rightarrow> bytes option) \<Rightarrow> 'n rr \<Rightarrow> 'n rrsig \<Rightarrow> 'n \<Rightarrow> 'n rr \<Rightarrow> bytes option" where
  "manual_tbs_record L emit rec s canonical_owner r =
     (case (name_emit_canon L canonical_owner, emit (rr_data r)) of
        (Some own, Some rdata) \<Rightarrow>
          if length rdata \<le> 65535
          then Some (own @ be16 (rt_u16 L (sig_type_covered s)) @ be16 (class_u16 L (rr_class rec)) @
                     be32 (sig_original_ttl s) @ be16 (of_nat (length rdata)) @ rdata)
          else None
      | _ \<Rightarrow> None)"

definition manual_tbs :: "'n lib \<Rightarrow> ('n rdata \<Rightarrow> bytes option) \<Rightarrow> 'n rr \<Rightarrow> 'n rr list \<Rightarrow> bytes option" where
  "manual_tbs L emit rec records =
     (case rr_data rec of
        RD_RRSIG s \<Rightarrow>
          if records = [] then None
          else if sig_num_labels s > owner_label_count_u8 L (rr_name rec) then None
          else (case reconstruct_wildcard_text L (rr_name rec) (sig_num_labels s) of
            None \<Rightarrow> None
          | Some canonical_owner \<Rightarrow>
              (case collect_opt (map (\<lambda>r. map_option (\<lambda>b. (b, r)) (emit (rr_data r)))
                  (filter (\<lambda>r. n_eq L (rr_name r) (rr_name rec) \<and> rr_type r = sig_type_covered s \<and> rr_class r = rr_class rec) records)) of
                 None \<Rightarrow> None
               | Some sortable \<Rightarrow>
                   if sortable = [] then None
                   else (case (name_emit_canon L (sig_signer_name s),
                       collect_opt (map (manual_tbs_record L emit rec s canonical_owner) (map snd (sort_key fst sortable)))) of
                     (Some signer, Some rs) \<Rightarrow>
                       fits L (be16 (rt_u16 L (sig_type_covered s)) @ [alg_u8 L (sig_algorithm s)] @ [sig_num_labels s] @
                         be32 (sig_original_ttl s) @ be32 (sig_expiration s) @ be32 (sig_inception s) @
                         be16 (sig_key_tag s) @ signer @ concat rs)
                   | _ \<Rightarrow> None)))
      | _ \<Rightarrow> None)"

text \<open>One line of the report per key with the tag of the signature; the verdicts of \<open>ring\<close> and of the \<open>rsa\<close> crate.\<close>

datatype key_report = Unparsable_Key | Rsa_Sha1 bool bool | Rsa_Sha256 bool bool | Unsupported_Alg

definition probe_key :: "'n lib \<Rightarrow> bytes \<Rightarrow> bytes \<Rightarrow> dnskey \<Rightarrow> key_report" where
  "probe_key L tbs sig k =
     (case parse_rsa_pubkey (dk_public_bytes k) of
        None \<Rightarrow> Unparsable_Key
      | Some (e, n) \<Rightarrow>
          (let kalg = alg_u8 L (dk_algorithm k) in
           if kalg = 5 \<or> kalg = 7
           then Rsa_Sha1 (ring_rsa_verify L RSA_2048_8192_SHA1 n e tbs sig) (verify_rsa_via_rsa_crate L RH_Sha1 e n tbs sig)
           else if kalg = 8
           then Rsa_Sha256 (ring_rsa_verify L RSA_2048_8192_SHA256 n e tbs sig) (verify_rsa_via_rsa_crate L RH_Sha256 e n tbs sig)
           else Unsupported_Alg))"

datatype report = No_Rrsig | No_Tbs | Keys "key_report list"

definition probe :: "'n lib \<Rightarrow> ('n rdata \<Rightarrow> bytes option) \<Rightarrow> 'n message \<Rightarrow> 'n message \<Rightarrow> report" where
  "probe L emit ans_msg key_msg =
     (case List.find (\<lambda>r. case rr_data r of RD_RRSIG _ \<Rightarrow> True | _ \<Rightarrow> False) (m_answers ans_msg) of
        None \<Rightarrow> No_Rrsig
      | Some rec \<Rightarrow>
          (case rr_data rec of
             RD_RRSIG s \<Rightarrow>
               (let rrset = filter (\<lambda>r. n_eq L (rr_name r) (rr_name rec) \<and> rr_type r = sig_type_covered s) (m_answers ans_msg) in
                case manual_tbs L emit rec rrset of
                  None \<Rightarrow> No_Tbs
                | Some tbs \<Rightarrow>
                    (let keys = filter_map (\<lambda>r. case rr_data r of RD_DNSKEY k \<Rightarrow> Some k | _ \<Rightarrow> None) (m_answers key_msg) in
                     Keys (map (probe_key L tbs (sig_sig s))
                       (filter (\<lambda>k. (case dnskey_calculate_tag L k of Some t \<Rightarrow> t | None \<Rightarrow> 0) = sig_key_tag s) keys))))
           | _ \<Rightarrow> No_Rrsig))"

section \<open>Agreement with the resolver\<close>

lemma manual_tbs_agrees:
  assumes "rr_data rec = RD_RRSIG s" and "unat (sig_num_labels s) \<ge> length (label_list L (rr_name rec))"
    and names: "\<And>n. n \<in> {rr_name rec, sig_signer_name s} \<Longrightarrow> name_emit_canon L n = emit_name_canonical L n"
    and owners: "\<And>r. r \<in> set records \<Longrightarrow> n_eq L (rr_name r) (rr_name rec) = name_eq L (rr_name r) (rr_name rec)"
    and emit: "\<And>r. r \<in> set records \<Longrightarrow> emit (rr_data r) = canonical_rdata L (rr_data r)"
  shows "manual_tbs L emit rec records = build_tbs_manual L rec records"
proof -
  let ?keep = "\<lambda>r. name_eq L (rr_name r) (rr_name rec) \<and> rr_type r = sig_type_covered s \<and> rr_class r = rr_class rec"
  have f: "filter (\<lambda>r. n_eq L (rr_name r) (rr_name rec) \<and> rr_type r = sig_type_covered s \<and> rr_class r = rr_class rec) records = filter ?keep records"
    by (rule filter_cong) (use owners in auto)
  have w: "reconstruct_wildcard_text L (rr_name rec) (sig_num_labels s) = Some (rr_name rec)"
    "reconstruct_wildcard_name L (rr_name rec) (sig_num_labels s) = Some (rr_name rec)"
    using assms(2) by (simp_all add: reconstruct_wildcard_text_def reconstruct_wildcard_name_def Let_def)
  have sortable: "collect_opt (map (\<lambda>r. map_option (\<lambda>b. (b, r)) (emit (rr_data r))) (filter ?keep records)) = tbs_sortable L rec s records"
    unfolding tbs_sortable_def using emit by (intro arg_cong [where f = collect_opt] map_cong) auto
  have rs: "map (manual_tbs_record L emit rec s (rr_name rec)) (map snd (sort_key fst xs)) = map (tbs_record L rec s (rr_name rec)) (map snd (sort_key fst xs))"
    if "tbs_sortable L rec s records = Some xs" for xs
  proof (rule map_cong [OF refl])
    fix r assume "r \<in> set (map snd (sort_key fst xs))"
    then have "r \<in> set records" using that unfolding tbs_sortable_def by (auto dest!: collect_opt_memD)
    then show "manual_tbs_record L emit rec s (rr_name rec) r = tbs_record L rec s (rr_name rec) r"
      using names emit by (simp add: manual_tbs_record_def tbs_record_def)
  qed
  show ?thesis
    unfolding manual_tbs_def build_tbs_manual_def assms(1) rdata.case w option.case f sortable
    using names
    by (cases "tbs_sortable L rec s records")
      (simp_all add: tbs_encode_def tbs_rrsig_prefix_def rs del: map_map split: option.splits)
qed

lemma parse_rsa_pubkey_split:
  "parse_rsa_public_key bs = Some (e, n) \<Longrightarrow> parse_rsa_pubkey bs = Some (e, n)"
  by (auto simp: parse_rsa_public_key_def rsa_split_def parse_rsa_pubkey_def Let_def split: list.splits if_splits option.splits)

lemma probe_verdict_sha1:
  assumes "parse_rsa_public_key (dk_public_bytes k) = Some (e, n)" and "probe_key L tbs sig k = Rsa_Sha1 ring rsa"
    and "dk_algorithm k = RSASHA1 \<or> dk_algorithm k = RSASHA1NSEC3SHA1"
  shows "verify_signature L (dk_algorithm k) (dk_public_bytes k) tbs sig = (ring \<and> length n \<ge> RING_RSA_MIN_MODULUS_BYTES \<or> rsa)"
  using assms(2,3) parse_rsa_pubkey_split [OF assms(1)]
  by (auto simp: probe_key_def verify_rsa_sha1_def assms(1) Let_def split: if_splits)

end
