(* ===== verification/Spec2Isabelle.thy ===== *)
theory Spec2Isabelle
  imports Prelude Dns_Types Crypto Manual_Tbs Negative Delegation Recursor Chain Validator Downgrade Cache Response
    Rate_Limit Hit_Tracker Geo_Health Geo_Routing Singleflight Engine Engine_Safety Text_Parse Root_Zone Acl Transports Http_Transports Listeners Geo_Config Startup
    Persistence Harness
begin

text \<open>
  \<^bold>\<open>A model of the DNSSEC-validating recursive resolver under \<open>src/\<close>.\<close>

  \<^bold>\<open>The program.\<close> A client's query arrives over UDP, TCP, TLS, QUIC, HTTP/2 or HTTP/3
  (\<open>src/transports\<close>). Each transport hands the message to \<open>process_dns_query\<close> of
  \<open>src/engine/resolve.rs\<close>, which parses it, asks the rate limiter, answers names of its own from
  the geo layer (\<open>src/geo\<close>), looks into the answer cache (\<open>src/cache.rs\<close>) and otherwise, once for
  all clients that wait for the same name (\<open>src/singleflight.rs\<close>), resolves it
  (\<open>src/recursor\<close>), validates the result (\<open>src/dnssec\<close>), stores it and builds the response. In
  the background run the revalidation of stale entries, the prefetching of popular ones
  (\<open>src/prefetch.rs\<close>, \<open>src/hit_tracker.rs\<close>), the refresh of a local root zone
  (\<open>src/root_zone.rs\<close>) and the health probes of the geo layer. \<open>src/main.rs\<close> puts them together.

  \<^bold>\<open>Conventions.\<close> A Rust integer is a word of its width, so that additions wrap where the release
  build wraps; \<open>usize\<close> and lengths are \<open>nat\<close>; the signed milliseconds and tokens of the rate
  limiter are \<open>int\<close> cut back by \<open>i64\<close>. A \<open>DashMap\<close> or \<open>HashMap\<close> is an association list with
  the laws of the locale \<open>kv_store\<close>. A handler that changes state takes the state and returns it;
  a handler runs as one step and a spawned task as a later step of a transition system. Failure
  is a value (\<open>option\<close> or a sum). Logging is left out everywhere.

  \<^bold>\<open>Parameters.\<close> What the program calls and does not contain is a field of a record argument:
  \<open>lib\<close> (names, codec and cryptography: \<open>hickory_proto\<close>, \<open>ring\<close>, \<open>rsa\<close> and others), \<open>net\<close>
  (clock, random numbers and the servers of the Internet), \<open>f64\<close> (floating point), \<open>once_cell\<close>
  (\<open>tokio::sync::OnceCell\<close>), \<open>http_env\<close> (HMAC and JSON), \<open>serde\<close> and \<open>base64_engine\<close>. What the proofs need of
  them are named predicates (\<open>name_laws\<close>, \<open>fresh_message\<close>, \<open>once_cell_laws\<close>, \<open>hmac_laws\<close>,
  \<open>evict_ok\<close>, \<open>join_ok\<close>, \<open>serde_laws\<close>, \<open>base64_laws\<close>), each shown to hold of a concrete instance, \<open>lab_lib\<close> above all.

  \<^bold>\<open>Theories, in the order of the calls.\<close>

  \<^item> \<open>Prelude\<close>: words, saturating arithmetic, association lists, the locales \<open>kv_store\<close>
    (interpreted as \<open>dm\<close>) and \<open>transition_system\<close>. \<open>Dns_Types\<close>: messages, records, names.
    \<open>Text_Parse\<close>: the parts of Rust's string and number parsing the sources use.
  \<^item> \<open>Crypto\<close> (\<open>dnssec/crypto.rs\<close>, \<open>alg7.rs\<close>): validity window, key tags, DS digests, RSA keys,
    signatures within a work budget. \<open>Manual_Tbs\<close> (\<open>dnssec/manual_tbs.rs\<close>): the signed octets,
    shown to be independent of the order of the records. \<open>Negative\<close> (\<open>dnssec/negative.rs\<close>): NSEC
    and NSEC3; a denial is accepted only with signed records that cover the name.
    \<open>Chain\<close> (\<open>dnssec/chain.rs\<close>): the walk from the root anchors; every trusted key set is in
    the inductive set \<open>trusted\<close>, and a zone is unsigned only by a signed denial or by an
    unsupported algorithm. \<open>Validator\<close> (\<open>dnssec/validator.rs\<close>): a Secure verdict means that
    every record was signed by a trusted key or denied by one, and a validation charges, and performs,
    at most 24 signature checks. \<open>Downgrade\<close>: the verdict \<open>InsecureUnsigned\<close> is as hard to get; it
    needs a zone proven unsigned under trusted keys.
  \<^item> \<open>Delegation\<close> and \<open>Recursor\<close> (\<open>src/recursor\<close>): address filter, referrals, aliases, DNAME, the
    query of a server and the iteration. The answer matches the question; private addresses are
    never asked and never reach the delegation cache (locale \<open>cache_keeping\<close>, interpreted
    as \<open>ri\<close> on the recursive resolver itself).
  \<^item> \<open>Cache\<close> (\<open>cache.rs\<close>, \<open>cache_config.rs\<close>): freshness, eviction as a locale \<open>lossy_store\<close>
    (interpreted as \<open>moka\<close>), persistence as a round trip. \<open>Response\<close> (\<open>engine/query.rs\<close>,
    \<open>engine/response.rs\<close>, \<open>engine/limits.rs\<close>): parsing, the TTL and the message of the client; the locale
    \<open>dns_service\<close> is what the transports rely on.
  \<^item> \<open>Rate_Limit\<close>, \<open>Hit_Tracker\<close> (with the counters of \<open>metrics.rs\<close>), \<open>Singleflight\<close> (an
    interleaving of callers as a step relation; interpretations \<open>sf\<close> and \<open>quiet\<close>).
  \<^item> \<open>Geo_Health\<close>, \<open>Geo_Routing\<close>, \<open>Geo_Config\<close> (\<open>src/geo\<close>): probes, heartbeats, scoring and
    selection of nodes, the configuration.
  \<^item> \<open>Engine\<close> (\<open>engine/resolve.rs\<close>, \<open>prefetch.rs\<close>, \<open>preload_domains\<close>) and \<open>Engine_Safety\<close>: the
    handler, the tasks, and as a transition system (\<open>eng\<close>) what holds in all reachable states: the
    cache holds validated answers, background work is bounded, every answer sent is sound.
    \<open>service\<close> makes the engine a \<open>dns_service\<close>.
  \<^item> \<open>Persistence\<close> (the layout of \<open>cache.json\<close> in \<open>cache.rs\<close>, the saving task and the shutdown of \<open>main.rs\<close>): the
    life of the server over restarts and crashes as a transition system (\<open>srv\<close>); an entry reads back as it was
    written, and the cache holds validated answers in every run, since the file a run leaves is one the next
    can trust.
  \<^item> \<open>Transports\<close> (\<open>udp.rs\<close>, \<open>tcp.rs\<close>, \<open>dot.rs\<close>, \<open>doq.rs\<close>) and \<open>Http_Transports\<close>
    (\<open>doh.rs\<close>, \<open>doh3.rs\<close>): the stream handler refines the handling of the messages it carries;
    the UDP listener (\<open>udp\<close>) keeps within its permits; GET and POST agree; a heartbeat changes
    the health of a node only when signed, recent and from a listed address. \<open>Listeners\<close>: all six transports over one
    engine, interleaved message by message (\<open>nets\<close>); each keeps to its permits, and all that is sent is a sound
    answer to what was asked.
  \<^item> \<open>Root_Zone\<close> (\<open>root_zone.rs\<close>, \<open>tranco.rs\<close>), \<open>Acl\<close> (\<open>acl.rs\<close>, which the program does not
    use), \<open>Startup\<close> (\<open>main.rs\<close>, \<open>tls.rs\<close>, \<open>transports/quic.rs\<close>, \<open>metrics.rs\<close>), \<open>Harness\<close>
    (\<open>verify_test\<close>).
  \<^item> This theory: the root zone read at start-up is where resolutions start.

  \<^bold>\<open>Bounds and fuel.\<close> \<open>resolve_internal\<close> recurses on the depth that is left, at most 17 calls
  deep, and \<open>resolve_rounds\<close> on the rounds that are left, 16: these are the limits \<open>MAX_DEPTH\<close> and
  \<open>MAX_STEPS\<close> of the code, so running out is the code's own error value. The climbs to the root
  recurse over the labels of the name; \<open>next_closer\<close> has as much fuel as the name has labels, which is
  shown to be enough. The stream loops recurse on the bytes that are left. The loop over \<open>NODE1_NAME\<close>,
  \<open>NODE2_NAME\<close>, ... has no bound in the code and is a \<open>partial_function\<close>, shown to return
  when some index below \<open>2 ^ 32\<close> is unset.

  \<^bold>\<open>Not modelled.\<close> The inside of sockets, of TLS and QUIC handshakes and their configuration, and the JSON text of the
  health and metrics pages (calls into third-party code); the spawning of tasks in \<open>main\<close>; the
  paths of files; log lines. Time-outs appear as results of the parameters. Handlers run as one step each, so
  interleavings inside a handler are modelled only where the code coordinates them (single flight, gates
  and permits).
\<close>

section \<open>The root zone guides the resolution\<close>


text \<open>A server whose only file is a copy of the root zone with the TLD \<open>c.\<close>.\<close>

definition zone_app :: "(bytes list, unit, int) app" where
  "zone_app = idle_app\<lparr>ap_lib := lab_lib\<rparr>"

definition zone_files :: "cache_entry server_files" where
  "zone_files = \<lparr>sf_cache = Json_Object [], sf_zone_text = Some demo_zone, sf_zone_json = None\<rparr>"

definition zone_dns :: "unit rstate vstate" where
  "zone_dns = \<lparr>vs_budget = budget_default, vs_keys = [], vs_signed = [], vs_net = \<lparr>rs_cache = [], rs_net = ()\<rparr>\<rparr>"

lemma zone_app_simps: "ap_lib zone_app = lab_lib" "ap_env zone_app = (\<lambda>_. None)" "net_now (ap_net zone_app) = (\<lambda>_. 1000)"
  by (simp_all add: zone_app_def idle_app_def idle_net_def)

lemma zone_start: "\<exists>d m st. server_start zone_app (\<lambda>_. None) (\<lambda>_. None) Some zone_files zone_dns = Some (d, m, st)"
proof -
  have "parse_nodes (\<lambda>_. None :: int option) (\<lambda>_. None) = Some []"
    unfolding parse_nodes_def by (subst parse_nodes_from.simps) (simp add: env_nonempty_def)
  then have "\<exists>cfg. geo_config_from_env lab_lib (\<lambda>_. None :: int option) (\<lambda>_. None) = Some cfg" by (simp add: geo_config_from_env_def)
  then show ?thesis by (auto simp: server_start_def zone_app_simps split_beta Let_def)
qed

lemma zone_walk: "name_walk lab_lib (lookup_start lab_lib [[120], [99]] RT_A) = [[[120], [99]]] @ [[99]] # [[]]"
  by (simp add: name_walk_def lookup_start_def label_list_def lab_lib_def)

lemma zone_initial: "initial_zone lab_lib (root_zone_config_from_env (\<lambda>_. None)) 1000 (start_manager zone_files []) =
  Some (demo_zone_data 1000 DEFAULT_URL)"
  by (simp add: initial_zone_def start_manager_def zone_files_def try_load_json_def try_load_text_def demo_zone_parsed root_zone_config_from_env_def)


end
